(* ===== verification/Rust_Prelude.thy ===== *)
theory Rust_Prelude
  imports Main "HOL-Library.Word"
begin

text \<open>
  The vocabulary the component theories share: the machine integers of the source, the
  three-valued outcome of a Rust call, the arithmetic of the standard library that the code
  calls by name (\<open>checked_add\<close>, \<open>saturating_sub\<close>, \<open>to_le_bytes\<close>, ...), slices, and the
  formatting directives that occur in error messages.

  Build profile.  The model is the release build of the workspace manifest: \<open>+\<close>, \<open>-\<close>, \<open>*\<close> on a
  fixed-width integer wrap around, \<open><<\<close> takes its shift count modulo the width, and a panic
  aborts the process.  A \<open>usize\<close> is 64 bits wide; where the code only uses it as a position in a
  slice it is a \<open>nat\<close>, with the check of the source against \<open>2 ^ 64\<close> written out.
\<close>

unbundle bit_operations_syntax

section \<open>Machine integers\<close>

type_synonym u8 = "8 word"
type_synonym u16 = "16 word"
type_synonym u32 = "32 word"
type_synonym u64 = "64 word"
type_synonym i32 = "32 word"
type_synonym i64 = "64 word"

named_theorems word_nat \<open>facts that move 64-bit arithmetic to the naturals\<close>
named_theorems result_simps \<open>inversion of the outcomes of Rust calls\<close>

abbreviation u64_max :: u64 where
  "u64_max \<equiv> 0xFFFFFFFFFFFFFFFF"

abbreviation isize_max :: nat where
  "isize_max \<equiv> 0x7FFFFFFFFFFFFFFF"

definition checked_add :: "'a::len word \<Rightarrow> 'a word \<Rightarrow> 'a word option" where
  "checked_add a b = (if unat a + unat b < 2 ^ LENGTH('a) then Some (a + b) else None)"

definition checked_sub :: "'a::len word \<Rightarrow> 'a word \<Rightarrow> 'a word option" where
  "checked_sub a b = (if b \<le> a then Some (a - b) else None)"

definition saturating_add :: "'a::len word \<Rightarrow> 'a word \<Rightarrow> 'a word" where
  "saturating_add a b = (if unat a + unat b < 2 ^ LENGTH('a) then a + b else - 1)"

definition saturating_sub :: "'a::len word \<Rightarrow> 'a word \<Rightarrow> 'a word" where
  "saturating_sub a b = (if b \<le> a then a - b else 0)"

definition saturating_mul :: "'a::len word \<Rightarrow> 'a word \<Rightarrow> 'a word" where
  "saturating_mul a b = (if unat a * unat b < 2 ^ LENGTH('a) then a * b else - 1)"

definition checked_mul :: "'a::len word \<Rightarrow> 'a word \<Rightarrow> 'a word option" where
  "checked_mul a b = (if unat a * unat b < 2 ^ LENGTH('a) then Some (a * b) else None)"

definition checked_add_usize :: "nat \<Rightarrow> nat \<Rightarrow> nat option" where
  "checked_add_usize a b = (if a + b < 2 ^ 64 then Some (a + b) else None)"

definition wrap_usize :: "nat \<Rightarrow> nat" where
  "wrap_usize n = n mod 2 ^ 64"

subsection \<open>Byte encodings\<close>

fun le_nat :: "u8 list \<Rightarrow> nat" where
  "le_nat [] = 0"
| "le_nat (b # bs) = unat b + 256 * le_nat bs"

fun nat_le :: "nat \<Rightarrow> nat \<Rightarrow> u8 list" where
  "nat_le 0 v = []"
| "nat_le (Suc n) v = of_nat v # nat_le n (v div 256)"

definition from_le_bytes :: "u8 list \<Rightarrow> 'a::len word" where
  "from_le_bytes bs = of_nat (le_nat bs)"

definition from_be_bytes :: "u8 list \<Rightarrow> 'a::len word" where
  "from_be_bytes bs = of_nat (le_nat (rev bs))"

definition to_le_bytes :: "'a::len word \<Rightarrow> u8 list" where
  "to_le_bytes w = nat_le (LENGTH('a) div 8) (unat w)"

subsection \<open>Formatting directives\<close>

fun fmt_radix :: "nat \<Rightarrow> nat \<Rightarrow> string" where
  "fmt_radix b n =
     (if b < 2 \<or> n < b then [''0123456789abcdef'' ! n]
      else fmt_radix b (n div b) @ [''0123456789abcdef'' ! (n mod b)])"

declare fmt_radix.simps [simp del]

definition fmt_dec :: "nat \<Rightarrow> string" where
  "fmt_dec n = fmt_radix 10 n"

definition fmt_hex :: "nat \<Rightarrow> string" where
  "fmt_hex n = ''0x'' @ fmt_radix 16 n"

definition fmt_hex_pad :: "nat \<Rightarrow> nat \<Rightarrow> string" where
  "fmt_hex_pad width n =
     (let digits = fmt_radix 16 n
      in ''0x'' @ replicate (width - 2 - length digits) (CHR ''0'') @ digits)"

section \<open>Outcomes of Rust calls\<close>

text \<open>
  \<open>Ok\<close> and \<open>Err\<close> are the constructors of \<open>Result\<close>; \<open>Panic\<close> is the third way a call can end: an
  index out of bounds, a failed \<open>unwrap\<close>, a capacity overflow.
\<close>

datatype ('a, 'e) rust_result = Ok 'a | Err 'e | Panic

fun and_then :: "('a, 'e) rust_result \<Rightarrow> ('a \<Rightarrow> ('b, 'e) rust_result) \<Rightarrow> ('b, 'e) rust_result" where
  "and_then (Ok x) f = f x"
| "and_then (Err e) f = Err e"
| "and_then Panic f = Panic"

fun map_err :: "('e \<Rightarrow> 'd) \<Rightarrow> ('a, 'e) rust_result \<Rightarrow> ('a, 'd) rust_result" where
  "map_err f (Ok x) = Ok x"
| "map_err f (Err e) = Err (f e)"
| "map_err f Panic = Panic"

fun ok_or :: "'e \<Rightarrow> 'a option \<Rightarrow> ('a, 'e) rust_result" where
  "ok_or e None = Err e"
| "ok_or e (Some x) = Ok x"

fun is_ok :: "('a, 'e) rust_result \<Rightarrow> bool" where
  "is_ok (Ok x) = True"
| "is_ok (Err e) = False"
| "is_ok Panic = False"

fun the_ok :: "('a, 'e) rust_result \<Rightarrow> 'a" where
  "the_ok (Ok x) = x"

text \<open>\<open>if_ok P r\<close>: a call that succeeds does so with a value satisfying \<open>P\<close>.\<close>

fun if_ok :: "('a \<Rightarrow> bool) \<Rightarrow> ('a, 'e) rust_result \<Rightarrow> bool" where
  "if_ok P (Ok x) = P x"
| "if_ok P (Err e) = True"
| "if_ok P Panic = True"

text \<open>Indexing with a range, \<open>&xs[a..b]\<close>, panics out of bounds; \<open>xs.get(a..b)\<close> returns \<open>None\<close>.\<close>

definition slice_get :: "'a list \<Rightarrow> nat \<Rightarrow> nat \<Rightarrow> 'a list option" where
  "slice_get xs a b = (if a \<le> b \<and> b \<le> length xs then Some (take (b - a) (drop a xs)) else None)"

definition slice_index :: "'a list \<Rightarrow> nat \<Rightarrow> nat \<Rightarrow> ('a list, 'e) rust_result" where
  "slice_index xs a b = (case slice_get xs a b of None \<Rightarrow> Panic | Some ys \<Rightarrow> Ok ys)"

text \<open>Indexing with a position, \<open>xs[i]\<close>.\<close>

definition index_at :: "'a list \<Rightarrow> nat \<Rightarrow> ('a, 'e) rust_result" where
  "index_at xs i = (if i < length xs then Ok (xs ! i) else Panic)"

text \<open>\<open>dst[a..a + src.len()].copy_from_slice(src)\<close>, in bounds.\<close>

definition splice :: "'a list \<Rightarrow> nat \<Rightarrow> 'a list \<Rightarrow> 'a list" where
  "splice dst a src = take a dst @ src @ drop (a + length src) dst"

text \<open>\<open>vec![0u8; n]\<close>: more than \<open>isize::MAX\<close> bytes is a capacity overflow.\<close>

definition vec_zeroed :: "nat \<Rightarrow> (u8 list, 'e) rust_result" where
  "vec_zeroed n = (if n \<le> isize_max then Ok (replicate n 0) else Panic)"

text \<open>\<open>Vec::with_capacity(n)\<close> for elements of \<open>sz\<close> bytes has the same limit.\<close>

definition vec_with_capacity :: "nat \<Rightarrow> nat \<Rightarrow> (unit, 'e) rust_result" where
  "vec_with_capacity sz n = (if n * sz \<le> isize_max then Ok () else Panic)"

section \<open>Lemmas on outcomes and slices\<close>

lemma and_then_cong [fundef_cong]:
  "m = m' \<Longrightarrow> (\<And>x. m' = Ok x \<Longrightarrow> f x = g x) \<Longrightarrow> and_then m f = and_then m' g"
  by (cases m) auto

lemma and_then_eq_Ok [result_simps]:
  "and_then m f = Ok y \<longleftrightarrow> (\<exists>x. m = Ok x \<and> f x = Ok y)"
  by (cases m) auto

lemma and_then_eq_Err [result_simps]:
  "and_then m f = Err e \<longleftrightarrow> m = Err e \<or> (\<exists>x. m = Ok x \<and> f x = Err e)"
  by (cases m) auto

lemma and_then_eq_Panic [result_simps]:
  "and_then m f = Panic \<longleftrightarrow> m = Panic \<or> (\<exists>x. m = Ok x \<and> f x = Panic)"
  by (cases m) auto

lemma and_then_no_panic:
  "m \<noteq> Panic \<Longrightarrow> (\<And>x. m = Ok x \<Longrightarrow> f x \<noteq> Panic) \<Longrightarrow> and_then m f \<noteq> Panic"
  by (cases m) auto

lemma if_okI: "(\<And>x. r = Ok x \<Longrightarrow> P x) \<Longrightarrow> if_ok P r"
  by (cases r) simp_all

lemma if_okD: "if_ok P r \<Longrightarrow> r = Ok x \<Longrightarrow> P x"
  by simp

lemma if_ok_then: "if_ok P m \<Longrightarrow> (\<And>x. P x \<Longrightarrow> if_ok R (f x)) \<Longrightarrow> if_ok R (and_then m f)"
  by (cases m) simp_all

lemma if_ok_any: "(\<And>x. if_ok R (f x)) \<Longrightarrow> if_ok R (and_then m f)"
  by (cases m) simp_all

lemma and_then_assoc [simp]:
  "and_then (and_then m f) g = and_then m (\<lambda>x. and_then (f x) g)"
  by (cases m) auto

lemma map_err_eq_Ok [result_simps]: "map_err f m = Ok x \<longleftrightarrow> m = Ok x"
  by (cases m) auto

lemma map_err_eq_Panic [result_simps]: "map_err f m = Panic \<longleftrightarrow> m = Panic"
  by (cases m) auto

lemma ok_or_eq_Ok [result_simps]: "ok_or e m = Ok x \<longleftrightarrow> m = Some x"
  by (cases m) auto

lemma ok_or_eq_Err [result_simps]: "ok_or e m = Err d \<longleftrightarrow> m = None \<and> d = e"
  by (cases m) auto

lemma ok_or_no_panic [simp]: "ok_or e m \<noteq> Panic"
  by (cases m) auto

lemma is_ok_iff: "is_ok m \<longleftrightarrow> (\<exists>x. m = Ok x)"
  by (cases m) auto

lemma is_ok_the_ok: "is_ok m \<Longrightarrow> m = Ok (the_ok m)"
  by (cases m) auto

lemma slice_get_eq_Some [result_simps]:
  "slice_get xs a b = Some ys \<longleftrightarrow> a \<le> b \<and> b \<le> length xs \<and> ys = take (b - a) (drop a xs)"
  by (auto simp: slice_get_def)

lemma slice_index_eq_Ok [result_simps]:
  "slice_index xs a b = Ok ys \<longleftrightarrow> a \<le> b \<and> b \<le> length xs \<and> ys = take (b - a) (drop a xs)"
  by (auto simp: slice_index_def slice_get_def)

lemma slice_index_eq_Panic [result_simps]:
  "slice_index xs a b = Panic \<longleftrightarrow> \<not> (a \<le> b \<and> b \<le> length xs)"
  by (auto simp: slice_index_def slice_get_def)

lemma slice_index_not_Err [simp]: "slice_index xs a b \<noteq> Err e"
  by (auto simp: slice_index_def split: option.splits)

lemma index_at_eq [result_simps]:
  "index_at xs i = Ok x \<longleftrightarrow> i < length xs \<and> x = xs ! i"
  "index_at xs i = Panic \<longleftrightarrow> \<not> i < length xs"
  "index_at xs i \<noteq> Err e"
  by (auto simp: index_at_def)

lemma length_splice [simp]: "a + length src \<le> length dst \<Longrightarrow> length (splice dst a src) = length dst"
  by (simp add: splice_def)

lemma take_drop_splice:
  "a + length src \<le> length dst \<Longrightarrow> take (length src) (drop a (splice dst a src)) = src"
  by (simp add: splice_def)

lemma nth_splice:
  assumes "a + length src \<le> length dst" and "i < length dst"
  shows "splice dst a src ! i = (if a \<le> i \<and> i < a + length src then src ! (i - a) else dst ! i)"
  using assms by (auto simp: splice_def nth_append min_def)

lemma splice_disjoint:
  assumes "a + length src \<le> length dst" and "b + n \<le> length dst"
    and "b + n \<le> a \<or> a + length src \<le> b"
  shows "take n (drop b (splice dst a src)) = take n (drop b dst)"
  using assms by (intro nth_equalityI) (auto simp: nth_splice)

section \<open>Lemmas on machine integers\<close>

lemma u64_bound [simp]: "unat (w :: u64) < 18446744073709551616"
  using unsigned_less [of w] by simp

lemma u32_bound [simp]: "unat (w :: u32) < 4294967296"
  using unsigned_less [of w] by simp

lemma u8_bound [simp]: "unat (w :: u8) < 256"
  using unsigned_less [of w] by simp

lemma unat_pow2:
  assumes "k < LENGTH('a)"
  shows "unat (2 ^ k :: 'a::len word) = 2 ^ k"
proof -
  have "(2 ^ k :: 'a word) = of_nat (2 ^ k)" by simp
  moreover have "(2 :: nat) ^ k < 2 ^ LENGTH('a)" using assms by simp
  ultimately show ?thesis by (metis unat_of_nat mod_less)
qed

lemma checked_add_eq_Some [result_simps]:
  "checked_add a (b :: 'a::len word) = Some c \<longleftrightarrow> unat a + unat b < 2 ^ LENGTH('a) \<and> c = a + b"
  by (auto simp: checked_add_def)

lemma checked_add_eq_None [result_simps]:
  "checked_add a (b :: 'a::len word) = None \<longleftrightarrow> 2 ^ LENGTH('a) \<le> unat a + unat b"
  by (auto simp: checked_add_def)

lemma checked_sub_eq_Some [result_simps]:
  "checked_sub a b = Some c \<longleftrightarrow> b \<le> a \<and> c = a - b"
  by (auto simp: checked_sub_def)

lemma checked_add_usize_eq_Some [result_simps]:
  "checked_add_usize a b = Some c \<longleftrightarrow> a + b < 2 ^ 64 \<and> c = a + b"
  by (auto simp: checked_add_usize_def)

lemma checked_add_usize_eq_None [result_simps]:
  "checked_add_usize a b = None \<longleftrightarrow> 2 ^ 64 \<le> a + b"
  by (auto simp: checked_add_usize_def)

lemma unat_add_exact [word_nat]:
  "unat a + unat b < 2 ^ LENGTH('a) \<Longrightarrow> unat (a + b :: 'a::len word) = unat a + unat b"
  by (simp add: unat_add_lem [THEN iffD1])

lemma unat_add_u64:
  "unat a + unat b < 18446744073709551616 \<Longrightarrow> unat (a + b :: u64) = unat a + unat b"
  by (rule unat_add_exact) simp

lemma unat_of_nat_u64:
  "n < 18446744073709551616 \<Longrightarrow> unat (of_nat n :: u64) = n"
  by (simp add: unat_of_nat)

lemma unat_mult_exact:
  "unat a * unat b < 2 ^ LENGTH('a) \<Longrightarrow> unat (a * b :: 'a::len word) = unat a * unat b"
  by (simp add: unat_mult_lem [THEN iffD1])

lemma unat_saturating_mul:
  "unat (saturating_mul a (b :: u64)) = min (unat a * unat b) (2 ^ 64 - 1)"
proof (cases "unat a * unat b < 2 ^ LENGTH(64)")
  case True
  then show ?thesis using unat_mult_exact [of a b] by (simp add: saturating_mul_def)
next
  case False
  have "unat (- 1 :: u64) = 2 ^ 64 - 1" by (simp add: unsigned_minus_1_eq_mask mask_eq_exp_minus_1)
  with False show ?thesis by (simp add: saturating_mul_def)
qed

subsection \<open>Alignment masks\<close>

lemma and_not_mask_minus: "(w :: 'a::len word) AND NOT (mask k) = w - w mod 2 ^ k"
proof -
  have "w AND NOT (mask k) = push_bit k (drop_bit k w)"
    by (auto intro!: bit_eqI simp: bit_simps)
  also have "\<dots> = w - take_bit k w"
    using bits_ident [of k w] by (metis add_diff_cancel_right')
  finally show ?thesis by (simp add: take_bit_eq_mod)
qed

lemma unat_and_not_mask:
  assumes "k < LENGTH('a)"
  shows "unat ((w :: 'a::len word) AND NOT (2 ^ k - 1)) = unat w div 2 ^ k * 2 ^ k"
proof -
  have "(2 ^ k - 1 :: 'a word) = mask k" by (simp add: mask_eq_decr_exp)
  then have "w AND NOT (2 ^ k - 1) = w - w mod 2 ^ k" by (simp add: and_not_mask_minus)
  moreover have "w mod 2 ^ k \<le> w" by (simp add: word_le_nat_alt unat_mod_distrib)
  ultimately have "unat (w AND NOT (2 ^ k - 1)) = unat w - unat w mod 2 ^ k"
    using assms by (simp add: unat_sub unat_mod_distrib unat_pow2)
  then show ?thesis by (simp add: minus_mod_eq_div_mult)
qed

subsection \<open>Byte encodings\<close>

lemma length_nat_le [simp]: "length (nat_le n v) = n"
  by (induction n arbitrary: v) auto

lemma le_nat_nat_le: "le_nat (nat_le n v) = v mod 256 ^ n"
  by (induction n arbitrary: v) (simp_all add: unat_of_nat mod_mult2_eq mult.commute)

lemma le_nat_bound: "le_nat bs < 256 ^ length bs"
proof (induction bs)
  case (Cons b bs)
  with u8_bound [of b] show ?case by (simp del: u8_bound)
qed simp

lemma of_nat_le_digit: "(of_nat (unat b + 256 * n) :: u8) = b"
proof -
  have "(256 :: u8) * of_nat n = 0 * of_nat n" by (rule arg_cong [where f = "\<lambda>x. x * of_nat n"]) simp
  then show ?thesis by (simp only: of_nat_add of_nat_mult of_nat_numeral) simp
qed

lemma nat_le_le_nat: "nat_le (length bs) (le_nat bs) = bs"
proof (induction bs)
  case (Cons b bs)
  have "(unat b + 256 * le_nat bs) div 256 = le_nat bs" by simp
  with Cons show ?case using of_nat_le_digit [of b "le_nat bs"] by simp
qed simp

lemma length_to_le_bytes_u64 [simp]: "length (to_le_bytes (w :: u64)) = 8"
  by (simp add: to_le_bytes_def)

lemma length_to_le_bytes_u32 [simp]: "length (to_le_bytes (w :: u32)) = 4"
  by (simp add: to_le_bytes_def)

lemma to_le_bytes_u32:
  "to_le_bytes (w :: u32) =
     [of_nat (unat w), of_nat (unat w div 256), of_nat (unat w div 65536), of_nat (unat w div 16777216)]"
proof -
  have "nat_le 4 v = nat_le (Suc (Suc (Suc (Suc 0)))) v" for v by (simp only: eval_nat_numeral BitM.simps)
  then show ?thesis by (simp add: to_le_bytes_def div_mult2_eq [symmetric])
qed

lemma from_to_le_bytes_u64 [simp]: "from_le_bytes (to_le_bytes (w :: u64)) = w"
  by (simp add: from_le_bytes_def to_le_bytes_def le_nat_nat_le)

lemma from_to_le_bytes_u32 [simp]: "from_le_bytes (to_le_bytes (w :: u32)) = w"
  by (simp add: from_le_bytes_def to_le_bytes_def le_nat_nat_le)

end
