(* ===== verification/Rust_Strings.thy ===== *)
theory Rust_Strings
  imports Rust_Prelude "HOL-Library.Sublist"
begin

text \<open>
  Strings and paths of the standard library.  A \<open>String\<close> is the list of its UTF-8 bytes, each an
  Isabelle \<open>char\<close>, so \<open>length\<close> is \<open>str::len\<close> and searching for an ASCII character is searching for
  its byte.  \<open>from_utf8_lossy\<close> follows the decoder of the standard library, which replaces every
  maximal ill-formed prefix by U+FFFD.  A \<open>PathBuf\<close> is its (Unix) string.
\<close>

section \<open>Bytes and characters\<close>

definition byte_char :: "u8 \<Rightarrow> char" where
  "byte_char b = char_of (unat b)"

definition char_byte :: "char \<Rightarrow> u8" where
  "char_byte c = of_nat (of_char c)"

definition as_bytes :: "string \<Rightarrow> u8 list" where
  "as_bytes s = map char_byte s"

lemma char_byte_inverse [simp]: "byte_char (char_byte c) = c"
proof -
  have "of_char c < (256 :: nat)" by simp
  then show ?thesis by (simp add: byte_char_def char_byte_def unat_of_nat)
qed

lemma byte_char_inverse [simp]: "char_byte (byte_char b) = b"
  by (simp add: byte_char_def char_byte_def)

lemma map_char_byte_inverse [simp]: "map (\<lambda>c. byte_char (char_byte c)) s = s"
  by (induction s) auto

lemma length_as_bytes [simp]: "length (as_bytes s) = length s"
  by (simp add: as_bytes_def)

section \<open>Lossy UTF-8 decoding\<close>

definition safe_get :: "u8 list \<Rightarrow> nat \<Rightarrow> u8" where
  "safe_get bs i = (if i < length bs then bs ! i else 0)"

definition is_continuation :: "u8 \<Rightarrow> bool" where
  "is_continuation b \<longleftrightarrow> b AND 0xC0 = 0x80"

definition second_of_three :: "u8 \<Rightarrow> u8 \<Rightarrow> bool" where
  "second_of_three b0 b1 \<longleftrightarrow>
     (if b0 = 0xE0 then 0xA0 \<le> b1 \<and> b1 \<le> 0xBF
      else if b0 = 0xED then 0x80 \<le> b1 \<and> b1 \<le> 0x9F
      else 0x80 \<le> b1 \<and> b1 \<le> 0xBF)"

definition second_of_four :: "u8 \<Rightarrow> u8 \<Rightarrow> bool" where
  "second_of_four b0 b1 \<longleftrightarrow>
     (if b0 = 0xF0 then 0x90 \<le> b1 \<and> b1 \<le> 0xBF
      else if b0 = 0xF4 then 0x80 \<le> b1 \<and> b1 \<le> 0x8F
      else 0x80 \<le> b1 \<and> b1 \<le> 0xBF)"

text \<open>How many bytes the decoder consumes at the front of the input, and whether they are well-formed.\<close>

definition utf8_chunk :: "u8 list \<Rightarrow> bool \<times> nat" where
  "utf8_chunk bs =
     (let b0 = safe_get bs 0; b1 = safe_get bs 1; b2 = safe_get bs 2; b3 = safe_get bs 3 in
      if b0 < 0x80 then (True, 1)
      else if 0xC2 \<le> b0 \<and> b0 \<le> 0xDF then
        (if is_continuation b1 then (True, 2) else (False, 1))
      else if 0xE0 \<le> b0 \<and> b0 \<le> 0xEF then
        (if \<not> second_of_three b0 b1 then (False, 1)
         else if is_continuation b2 then (True, 3) else (False, 2))
      else if 0xF0 \<le> b0 \<and> b0 \<le> 0xF4 then
        (if \<not> second_of_four b0 b1 then (False, 1)
         else if \<not> is_continuation b2 then (False, 2)
         else if is_continuation b3 then (True, 4) else (False, 3))
      else (False, 1))"

definition replacement_character :: "u8 list" where
  "replacement_character = [0xEF, 0xBF, 0xBD]"

lemma utf8_chunk_progress: "0 < snd (utf8_chunk bs)"
  by (simp add: utf8_chunk_def Let_def)

function lossy_bytes :: "u8 list \<Rightarrow> u8 list" where
  "lossy_bytes bs =
     (if bs = [] then []
      else (if fst (utf8_chunk bs) then take (snd (utf8_chunk bs)) bs else replacement_character)
        @ lossy_bytes (drop (snd (utf8_chunk bs)) bs))"
  by pat_completeness auto
termination
  by (relation "measure length") (simp_all add: utf8_chunk_progress)

declare lossy_bytes.simps [simp del]

definition from_utf8_lossy :: "u8 list \<Rightarrow> string" where
  "from_utf8_lossy bs = map byte_char (lossy_bytes bs)"

lemma lossy_bytes_Nil [simp]: "lossy_bytes [] = []"
  by (simp add: lossy_bytes.simps)

lemma lossy_bytes_ascii [simp]: "b < 0x80 \<Longrightarrow> lossy_bytes (b # bs) = b # lossy_bytes bs"
  by (subst lossy_bytes.simps) (simp add: utf8_chunk_def safe_get_def)

definition is_ascii :: "u8 list \<Rightarrow> bool" where
  "is_ascii bs \<longleftrightarrow> list_all (\<lambda>b. b < 0x80) bs"

lemma from_utf8_lossy_ascii: "is_ascii bs \<Longrightarrow> from_utf8_lossy bs = map byte_char bs"
  unfolding from_utf8_lossy_def is_ascii_def by (induction bs) auto

section \<open>String operations\<close>

fun split_char :: "char \<Rightarrow> string \<Rightarrow> string list" where
  "split_char c [] = [[]]"
| "split_char c (x # xs) =
     (if x = c then [] # split_char c xs
      else (case split_char c xs of [] \<Rightarrow> [[x]] | y # ys \<Rightarrow> (x # y) # ys))"

definition strip_prefix :: "string \<Rightarrow> string \<Rightarrow> string option" where
  "strip_prefix p s = (if prefix p s then Some (drop (length p) s) else None)"

definition strip_suffix :: "string \<Rightarrow> string \<Rightarrow> string option" where
  "strip_suffix p s = (if suffix p s then Some (take (length s - length p) s) else None)"

text \<open>The code points with the \<open>White_Space\<close> property, which \<open>str::trim\<close> removes, in UTF-8.\<close>

definition white_space :: "string list" where
  "white_space = map (map byte_char)
     ([[0x09], [0x0A], [0x0B], [0x0C], [0x0D], [0x20], [0xC2, 0x85], [0xC2, 0xA0], [0xE1, 0x9A, 0x80],
       [0xE2, 0x80, 0x80], [0xE2, 0x80, 0x81], [0xE2, 0x80, 0x82], [0xE2, 0x80, 0x83], [0xE2, 0x80, 0x84],
       [0xE2, 0x80, 0x85], [0xE2, 0x80, 0x86], [0xE2, 0x80, 0x87], [0xE2, 0x80, 0x88], [0xE2, 0x80, 0x89],
       [0xE2, 0x80, 0x8A], [0xE2, 0x80, 0xA8], [0xE2, 0x80, 0xA9], [0xE2, 0x80, 0xAF], [0xE2, 0x81, 0x9F],
       [0xE3, 0x80, 0x80]] :: u8 list list)"

lemma find_white_space: "find P white_space = Some w \<Longrightarrow> P w \<and> w \<noteq> []"
proof -
  assume "find P white_space = Some w"
  then have "w \<in> set white_space" and "P w" by (auto simp: find_Some_iff)
  moreover have "[] \<notin> set white_space" by (simp add: white_space_def)
  ultimately show ?thesis by auto
qed

function trim_start :: "string \<Rightarrow> string" where
  "trim_start s =
     (case find (\<lambda>w. prefix w s) white_space of
        None \<Rightarrow> s
      | Some w \<Rightarrow> trim_start (drop (length w) s))"
  by pat_completeness auto
termination
proof (relation "measure length")
  fix s w
  assume "find (\<lambda>w. prefix w s) white_space = Some w"
  then have "prefix w s" and "w \<noteq> []" using find_white_space by auto
  then show "(drop (length w) s, s) \<in> measure length"
    by (cases s) auto
qed simp

function trim_end :: "string \<Rightarrow> string" where
  "trim_end s =
     (case find (\<lambda>w. suffix w s) white_space of
        None \<Rightarrow> s
      | Some w \<Rightarrow> trim_end (take (length s - length w) s))"
  by pat_completeness auto
termination
proof (relation "measure length")
  fix s w
  assume "find (\<lambda>w. suffix w s) white_space = Some w"
  then have "suffix w s" and "w \<noteq> []" using find_white_space by auto
  then show "(take (length s - length w) s, s) \<in> measure length"
    by (cases s) auto
qed simp

declare trim_start.simps [simp del] trim_end.simps [simp del]

definition trim :: "string \<Rightarrow> string" where
  "trim s = trim_end (trim_start s)"

text \<open>A string that starts and ends with a graphic ASCII character is trimmed already.\<close>

definition graphic :: "char \<Rightarrow> bool" where
  "graphic c \<longleftrightarrow> 0x20 < char_byte c \<and> char_byte c < 0x80"

lemma white_space_not_graphic: "w \<in> set white_space \<Longrightarrow> w \<noteq> [] \<and> \<not> graphic (hd w) \<and> \<not> graphic (last w)"
  unfolding white_space_def graphic_def by auto

lemma trim_graphic:
  assumes "s \<noteq> []" and "graphic (hd s)" and "graphic (last s)"
  shows "trim s = s"
proof -
  have "\<not> prefix w s \<and> \<not> suffix w s" if "w \<in> set white_space" for w
    using white_space_not_graphic [OF that] assms by (auto simp: prefix_def suffix_def)
  then have "find (\<lambda>w. prefix w s) white_space = None" "find (\<lambda>w. suffix w s) white_space = None"
    by (auto simp: find_None_iff)
  then show ?thesis
    by (simp add: trim_def trim_start.simps [of s] trim_end.simps [of s])
qed

section \<open>Paths\<close>


definition path_join :: "string \<Rightarrow> string \<Rightarrow> string" where
  "path_join base p =
     (if prefix ''/'' p then p
      else if base = [] \<or> last base = CHR ''/'' then base @ p
      else base @ ''/'' @ p)"

definition path_file_name :: "string \<Rightarrow> string option" where
  "path_file_name p =
     (case filter (\<lambda>c. c \<noteq> [] \<and> c \<noteq> ''.'') (split_char (CHR ''/'') p) of
        [] \<Rightarrow> None
      | cs \<Rightarrow> if last cs = ''..'' then None else Some (last cs))"

section \<open>Lemmas on splitting and joining\<close>

lemma split_char_nonempty [simp]: "split_char c s \<noteq> []"
  by (induction s) (auto split: list.splits)

lemma split_char_no_sep: "c \<notin> set s \<Longrightarrow> split_char c s = [s]"
  by (induction s) auto

lemma split_char_append_sep:
  "split_char c (s @ c # t) = split_char c s @ split_char c t"
  by (induction s) (auto split: list.splits)

lemma split_char_components: "x \<in> set (split_char c s) \<Longrightarrow> c \<notin> set x"
  by (induction s arbitrary: x) (auto split: list.splits if_splits)

lemma split_char_subset: "x \<in> set (split_char c s) \<Longrightarrow> set x \<subseteq> set s"
  by (induction s arbitrary: x) (fastforce split: list.splits if_splits)+

lemma strip_prefix_Some: "strip_prefix p s = Some t \<longleftrightarrow> s = p @ t"
  by (auto simp: strip_prefix_def prefix_def)

lemma strip_prefix_None: "strip_prefix p s = None \<longleftrightarrow> (\<forall>t. s \<noteq> p @ t)"
  by (auto simp: strip_prefix_def prefix_def)

lemma strip_suffix_Some: "strip_suffix p s = Some t \<longleftrightarrow> s = t @ p"
  by (auto simp: strip_suffix_def suffix_def)

end
