(* ===== verification/Common.thy ===== *)
theory Common
  imports Rust_Strings
begin

text \<open>
  The crate \<open>common\<close>: the error type every fallible call returns (\<open>error.rs\<close>), guest addresses and
  page protections (\<open>guest.rs\<close>), and the page size with its rounding helpers (\<open>lib.rs\<close>).  The
  lemmas characterise the rounding helpers arithmetically, with the range in which they do not wrap.
\<close>

section \<open>Errors\<close>

datatype syscall_class = Unix | Mach | MachDep | Diag

text \<open>\<open>std::io::ErrorKind\<close>: the kinds the source distinguishes, and every other one by its name.\<close>

datatype io_kind =
    NotFound | PermissionDenied | AlreadyExists | WouldBlock | InvalidInput | BrokenPipe
  | OtherKind string

datatype emu_error =
    MachO string
  | Dyld string
  | Memory u64 string
  | UnsupportedSyscall syscall_class u32
  | Vfs string
  | Plist string
  | Archive string
  | ObjC string
  | Io io_kind
  | Internal string

type_synonym 'a emu_result = "('a, emu_error) rust_result"

fun syscall_class_display :: "syscall_class \<Rightarrow> string" where
  "syscall_class_display Unix = ''unix''"
| "syscall_class_display Mach = ''mach''"
| "syscall_class_display MachDep = ''machdep''"
| "syscall_class_display Diag = ''diag''"

text \<open>\<open>Display\<close> for errors; the text of a host I/O error is the operating system's (\<open>io_text\<close>).\<close>

fun emu_error_display :: "(io_kind \<Rightarrow> string) \<Rightarrow> emu_error \<Rightarrow> string" where
  "emu_error_display io_text (MachO m) = ''mach-o: '' @ m"
| "emu_error_display io_text (Dyld m) = ''dyld: '' @ m"
| "emu_error_display io_text (Memory addr reason) =
     ''memory fault @ '' @ fmt_hex_pad 18 (unat addr) @ '': '' @ reason"
| "emu_error_display io_text (UnsupportedSyscall cls number) =
     ''unsupported '' @ syscall_class_display cls @ '' syscall #'' @ fmt_dec (unat number)"
| "emu_error_display io_text (Vfs m) = ''vfs: '' @ m"
| "emu_error_display io_text (Plist m) = ''plist: '' @ m"
| "emu_error_display io_text (Archive m) = ''archive: '' @ m"
| "emu_error_display io_text (ObjC m) = ''objc: '' @ m"
| "emu_error_display io_text (Io e) = ''io: '' @ io_text e"
| "emu_error_display io_text (Internal m) = ''internal: '' @ m"

section \<open>Guest addresses\<close>

type_synonym guest_addr = u64

definition is_null :: "guest_addr \<Rightarrow> bool" where
  "is_null a \<longleftrightarrow> a = 0"

definition addr_align_down :: "guest_addr \<Rightarrow> u64 \<Rightarrow> guest_addr" where
  "addr_align_down a align = a AND NOT (align - 1)"

definition addr_align_up :: "guest_addr \<Rightarrow> u64 \<Rightarrow> guest_addr" where
  "addr_align_up a align = (a + (align - 1)) AND NOT (align - 1)"

definition addr_checked_add :: "guest_addr \<Rightarrow> u64 \<Rightarrow> guest_addr option" where
  "addr_checked_add a off = checked_add a off"

definition addr_add :: "guest_addr \<Rightarrow> u64 \<Rightarrow> guest_addr" where
  "addr_add a rhs = a + rhs"

definition addr_sub :: "guest_addr \<Rightarrow> guest_addr \<Rightarrow> u64" where
  "addr_sub a rhs = a - rhs"

definition addr_display :: "guest_addr \<Rightarrow> string" where
  "addr_display a = fmt_hex_pad 18 (unat a)"

section \<open>Page protections\<close>

type_synonym protection = u8

definition PROT_NONE_BITS :: protection where
  "PROT_NONE_BITS = 0"

definition PROT_READ_BIT :: protection where
  "PROT_READ_BIT = 1"

definition PROT_WRITE_BIT :: protection where
  "PROT_WRITE_BIT = 2"

definition PROT_EXEC_BIT :: protection where
  "PROT_EXEC_BIT = 4"

definition prot_rw :: protection where
  "prot_rw = PROT_READ_BIT OR PROT_WRITE_BIT"

definition prot_rx :: protection where
  "prot_rx = PROT_READ_BIT OR PROT_EXEC_BIT"

definition prot_contains :: "protection \<Rightarrow> protection \<Rightarrow> bool" where
  "prot_contains p q \<longleftrightarrow> p AND q = q"

definition from_vm_prot :: "u32 \<Rightarrow> protection" where
  "from_vm_prot vm_prot = ucast (vm_prot AND 7)"

lemmas prot_defs = PROT_NONE_BITS_def PROT_READ_BIT_def PROT_WRITE_BIT_def PROT_EXEC_BIT_def
  prot_rw_def prot_rx_def prot_contains_def

lemma prot_contains_rw [simp]:
  "prot_contains prot_rw PROT_READ_BIT" "prot_contains prot_rw PROT_WRITE_BIT"
  "\<not> prot_contains prot_rw PROT_EXEC_BIT"
  by (simp_all add: prot_defs)

lemma prot_contains_rx [simp]:
  "prot_contains prot_rx PROT_READ_BIT" "prot_contains prot_rx PROT_EXEC_BIT"
  "\<not> prot_contains prot_rx PROT_WRITE_BIT"
  by (simp_all add: prot_defs)

section \<open>Page size and rounding\<close>

definition DEFAULT_LOAD_BASE :: guest_addr where
  "DEFAULT_LOAD_BASE = 0x100000000"

definition PAGE_SIZE :: u64 where
  "PAGE_SIZE = 0x4000"

definition align_up :: "u64 \<Rightarrow> u64 \<Rightarrow> u64" where
  "align_up v align = (v + (align - 1)) AND NOT (align - 1)"

definition align_down :: "u64 \<Rightarrow> u64 \<Rightarrow> u64" where
  "align_down v align = v AND NOT (align - 1)"

lemma PAGE_SIZE_pow2: "PAGE_SIZE = 2 ^ 14"
  by (simp add: PAGE_SIZE_def)

lemma unat_align_down: "k < 64 \<Longrightarrow> unat (align_down v (2 ^ k)) = unat v div 2 ^ k * 2 ^ k"
  unfolding align_down_def by (rule unat_and_not_mask) simp

lemma unat_pow2_minus_1: "k < 64 \<Longrightarrow> unat (2 ^ k - 1 :: u64) = 2 ^ k - 1"
  using unat_pow2 [of k, where 'a = 64] by (simp add: unat_sub word_le_nat_alt)

lemma unat_align_up:
  assumes "k < 64" and "unat v + (2 ^ k - 1) < 2 ^ 64"
  shows "unat (align_up v (2 ^ k)) = (unat v + (2 ^ k - 1)) div 2 ^ k * 2 ^ k"
proof -
  have "unat (v + (2 ^ k - 1)) = unat v + (2 ^ k - 1)"
    using assms by (subst unat_add_exact) (simp_all add: unat_pow2_minus_1)
  then show ?thesis
    using unat_and_not_mask [of k "v + (2 ^ k - 1)"] assms(1) by (simp add: align_up_def)
qed

lemma unat_align_up_wrapped:
  assumes "k < 64" and "2 ^ 64 \<le> unat v + (2 ^ k - 1)"
  shows "align_up v (2 ^ k) = 0"
proof -
  have "unat v < 2 ^ 64" by simp
  then have "unat (v + (2 ^ k - 1)) = unat v + (2 ^ k - 1) - 2 ^ 64"
    using assms by (simp add: unat_plus_if' unat_pow2_minus_1)
  moreover have "(unat v + (2 ^ k - 1) - 2 ^ 64) < (2 :: nat) ^ k"
    using \<open>unat v < 2 ^ 64\<close> assms(2) by linarith
  ultimately have "unat (align_up v (2 ^ k)) = 0"
    using unat_and_not_mask [of k "v + (2 ^ k - 1)"] assms(1) by (simp add: align_up_def)
  then show ?thesis by (simp add: unsigned_eq_0_iff)
qed

text \<open>Rounding up yields the least multiple at or above, and wraps to zero exactly when there is none.\<close>

lemma round_up_least:
  fixes n a :: nat
  assumes "0 < a"
  shows "n \<le> (n + (a - 1)) div a * a" and "(n + (a - 1)) div a * a < n + a"
    and "a dvd m \<Longrightarrow> n \<le> m \<Longrightarrow> (n + (a - 1)) div a * a \<le> m"
proof -
  have split: "(n + (a - 1)) div a * a + (n + (a - 1)) mod a = n + (a - 1)" by simp
  have small: "(n + (a - 1)) mod a < a" using assms by simp
  show lower: "n \<le> (n + (a - 1)) div a * a" using split small by linarith
  show upper: "(n + (a - 1)) div a * a < n + a" using split assms by linarith
  assume "a dvd m" and "n \<le> m"
  then obtain q where q: "m = q * a" by (metis dvd_def mult.commute)
  have "(n + (a - 1)) div a < q + 1"
  proof (rule ccontr)
    assume "\<not> (n + (a - 1)) div a < q + 1"
    then have "(q + 1) * a \<le> (n + (a - 1)) div a * a" by (intro mult_right_mono) auto
    with upper q \<open>n \<le> m\<close> show False by simp
  qed
  then have "(n + (a - 1)) div a \<le> q" by linarith
  then show "(n + (a - 1)) div a * a \<le> m" unfolding q by (rule mult_le_mono1)
qed

lemma align_up_page:
  assumes "unat v + 0x3FFF < 2 ^ 64"
  shows "unat v \<le> unat (align_up v PAGE_SIZE)" and "unat (align_up v PAGE_SIZE) < unat v + 0x4000"
    and "0x4000 dvd unat (align_up v PAGE_SIZE)"
  using unat_align_up [of 14 v] round_up_least [of "0x4000" "unat v"] assms
  by (simp_all add: PAGE_SIZE_def)

lemma align_up_page_wrapped: "2 ^ 64 \<le> unat v + 0x3FFF \<Longrightarrow> align_up v PAGE_SIZE = 0"
  using unat_align_up_wrapped [of 14 v] by (simp add: PAGE_SIZE_def)

lemma page_multiple_bound:
  assumes "0x4000 dvd unat (v :: u64)"
  shows "unat v \<le> 2 ^ 64 - 0x4000"
proof -
  obtain q where q: "unat v = 0x4000 * q" using assms by blast
  moreover have "unat v < 2 ^ 64" by simp
  ultimately have "q < 2 ^ 50" by simp
  with q show ?thesis by simp
qed

lemma align_up_multiple:
  assumes "0x4000 dvd unat v"
  shows "align_up v PAGE_SIZE = v"
proof -
  have "unat (align_up v PAGE_SIZE) = (unat v + 0x3FFF) div 0x4000 * 0x4000"
    using unat_align_up [of 14 v] page_multiple_bound [OF assms] by (simp add: PAGE_SIZE_def)
  also have "\<dots> = unat v" using assms by (auto simp: dvd_def)
  finally show ?thesis by (simp add: word_unat_eq_iff)
qed

lemma align_down_page: "unat (addr_align_down v PAGE_SIZE) = unat v div 0x4000 * 0x4000"
  using unat_align_down [of 14 v] by (simp add: PAGE_SIZE_def align_down_def addr_align_down_def)

end
