(* ===== verification/Ordered_Map.thy ===== *)
theory Ordered_Map
  imports Rust_Prelude
begin

text \<open>
  The standard library's \<open>BTreeMap\<close>, as far as the memory manager uses it: insertion (which
  replaces the value of an existing key), lookup, and the two range queries
  \<open>range(..=a).next_back()\<close> and \<open>range(..e).next_back()\<close>.  The model is a list of pairs with
  strictly ascending keys.

  The interface is the locale \<open>ordered_map\<close>; \<open>interval_map\<close> extends it with values that occupy an
  interval starting at their key, and proves once what makes the nearest-neighbour queries of the
  memory manager complete.
\<close>

section \<open>The association list\<close>

fun bt_insert :: "'k::linorder \<Rightarrow> 'v \<Rightarrow> ('k \<times> 'v) list \<Rightarrow> ('k \<times> 'v) list" where
  "bt_insert k v [] = [(k, v)]"
| "bt_insert k v (p # ps) =
     (if fst p < k then p # bt_insert k v ps
      else if fst p = k then (k, v) # ps
      else (k, v) # p # ps)"

definition bt_get :: "('k \<times> 'v) list \<Rightarrow> 'k \<Rightarrow> 'v option" where
  "bt_get m k = map_of m k"

definition bt_last :: "('k \<Rightarrow> bool) \<Rightarrow> ('k \<times> 'v) list \<Rightarrow> ('k \<times> 'v) option" where
  "bt_last P m = (case filter (\<lambda>p. P (fst p)) m of [] \<Rightarrow> None | qs \<Rightarrow> Some (last qs))"

definition bt_last_le :: "('k::linorder \<times> 'v) list \<Rightarrow> 'k \<Rightarrow> ('k \<times> 'v) option" where
  "bt_last_le m a = bt_last (\<lambda>k. k \<le> a) m"

definition bt_last_lt :: "('k::linorder \<times> 'v) list \<Rightarrow> 'k \<Rightarrow> ('k \<times> 'v) option" where
  "bt_last_lt m e = bt_last (\<lambda>k. k < e) m"

definition bt_invar :: "('k::linorder \<times> 'v) list \<Rightarrow> bool" where
  "bt_invar m \<longleftrightarrow> sorted_wrt (<) (map fst m)"

lemma set_bt_insert_subset: "set (bt_insert k v m) \<subseteq> insert (k, v) (set m)"
  by (induction m) auto

lemma bt_invar_insert: "bt_invar m \<Longrightarrow> bt_invar (bt_insert k v m)"
proof (induction m)
  case (Cons p m)
  have keys: "q \<in> set (bt_insert k v m) \<Longrightarrow> fst q = k \<or> fst q \<in> fst ` set m" for q
    using set_bt_insert_subset [of k v m] by auto
  from Cons show ?case using keys by (fastforce simp: bt_invar_def)
qed (simp add: bt_invar_def)

lemma bt_get_insert: "bt_get (bt_insert k v m) k' = (if k' = k then Some v else bt_get m k')"
  by (induction m) (auto simp: bt_get_def)

lemma bt_get_mem: "bt_invar m \<Longrightarrow> bt_get m k = Some v \<longleftrightarrow> (k, v) \<in> set m"
  by (simp add: bt_get_def bt_invar_def strict_sorted_iff)

lemma bt_last_None: "bt_last P m = None \<longleftrightarrow> (\<forall>p \<in> set m. \<not> P (fst p))"
proof -
  have "bt_last P m = None \<longleftrightarrow> filter (\<lambda>p. P (fst p)) m = []"
    by (simp add: bt_last_def split: list.splits)
  then show ?thesis by (simp add: filter_empty_conv)
qed

lemma sorted_last_greatest:
  "bt_invar m \<Longrightarrow> m \<noteq> [] \<Longrightarrow> p \<in> set m \<Longrightarrow> fst p \<le> fst (last m)"
  by (induction m) (auto simp: bt_invar_def dest: less_imp_le split: if_splits)

lemma bt_last_Some:
  assumes "bt_invar m"
  shows "bt_last P m = Some p \<longleftrightarrow>
    p \<in> set m \<and> P (fst p) \<and> (\<forall>q \<in> set m. P (fst q) \<longrightarrow> fst q \<le> fst p)"
proof -
  let ?f = "filter (\<lambda>p. P (fst p)) m"
  have "sorted_wrt (<) (filter P (map fst m))"
    using assms by (simp add: bt_invar_def sorted_wrt_filter)
  then have inv: "bt_invar ?f" by (simp add: bt_invar_def filter_map comp_def)
  have uniq: "p = q" if "p \<in> set m" "q \<in> set m" "fst p = fst q" for p q
    using that by (metis assms bt_get_mem option.inject prod.collapse)
  show ?thesis
  proof (cases "?f = []")
    case True
    then show ?thesis by (auto simp: bt_last_def filter_empty_conv)
  next
    case False
    then have some: "bt_last P m = Some (last ?f)" by (simp add: bt_last_def split: list.splits)
    have last: "last ?f \<in> set m" "P (fst (last ?f))" using last_in_set [OF False] by auto
    have great: "\<forall>q \<in> set m. P (fst q) \<longrightarrow> fst q \<le> fst (last ?f)"
      using sorted_last_greatest [OF inv False] by auto
    show ?thesis
    proof
      assume "bt_last P m = Some p"
      with some last great show "p \<in> set m \<and> P (fst p) \<and> (\<forall>q \<in> set m. P (fst q) \<longrightarrow> fst q \<le> fst p)"
        by simp
    next
      assume p: "p \<in> set m \<and> P (fst p) \<and> (\<forall>q \<in> set m. P (fst q) \<longrightarrow> fst q \<le> fst p)"
      then have "fst p = fst (last ?f)" using last great by (meson order_antisym)
      with p last have "p = last ?f" by (blast intro: uniq)
      with some show "bt_last P m = Some p" by simp
    qed
  qed
qed

section \<open>The interface\<close>

locale ordered_map =
  fixes empty :: 'm
    and get :: "'m \<Rightarrow> 'k::linorder \<Rightarrow> 'v option"
    and put :: "'k \<Rightarrow> 'v \<Rightarrow> 'm \<Rightarrow> 'm"
    and last_le :: "'m \<Rightarrow> 'k \<Rightarrow> ('k \<times> 'v) option"
    and last_lt :: "'m \<Rightarrow> 'k \<Rightarrow> ('k \<times> 'v) option"
    and invar :: "'m \<Rightarrow> bool"
  assumes get_empty: "get empty k = None"
    and invar_empty: "invar empty"
    and invar_put: "invar m \<Longrightarrow> invar (put k v m)"
    and get_put: "invar m \<Longrightarrow> get (put k v m) k' = (if k' = k then Some v else get m k')"
    and last_le_None: "invar m \<Longrightarrow> last_le m a = None \<longleftrightarrow> (\<forall>k v. get m k = Some v \<longrightarrow> a < k)"
    and last_le_Some: "invar m \<Longrightarrow> last_le m a = Some (k, v) \<longleftrightarrow>
      get m k = Some v \<and> k \<le> a \<and> (\<forall>k' v'. get m k' = Some v' \<and> k' \<le> a \<longrightarrow> k' \<le> k)"
    and last_lt_None: "invar m \<Longrightarrow> last_lt m e = None \<longleftrightarrow> (\<forall>k v. get m k = Some v \<longrightarrow> e \<le> k)"
    and last_lt_Some: "invar m \<Longrightarrow> last_lt m e = Some (k, v) \<longleftrightarrow>
      get m k = Some v \<and> k < e \<and> (\<forall>k' v'. get m k' = Some v' \<and> k' < e \<longrightarrow> k' \<le> k)"

context ordered_map
begin

lemma last_le_put_existing:
  assumes "invar m" and "get m k = Some v"
  shows "last_le (put k w m) a =
    map_option (\<lambda>(k', v'). (k', if k' = k then w else v')) (last_le m a)"
proof (cases "last_le m a")
  case None
  with assms have "last_le (put k w m) a = None"
    by (auto simp: last_le_None invar_put get_put)
  with None show ?thesis by simp
next
  case (Some p)
  obtain k' v' where p: "p = (k', v')" by force
  with Some assms have "last_le (put k w m) a = Some (k', if k' = k then w else v')"
    by (auto simp: last_le_Some invar_put get_put)
  with Some p show ?thesis by simp
qed

end

text \<open>
  Values that occupy \<open>len v\<close> positions from their key on.  \<open>apart\<close> says that no value reaches into
  the next one; \<open>hits\<close> is the overlap test of the memory manager.
\<close>

locale interval_map = ordered_map empty get put last_le last_lt invar
  for empty :: 'm
    and get :: "'m \<Rightarrow> 'k::linorder \<Rightarrow> 'v option"
    and put :: "'k \<Rightarrow> 'v \<Rightarrow> 'm \<Rightarrow> 'm"
    and last_le :: "'m \<Rightarrow> 'k \<Rightarrow> ('k \<times> 'v) option"
    and last_lt :: "'m \<Rightarrow> 'k \<Rightarrow> ('k \<times> 'v) option"
    and invar :: "'m \<Rightarrow> bool" +
  fixes pos :: "'k \<Rightarrow> nat"
    and len :: "'v \<Rightarrow> nat"
  assumes pos_less: "k < k' \<longleftrightarrow> pos k < pos k'"
begin

definition apart :: "'m \<Rightarrow> bool" where
  "apart m \<longleftrightarrow> (\<forall>k v k' v'. get m k = Some v \<and> get m k' = Some v' \<and> k < k' \<longrightarrow> pos k + len v \<le> pos k')"

definition hits :: "'k \<Rightarrow> 'v \<Rightarrow> 'k \<Rightarrow> 'k \<Rightarrow> bool" where
  "hits k v s e \<longleftrightarrow> k < e \<and> pos s < pos k + len v"

lemma pos_le: "k \<le> k' \<longleftrightarrow> pos k \<le> pos k'"
  using pos_less by (simp add: linorder_not_less [symmetric])

lemma nearest_below_contains:
  assumes "invar m" and "apart m" and "get m k = Some v"
    and "pos k \<le> pos a" and "pos a < pos k + len v"
  shows "last_le m a = Some (k, v)"
proof -
  have "k' \<le> k" if "get m k' = Some v'" and "k' \<le> a" for k' v'
  proof (rule ccontr)
    assume "\<not> k' \<le> k"
    then have "pos k + len v \<le> pos k'" using assms(2,3) that(1) by (auto simp: apart_def)
    with assms(5) that(2) show False by (simp add: pos_le)
  qed
  with assms show ?thesis by (auto simp: last_le_Some pos_le)
qed

lemma nearest_before_end_complete:
  assumes "invar m" and "apart m"
  shows "(case last_lt m e of None \<Rightarrow> False | Some (k, v) \<Rightarrow> hits k v s e) \<longleftrightarrow>
    (\<exists>k v. get m k = Some v \<and> hits k v s e)"
proof (cases "last_lt m e")
  case None
  then have "\<And>k v. get m k = Some v \<Longrightarrow> e \<le> k" using assms(1) by (simp add: last_lt_None)
  with None show ?thesis by (auto simp: hits_def dest: leD)
next
  case (Some p)
  obtain k v where p: "p = (k, v)" by force
  with Some assms(1) have kv: "get m k = Some v" "k < e"
    and great: "\<And>k' v'. get m k' = Some v' \<Longrightarrow> k' < e \<Longrightarrow> k' \<le> k"
    by (auto simp: last_lt_Some)
  have "hits k v s e" if "get m k' = Some v'" and "hits k' v' s e" for k' v'
  proof (cases "k' = k")
    case True
    with that kv show ?thesis by simp
  next
    case False
    from that(2) have "k' < e" by (simp add: hits_def)
    with great [OF that(1)] False have "k' < k" by simp
    then have "pos k' + len v' \<le> pos k" using assms(2) kv(1) that(1) by (auto simp: apart_def)
    with that(2) kv(2) show ?thesis by (simp add: hits_def)
  qed
  with Some p kv show ?thesis by auto
qed

lemma put_apart:
  assumes "invar m" and "apart m" and "pos e = pos s + len v"
    and free: "\<And>k w. get m k = Some w \<Longrightarrow> \<not> hits k w s e"
  shows "apart (put s v m)"
proof -
  have below: "pos k + len w \<le> pos s" if "get m k = Some w" and "k < s" for k w
  proof -
    from that(2) have "k < e" using assms(3) by (simp add: pos_less)
    with free [OF that(1)] show ?thesis by (simp add: hits_def)
  qed
  have above: "pos s + len v \<le> pos k" if "get m k = Some w" and "s < k" for k w
  proof (rule ccontr)
    assume "\<not> pos s + len v \<le> pos k"
    with assms(3) that(2) have "hits k w s e" by (simp add: hits_def pos_less)
    with free [OF that(1)] show False by simp
  qed
  show ?thesis using assms(1,2) below above unfolding apart_def
    by (auto simp: get_put split: if_splits)
qed

end

section \<open>The association list provides the interface\<close>

interpretation bt: ordered_map "[]" bt_get bt_insert bt_last_le bt_last_lt bt_invar
proof unfold_locales
  fix m :: "('k::linorder \<times> 'v) list" and a k :: 'k and v :: 'v
  assume inv: "bt_invar m"
  show "bt_last_le m a = None \<longleftrightarrow> (\<forall>k v. bt_get m k = Some v \<longrightarrow> a < k)"
    using inv by (fastforce simp: bt_last_le_def bt_last_None bt_get_mem)
  show "bt_last_lt m a = None \<longleftrightarrow> (\<forall>k v. bt_get m k = Some v \<longrightarrow> a \<le> k)"
    using inv by (fastforce simp: bt_last_lt_def bt_last_None bt_get_mem)
  show "bt_last_le m a = Some (k, v) \<longleftrightarrow>
      bt_get m k = Some v \<and> k \<le> a \<and> (\<forall>k' v'. bt_get m k' = Some v' \<and> k' \<le> a \<longrightarrow> k' \<le> k)"
    using inv by (auto simp: bt_last_le_def bt_last_Some bt_get_mem)
  show "bt_last_lt m a = Some (k, v) \<longleftrightarrow>
      bt_get m k = Some v \<and> k < a \<and> (\<forall>k' v'. bt_get m k' = Some v' \<and> k' < a \<longrightarrow> k' \<le> k)"
    using inv by (auto simp: bt_last_lt_def bt_last_Some bt_get_mem)
qed (simp_all add: bt_get_insert bt_invar_insert, simp_all add: bt_get_def bt_invar_def)

end
