(* ===== verification/Byte_Store.thy ===== *)
theory Byte_Store
  imports Rust_Prelude
begin

text \<open>
  The interface between the memory manager and its clients (the process loader, the system calls,
  the library shims): what a client may rely on when it reads and writes guest memory.  The locale
  states the laws of one read and one write; its lemmas are about sequences of writes, which is how
  the clients use them (argument vectors, bound pointers, rebased slots).
\<close>

definition ranges_apart :: "u64 \<Rightarrow> nat \<Rightarrow> u64 \<Rightarrow> nat \<Rightarrow> bool" where
  "ranges_apart a n b k \<longleftrightarrow> unat a + n \<le> unat b \<or> unat b + k \<le> unat a"

lemma ranges_apart_sym: "ranges_apart a n b k \<longleftrightarrow> ranges_apart b k a n"
  by (auto simp: ranges_apart_def)

definition chunks_apart :: "(u64 \<times> u8 list) list \<Rightarrow> bool" where
  "chunks_apart ws \<longleftrightarrow>
     sorted_wrt (\<lambda>(a, d) (b, e). ranges_apart a (length d) b (length e)) ws"

locale byte_store =
  fixes rd :: "'s \<Rightarrow> u64 \<Rightarrow> nat \<Rightarrow> (u8 list, 'e) rust_result"
    and wr :: "'s \<Rightarrow> u64 \<Rightarrow> u8 list \<Rightarrow> ('s, 'e) rust_result"
    and inv :: "'s \<Rightarrow> bool"
  assumes wr_inv: "inv s \<Longrightarrow> wr s a d = Ok s' \<Longrightarrow> inv s'"
    and rd_wr_same: "inv s \<Longrightarrow> wr s a d = Ok s' \<Longrightarrow> is_ok (rd s a (length d)) \<Longrightarrow>
      rd s' a (length d) = Ok d"
    and rd_wr_apart: "inv s \<Longrightarrow> wr s a d = Ok s' \<Longrightarrow> ranges_apart a (length d) b n \<Longrightarrow>
      rd s' b n = rd s b n"
    and rd_wr_ok: "inv s \<Longrightarrow> wr s a d = Ok s' \<Longrightarrow> is_ok (rd s' b n) = is_ok (rd s b n)"
    and wr_wr_ok: "inv s \<Longrightarrow> wr s a d = Ok s' \<Longrightarrow> is_ok (wr s' b e) = is_ok (wr s b e)"
begin

primrec wr_all :: "'s \<Rightarrow> (u64 \<times> u8 list) list \<Rightarrow> ('s, 'e) rust_result" where
  "wr_all s [] = Ok s"
| "wr_all s (w # ws) = and_then (wr s (fst w) (snd w)) (\<lambda>s'. wr_all s' ws)"

lemma wr_all_inv: "inv s \<Longrightarrow> wr_all s ws = Ok s' \<Longrightarrow> inv s'"
  by (induction ws arbitrary: s) (auto simp: result_simps dest: wr_inv)

lemma wr_all_append: "wr_all s (us @ ws) = and_then (wr_all s us) (\<lambda>s'. wr_all s' ws)"
  by (induction us arbitrary: s) simp_all

lemma wr_all_rd_ok: "inv s \<Longrightarrow> wr_all s ws = Ok s' \<Longrightarrow> is_ok (rd s' b n) = is_ok (rd s b n)"
  by (induction ws arbitrary: s) (auto simp: result_simps, (metis rd_wr_ok wr_inv)+)

lemma wr_all_wr_ok: "inv s \<Longrightarrow> wr_all s ws = Ok s' \<Longrightarrow> is_ok (wr s' b e) = is_ok (wr s b e)"
  by (induction ws arbitrary: s) (auto simp: result_simps, (metis wr_wr_ok wr_inv)+)

lemma wr_all_ok:
  "inv s \<Longrightarrow> is_ok (wr_all s ws) \<longleftrightarrow> (\<forall>w \<in> set ws. is_ok (wr s (fst w) (snd w)))"
proof (induction ws arbitrary: s)
  case (Cons w ws)
  show ?case
  proof (cases "wr s (fst w) (snd w)")
    case (Ok s1)
    with Cons.IH [of s1] Cons.prems wr_inv [OF Cons.prems Ok] show ?thesis
      by (simp add: wr_wr_ok [OF Cons.prems Ok])
  qed simp_all
qed simp

lemma wr_all_frame:
  "inv s \<Longrightarrow> wr_all s ws = Ok s' \<Longrightarrow>
   (\<And>a d. (a, d) \<in> set ws \<Longrightarrow> ranges_apart a (length d) b n) \<Longrightarrow> rd s' b n = rd s b n"
proof (induction ws arbitrary: s)
  case (Cons w ws)
  obtain a d where w: "w = (a, d)" by force
  with Cons.prems obtain s1 where s1: "wr s a d = Ok s1" "wr_all s1 ws = Ok s'"
    by (auto simp: result_simps)
  have "rd s' b n = rd s1 b n"
    using Cons.IH [OF wr_inv [OF Cons.prems(1) s1(1)] s1(2)] Cons.prems(3) by auto
  also have "\<dots> = rd s b n"
    using Cons.prems(3) w by (intro rd_wr_apart [OF Cons.prems(1) s1(1)]) auto
  finally show ?case .
qed simp

lemma wr_all_reads_back:
  assumes "inv s" and "wr_all s ws = Ok s'" and "chunks_apart ws"
    and "(a, d) \<in> set ws" and "is_ok (rd s a (length d))"
  shows "rd s' a (length d) = Ok d"
  using assms
proof (induction ws arbitrary: s)
  case (Cons w ws)
  from Cons.prems(2) obtain s1 where s1: "wr s (fst w) (snd w) = Ok s1" "wr_all s1 ws = Ok s'"
    by (auto simp: result_simps)
  note inv1 = wr_inv [OF Cons.prems(1) s1(1)]
  show ?case
  proof (cases "w = (a, d)")
    case True
    have "rd s' a (length d) = rd s1 a (length d)"
      using Cons.prems(3) True
      by (intro wr_all_frame [OF inv1 s1(2)]) (auto simp: chunks_apart_def ranges_apart_sym)
    also have "\<dots> = Ok d" using rd_wr_same [OF Cons.prems(1)] s1(1) True Cons.prems(5) by simp
    finally show ?thesis .
  next
    case False
    have "is_ok (rd s1 a (length d))" using Cons.prems(5) rd_wr_ok [OF Cons.prems(1) s1(1)] by simp
    with False Cons.IH [OF inv1 s1(2)] Cons.prems(3,4) show ?thesis by (auto simp: chunks_apart_def)
  qed
qed simp

end

end
