(* ===== verification/Guest_Memory.thy ===== *)
theory Guest_Memory
  imports Common Ordered_Map Byte_Store
begin

text \<open>
  The crate \<open>memory\<close>: regions (\<open>region.rs\<close>), the bump allocator of the guest heap
  (\<open>allocator.rs\<close>) and the address-space manager (\<open>lib.rs\<close>).  A mutating method returns the new
  state in \<open>Ok\<close>; every error path of the source leaves the state as it was.  The device-only calls
  into the native backend are not part of the host build and are left out.

  \<open>mem_wf\<close> is the invariant of the manager: keys are the bases of their regions, no region wraps
  around the address space, and no two regions overlap.  \<open>mem_cell\<close> is the abstract view: what
  byte, with what protection, an address holds.
\<close>

section \<open>Regions\<close>

datatype region_kind = SegmentKind | StackKind | HeapKind | AnonymousKind | CommpageKind

record region =
  r_base :: guest_addr
  r_prot :: protection
  r_kind :: region_kind
  r_name :: string
  r_data :: "u8 list"

definition region_new_zeroed ::
    "guest_addr \<Rightarrow> u64 \<Rightarrow> protection \<Rightarrow> region_kind \<Rightarrow> string \<Rightarrow> region emu_result" where
  "region_new_zeroed base sz prot kind name =
     and_then (vec_zeroed (unat sz)) (\<lambda>data.
       Ok \<lparr>r_base = base, r_prot = prot, r_kind = kind, r_name = name, r_data = data\<rparr>)"

definition region_new_from ::
    "guest_addr \<Rightarrow> u64 \<Rightarrow> u8 list \<Rightarrow> protection \<Rightarrow> region_kind \<Rightarrow> string \<Rightarrow> region emu_result" where
  "region_new_from base sz init prot kind name =
     (if unat sz < length init then Err (Memory base ''init data exceeds region'')
      else and_then (vec_zeroed (unat sz)) (\<lambda>data.
        Ok \<lparr>r_base = base, r_prot = prot, r_kind = kind, r_name = name, r_data = splice data 0 init\<rparr>))"

definition region_size :: "region \<Rightarrow> u64" where
  "region_size r = of_nat (length (r_data r))"

definition region_end :: "region \<Rightarrow> guest_addr" where
  "region_end r = addr_add (r_base r) (region_size r)"

definition region_contains :: "region \<Rightarrow> guest_addr \<Rightarrow> bool" where
  "region_contains r addr \<longleftrightarrow> r_base r \<le> addr \<and> addr < region_end r"

definition region_range :: "region \<Rightarrow> guest_addr \<Rightarrow> u64 \<Rightarrow> (nat \<times> nat) emu_result" where
  "region_range r addr len =
     (if addr < r_base r then Err (Memory addr ''before region'')
      else
        (let off = unat (addr_sub addr (r_base r)) in
         and_then (ok_or (Memory addr ''length overflow'') (checked_add_usize off (unat len))) (\<lambda>end.
           if length (r_data r) < end then Err (Memory addr ''past region end'')
           else Ok (off, end))))"

definition region_subslice ::
    "region \<Rightarrow> guest_addr \<Rightarrow> u64 \<Rightarrow> protection \<Rightarrow> u8 list emu_result" where
  "region_subslice r addr len need =
     and_then (region_range r addr len) (\<lambda>(off, end).
       if \<not> prot_contains (r_prot r) need then Err (Memory addr ''protection violation'')
       else slice_index (r_data r) off end)"

text \<open>The mutable borrow is the pair of offsets it covers.\<close>

definition region_subslice_mut ::
    "region \<Rightarrow> guest_addr \<Rightarrow> u64 \<Rightarrow> protection \<Rightarrow> (nat \<times> nat) emu_result" where
  "region_subslice_mut r addr len need =
     and_then (region_range r addr len) (\<lambda>(off, end).
       if \<not> prot_contains (r_prot r) need then Err (Memory addr ''protection violation'')
       else and_then (slice_index (r_data r) off end) (\<lambda>_. Ok (off, end)))"

section \<open>The bump allocator\<close>

record bump_allocator =
  bump_base :: guest_addr
  bump_limit :: guest_addr
  bump_cursor :: u64

definition bump_new :: "guest_addr \<Rightarrow> u64 \<Rightarrow> bump_allocator" where
  "bump_new base sz =
     \<lparr>bump_base = base, bump_limit = addr_add base sz, bump_cursor = base\<rparr>"

definition bump_alloc :: "bump_allocator \<Rightarrow> u64 \<Rightarrow> u64 \<Rightarrow> (guest_addr \<times> bump_allocator) emu_result" where
  "bump_alloc h sz align =
     (let align = max align 1;
          start = align_up (bump_cursor h) align
      in and_then (ok_or (Memory start ''heap alloc overflow'') (checked_add start (max sz 1))) (\<lambda>end.
           if bump_limit h < end then Err (Memory end ''heap exhausted'')
           else Ok (start, h\<lparr>bump_cursor := end\<rparr>)))"

definition bump_used :: "bump_allocator \<Rightarrow> u64" where
  "bump_used h = bump_cursor h - bump_base h"

section \<open>The address space\<close>

record guest_memory =
  regions :: "(u64 \<times> region) list"
  mmap_cursor :: u64
  heap :: bump_allocator

definition MMAP_TOP :: u64 where
  "MMAP_TOP = 0x200000000"

definition check_free :: "guest_memory \<Rightarrow> guest_addr \<Rightarrow> u64 \<Rightarrow> unit emu_result" where
  "check_free m base sz =
     and_then (ok_or (Memory base ''map overflow'') (checked_add base sz)) (\<lambda>end.
       case bt_last_lt (regions m) end of
         Some (_, r) \<Rightarrow>
           if r_base r < end \<and> base < region_end r
           then Err (Memory base ''map overlaps existing region'')
           else Ok ()
       | None \<Rightarrow> Ok ())"

definition mem_map ::
    "guest_memory \<Rightarrow> guest_addr \<Rightarrow> u64 \<Rightarrow> protection \<Rightarrow> region_kind \<Rightarrow> string \<Rightarrow> guest_memory emu_result" where
  "mem_map m base sz prot kind name =
     (let sz = align_up (max sz 1) PAGE_SIZE in
      and_then (check_free m base sz) (\<lambda>_.
      and_then (region_new_zeroed base sz prot kind name) (\<lambda>r.
        Ok (m\<lparr>regions := bt_insert base r (regions m)\<rparr>))))"

definition mem_map_with_data ::
    "guest_memory \<Rightarrow> guest_addr \<Rightarrow> u64 \<Rightarrow> u8 list \<Rightarrow> protection \<Rightarrow> region_kind \<Rightarrow> string
     \<Rightarrow> guest_memory emu_result" where
  "mem_map_with_data m base sz data prot kind name =
     (let sz = align_up (max sz (of_nat (length data))) PAGE_SIZE in
      and_then (check_free m base sz) (\<lambda>_.
      and_then (region_new_from base sz data prot kind name) (\<lambda>r.
        Ok (m\<lparr>regions := bt_insert base r (regions m)\<rparr>))))"

definition mem_new :: "guest_addr \<Rightarrow> u64 \<Rightarrow> guest_memory emu_result" where
  "mem_new heap_base heap_size =
     mem_map \<lparr>regions = [], mmap_cursor = MMAP_TOP, heap = bump_new heap_base heap_size\<rparr>
       heap_base (align_up heap_size PAGE_SIZE) prot_rw HeapKind ''heap''"

definition mmap_anon :: "guest_memory \<Rightarrow> u64 \<Rightarrow> protection \<Rightarrow> (guest_addr \<times> guest_memory) emu_result" where
  "mmap_anon m sz prot =
     (let sz = align_up (max sz 1) PAGE_SIZE in
      and_then (ok_or (Memory sz ''mmap arena exhausted'') (checked_sub (mmap_cursor m) sz)) (\<lambda>b.
      let base = addr_align_down b PAGE_SIZE in
      and_then (mem_map m base sz prot AnonymousKind ''mmap'') (\<lambda>m'.
        Ok (base, m'\<lparr>mmap_cursor := base\<rparr>))))"

definition mem_region_base :: "guest_memory \<Rightarrow> guest_addr \<Rightarrow> u64 emu_result" where
  "mem_region_base m addr =
     (case bt_last_le (regions m) addr of
        Some (base, r) \<Rightarrow>
          if region_contains r addr then Ok base else Err (Memory addr ''unmapped'')
      | None \<Rightarrow> Err (Memory addr ''unmapped''))"

definition mem_protect :: "guest_memory \<Rightarrow> guest_addr \<Rightarrow> protection \<Rightarrow> guest_memory emu_result" where
  "mem_protect m addr prot =
     and_then (mem_region_base m addr) (\<lambda>base.
       case bt_get (regions m) base of
         None \<Rightarrow> Panic
       | Some r \<Rightarrow> Ok (m\<lparr>regions := bt_insert base (r\<lparr>r_prot := prot\<rparr>) (regions m)\<rparr>))"

definition commit_to_native :: "guest_memory \<Rightarrow> guest_addr \<Rightarrow> unit emu_result" where
  "commit_to_native m addr = Ok ()"

definition heap_alloc :: "guest_memory \<Rightarrow> u64 \<Rightarrow> u64 \<Rightarrow> (guest_addr \<times> guest_memory) emu_result" where
  "heap_alloc m sz align =
     and_then (bump_alloc (heap m) sz align) (\<lambda>(addr, h). Ok (addr, m\<lparr>heap := h\<rparr>))"

definition mem_slice :: "guest_memory \<Rightarrow> guest_addr \<Rightarrow> u64 \<Rightarrow> protection \<Rightarrow> u8 list emu_result" where
  "mem_slice m addr len need =
     (case bt_last_le (regions m) addr of
        None \<Rightarrow> Err (Memory addr ''unmapped'')
      | Some (_, r) \<Rightarrow> region_subslice r addr len need)"

definition mem_slice_mut ::
    "guest_memory \<Rightarrow> guest_addr \<Rightarrow> u64 \<Rightarrow> protection \<Rightarrow> (u64 \<times> region \<times> nat \<times> nat) emu_result" where
  "mem_slice_mut m addr len need =
     (case bt_last_le (regions m) addr of
        None \<Rightarrow> Err (Memory addr ''unmapped'')
      | Some (key, r) \<Rightarrow>
          and_then (region_subslice_mut r addr len need) (\<lambda>(off, end). Ok (key, r, off, end)))"

text \<open>\<open>read\<close> fills a buffer of \<open>n\<close> bytes, which is its result here.\<close>

definition mem_read :: "guest_memory \<Rightarrow> guest_addr \<Rightarrow> nat \<Rightarrow> u8 list emu_result" where
  "mem_read m addr n =
     and_then (mem_slice m addr (of_nat n) PROT_READ_BIT) (\<lambda>src.
       if length src = n then Ok src else Panic)"

definition mem_write :: "guest_memory \<Rightarrow> guest_addr \<Rightarrow> u8 list \<Rightarrow> guest_memory emu_result" where
  "mem_write m addr data =
     and_then (mem_slice_mut m addr (of_nat (length data)) PROT_WRITE_BIT) (\<lambda>(key, r, off, end).
       if end - off = length data
       then Ok (m\<lparr>regions := bt_insert key (r\<lparr>r_data := splice (r_data r) off data\<rparr>) (regions m)\<rparr>)
       else Panic)"

definition read_u8 :: "guest_memory \<Rightarrow> guest_addr \<Rightarrow> u8 emu_result" where
  "read_u8 m addr = and_then (mem_read m addr 1) (\<lambda>b. Ok (b ! 0))"

definition read_u32 :: "guest_memory \<Rightarrow> guest_addr \<Rightarrow> u32 emu_result" where
  "read_u32 m addr = and_then (mem_read m addr 4) (\<lambda>b. Ok (from_le_bytes b))"

definition read_u64 :: "guest_memory \<Rightarrow> guest_addr \<Rightarrow> u64 emu_result" where
  "read_u64 m addr = and_then (mem_read m addr 8) (\<lambda>b. Ok (from_le_bytes b))"

definition write_u32 :: "guest_memory \<Rightarrow> guest_addr \<Rightarrow> u32 \<Rightarrow> guest_memory emu_result" where
  "write_u32 m addr v = mem_write m addr (to_le_bytes v)"

definition write_u64 :: "guest_memory \<Rightarrow> guest_addr \<Rightarrow> u64 \<Rightarrow> guest_memory emu_result" where
  "write_u64 m addr v = mem_write m addr (to_le_bytes v)"

fun cstr_bytes :: "guest_memory \<Rightarrow> guest_addr \<Rightarrow> nat \<Rightarrow> u8 list emu_result" where
  "cstr_bytes m cur 0 = Ok []"
| "cstr_bytes m cur (Suc n) =
     and_then (read_u8 m cur) (\<lambda>b.
       if b = 0 then Ok []
       else and_then (cstr_bytes m (addr_add cur 1) n) (\<lambda>rest. Ok (b # rest)))"

definition read_cstr :: "guest_memory \<Rightarrow> guest_addr \<Rightarrow> nat \<Rightarrow> string emu_result" where
  "read_cstr m addr bound = and_then (cstr_bytes m addr bound) (\<lambda>out. Ok (from_utf8_lossy out))"

section \<open>Invariant and abstract view\<close>

definition mem_wf :: "guest_memory \<Rightarrow> bool" where
  "mem_wf m \<longleftrightarrow>
     bt_invar (regions m) \<and>
     list_all (\<lambda>(k, r). r_base r = k \<and> unat k + length (r_data r) < 2 ^ 64) (regions m) \<and>
     sorted_wrt (\<lambda>p q. unat (fst p) + length (r_data (snd p)) \<le> unat (fst q)) (regions m)"

definition mem_cell :: "guest_memory \<Rightarrow> guest_addr \<Rightarrow> (u8 \<times> protection) option" where
  "mem_cell m a =
     (case bt_last_le (regions m) a of
        None \<Rightarrow> None
      | Some (k, r) \<Rightarrow>
          if unat a - unat k < length (r_data r)
          then Some (r_data r ! (unat a - unat k), r_prot r) else None)"

interpretation rm: interval_map "[]" bt_get bt_insert bt_last_le bt_last_lt
    "bt_invar :: (u64 \<times> region) list \<Rightarrow> bool" unat "\<lambda>r. length (r_data r)"
  by unfold_locales (rule word_less_nat_alt)

section \<open>The invariant, by keys\<close>

lemma apart_set:
  assumes "bt_invar ms"
  shows "rm.apart ms \<longleftrightarrow> (\<forall>p \<in> set ms. \<forall>q \<in> set ms. fst p < fst q \<longrightarrow>
    unat (fst p) + length (r_data (snd p)) \<le> unat (fst q))"
  unfolding rm.apart_def bt_get_mem [OF assms] by fastforce

lemma mem_wf_iff:
  "mem_wf m \<longleftrightarrow>
     bt_invar (regions m) \<and>
     (\<forall>k r. bt_get (regions m) k = Some r \<longrightarrow> r_base r = k \<and> unat k + length (r_data r) < 2 ^ 64) \<and>
     rm.apart (regions m)"
proof -
  have "sorted_wrt (\<lambda>p q. unat (fst p) + length (r_data (snd p)) \<le> unat (fst q)) ms \<longleftrightarrow> rm.apart ms"
    if "bt_invar ms" for ms :: "(u64 \<times> region) list"
    using that
  proof (induction ms)
    case (Cons p ms)
    then have inv: "bt_invar ms" and le: "\<forall>q \<in> set ms. fst p < fst q"
      by (auto simp: bt_invar_def)
    have "\<not> fst q < fst p" if "q \<in> set ms" for q using le that by (simp add: order_less_imp_not_less)
    with le have "rm.apart (p # ms) \<longleftrightarrow>
        (\<forall>q \<in> set ms. unat (fst p) + length (r_data (snd p)) \<le> unat (fst q)) \<and> rm.apart ms"
      unfolding apart_set [OF Cons.prems] apart_set [OF inv] by simp
    with Cons.IH [OF inv] show ?case by simp
  qed (simp add: rm.apart_def bt_get_def)
  then show ?thesis
    unfolding mem_wf_def by (auto simp: list_all_iff bt_get_mem)
qed

lemma mem_wf_region:
  assumes "mem_wf m" and "bt_get (regions m) k = Some r"
  shows "r_base r = k" and "unat k + length (r_data r) < 2 ^ 64"
  using assms by (auto simp: mem_wf_iff)

lemma unat_region_end:
  assumes "unat (r_base r) + length (r_data r) < 2 ^ 64"
  shows "unat (region_end r) = unat (r_base r) + length (r_data r)"
  using assms unfolding region_end_def region_size_def addr_add_def
  by (subst unat_add_u64) (simp_all add: unat_of_nat_u64)

text \<open>The region an address falls in is the one its nearest key at or below names.\<close>

lemma bt_last_le_region:
  assumes "mem_wf m" and "bt_last_le (regions m) a = Some (k, r)"
  shows "bt_get (regions m) k = Some r" and "r_base r = k" and "unat k \<le> unat a"
    and "unat k + length (r_data r) < 2 ^ 64"
  using assms by (auto simp: mem_wf_iff bt.last_le_Some word_le_nat_alt)

lemma mem_cell_iff:
  assumes "mem_wf m"
  shows "mem_cell m a = Some (b, p) \<longleftrightarrow>
    (\<exists>k r. bt_get (regions m) k = Some r \<and> unat k \<le> unat a \<and> unat a < unat k + length (r_data r) \<and>
       b = r_data r ! (unat a - unat k) \<and> p = r_prot r)"
proof
  assume "mem_cell m a = Some (b, p)"
  then obtain k r where kr: "bt_last_le (regions m) a = Some (k, r)"
    "unat a - unat k < length (r_data r)" "b = r_data r ! (unat a - unat k)" "p = r_prot r"
    by (auto simp: mem_cell_def split: option.splits if_splits)
  with bt_last_le_region [OF assms kr(1)]
  show "\<exists>k r. bt_get (regions m) k = Some r \<and> unat k \<le> unat a \<and> unat a < unat k + length (r_data r) \<and>
       b = r_data r ! (unat a - unat k) \<and> p = r_prot r"
    by (intro exI [of _ k] exI [of _ r]) simp
next
  assume "\<exists>k r. bt_get (regions m) k = Some r \<and> unat k \<le> unat a \<and> unat a < unat k + length (r_data r) \<and>
       b = r_data r ! (unat a - unat k) \<and> p = r_prot r"
  then obtain k r where kr: "bt_get (regions m) k = Some r" "unat k \<le> unat a"
    "unat a < unat k + length (r_data r)" "b = r_data r ! (unat a - unat k)" "p = r_prot r"
    by blast
  from assms have "bt_last_le (regions m) a = Some (k, r)"
    using rm.nearest_below_contains [of "regions m" k r a] kr by (simp add: mem_wf_iff)
  with kr show "mem_cell m a = Some (b, p)" by (simp add: mem_cell_def)
qed

section \<open>Placing a region\<close>

definition overlaps :: "region \<Rightarrow> guest_addr \<Rightarrow> u64 \<Rightarrow> bool" where
  "overlaps r base sz \<longleftrightarrow>
     unat (r_base r) < unat base + unat sz \<and> unat base < unat (r_base r) + length (r_data r)"

lemma check_free_Ok:
  assumes "mem_wf m"
  shows "check_free m base sz = Ok () \<longleftrightarrow>
    unat base + unat sz < 2 ^ 64 \<and> (\<forall>k r. bt_get (regions m) k = Some r \<longrightarrow> \<not> overlaps r base sz)"
proof (cases "unat base + unat sz < 2 ^ 64")
  case True
  then have e: "unat (base + sz) = unat base + unat sz" by (simp add: unat_add_u64)
  have hit: "r_base r < base + sz \<and> base < region_end r \<longleftrightarrow> rm.hits k r base (base + sz)"
    "rm.hits k r base (base + sz) \<longleftrightarrow> overlaps r base sz"
    if "bt_get (regions m) k = Some r" for k r
    using mem_wf_region [OF assms that] e
    by (auto simp: rm.hits_def word_less_nat_alt unat_region_end overlaps_def)
  from True have "check_free m base sz = Ok () \<longleftrightarrow>
      \<not> (case bt_last_lt (regions m) (base + sz) of None \<Rightarrow> False
           | Some (k, r) \<Rightarrow> rm.hits k r base (base + sz))"
    using assms hit(1)
    by (auto simp: check_free_def checked_add_def mem_wf_iff bt.last_lt_Some split: option.splits)
  also have "\<dots> \<longleftrightarrow> \<not> (\<exists>k r. bt_get (regions m) k = Some r \<and> rm.hits k r base (base + sz))"
    using rm.nearest_before_end_complete [of "regions m"] assms by (simp add: mem_wf_iff)
  finally show ?thesis using True hit(2) by auto
next
  case False
  then show ?thesis by (simp add: check_free_def checked_add_def)
qed

lemma check_free_no_panic [simp]: "check_free m base sz \<noteq> Panic"
  by (auto simp: check_free_def result_simps split: option.splits)

lemma mem_wf_place:
  assumes "mem_wf m" and "check_free m base sz = Ok ()"
    and "r_base r = base" and "length (r_data r) = unat sz"
  shows "mem_wf (m\<lparr>regions := bt_insert base r (regions m)\<rparr>)"
proof -
  from assms have fit: "unat base + unat sz < 2 ^ 64"
    and free: "\<And>k r. bt_get (regions m) k = Some r \<Longrightarrow> \<not> overlaps r base sz"
    by (auto simp: check_free_Ok)
  have "rm.apart (bt_insert base r (regions m))"
  proof (rule rm.put_apart [where e = "base + sz"])
    show "unat (base + sz) = unat base + length (r_data r)"
      using fit assms(4) by (simp add: unat_add_u64)
    show "\<not> rm.hits k w base (base + sz)" if "bt_get (regions m) k = Some w" for k w
      using free [OF that] mem_wf_region [OF assms(1) that] fit
      by (auto simp: overlaps_def rm.hits_def word_less_nat_alt unat_add_u64)
  qed (use assms(1) in \<open>simp_all add: mem_wf_iff\<close>)
  then show ?thesis
    using assms fit by (auto simp: mem_wf_iff bt_get_insert bt_invar_insert)
qed

lemma region_new_zeroed_Ok [result_simps]:
  "region_new_zeroed base sz prot kind name = Ok r \<longleftrightarrow>
     unat sz \<le> isize_max \<and>
     r = \<lparr>r_base = base, r_prot = prot, r_kind = kind, r_name = name, r_data = replicate (unat sz) 0\<rparr>"
  by (auto simp: region_new_zeroed_def vec_zeroed_def)

lemma region_new_from_Ok [result_simps]:
  "region_new_from base sz init prot kind name = Ok r \<longleftrightarrow>
     length init \<le> unat sz \<and> unat sz \<le> isize_max \<and>
     r = \<lparr>r_base = base, r_prot = prot, r_kind = kind, r_name = name,
          r_data = init @ replicate (unat sz - length init) 0\<rparr>"
  by (auto simp: region_new_from_def vec_zeroed_def splice_def)

text \<open>What a successful mapping does: the range was free, and one region is added.\<close>

lemma mem_map_OkE:
  assumes "mem_map m base sz prot kind name = Ok m'"
  obtains n where "n = align_up (max sz 1) PAGE_SIZE" and "check_free m base n = Ok ()"
    and "m' = m\<lparr>regions := bt_insert base \<lparr>r_base = base, r_prot = prot, r_kind = kind, r_name = name,
           r_data = replicate (unat n) 0\<rparr> (regions m)\<rparr>"
  using assms by (auto simp: mem_map_def Let_def result_simps)

lemma mem_map_with_data_OkE:
  assumes "mem_map_with_data m base sz data prot kind name = Ok m'"
  obtains n where "n = align_up (max sz (of_nat (length data))) PAGE_SIZE"
    and "check_free m base n = Ok ()" and "length data \<le> unat n"
    and "m' = m\<lparr>regions := bt_insert base \<lparr>r_base = base, r_prot = prot, r_kind = kind, r_name = name,
           r_data = data @ replicate (unat n - length data) 0\<rparr> (regions m)\<rparr>"
  using assms by (auto simp: mem_map_with_data_def Let_def result_simps)

lemma mem_map_is_ok:
  "is_ok (mem_map m base sz prot kind name) \<longleftrightarrow>
     is_ok (check_free m base (align_up (max sz 1) PAGE_SIZE)) \<and>
     unat (align_up (max sz 1) PAGE_SIZE) \<le> isize_max"
  by (auto simp: mem_map_def Let_def is_ok_iff result_simps)

lemma mem_map_with_data_is_ok:
  "is_ok (mem_map_with_data m base sz data prot kind name) \<longleftrightarrow>
     (let n = align_up (max sz (of_nat (length data))) PAGE_SIZE
      in is_ok (check_free m base n) \<and> length data \<le> unat n \<and> unat n \<le> isize_max)"
  by (auto simp: mem_map_with_data_def Let_def is_ok_iff result_simps)

lemma mmap_anon_is_ok:
  "is_ok (mmap_anon m sz prot) \<longleftrightarrow>
     (let n = align_up (max sz 1) PAGE_SIZE
      in n \<le> mmap_cursor m \<and>
         is_ok (mem_map m (addr_align_down (mmap_cursor m - n) PAGE_SIZE) n prot AnonymousKind ''mmap''))"
  by (auto simp: mmap_anon_def Let_def is_ok_iff result_simps)

lemma mem_wf_map: "mem_wf m \<Longrightarrow> mem_map m base sz prot kind name = Ok m' \<Longrightarrow> mem_wf m'"
  by (erule mem_map_OkE) (simp add: mem_wf_place)

lemma mem_wf_map_with_data:
  "mem_wf m \<Longrightarrow> mem_map_with_data m base sz data prot kind name = Ok m' \<Longrightarrow> mem_wf m'"
  by (erule mem_map_with_data_OkE) (simp add: mem_wf_place)

lemma mem_wf_other_fields [simp]:
  "mem_wf (m\<lparr>mmap_cursor := c\<rparr>) = mem_wf m" "mem_wf (m\<lparr>heap := h\<rparr>) = mem_wf m"
  by (simp_all add: mem_wf_def)

lemma mem_wf_new: "mem_new heap_base heap_size = Ok m \<Longrightarrow> mem_wf m"
  unfolding mem_new_def by (erule mem_wf_map [rotated]) (simp add: mem_wf_def bt_invar_def)

lemma mem_wf_mmap_anon: "mem_wf m \<Longrightarrow> mmap_anon m sz prot = Ok (base, m') \<Longrightarrow> mem_wf m'"
  by (auto simp: mmap_anon_def Let_def result_simps dest: mem_wf_map)

lemma mem_wf_heap_alloc: "mem_wf m \<Longrightarrow> heap_alloc m sz align = Ok (a, m') \<Longrightarrow> mem_wf m'"
  by (auto simp: heap_alloc_def result_simps)

text \<open>Replacing a region by one of the same extent keeps the invariant.\<close>

lemma mem_wf_update:
  assumes "mem_wf m" and "bt_get (regions m) k = Some r"
    and "r_base r' = r_base r" and "length (r_data r') = length (r_data r)"
  shows "mem_wf (m\<lparr>regions := bt_insert k r' (regions m)\<rparr>)"
  using assms unfolding mem_wf_iff rm.apart_def
  by (auto simp: bt_get_insert bt_invar_insert)

lemma mem_region_base_Ok:
  assumes "mem_wf m"
  shows "mem_region_base m a = Ok k \<longleftrightarrow>
    (\<exists>r. bt_last_le (regions m) a = Some (k, r) \<and> unat a < unat k + length (r_data r))"
  using bt_last_le_region [OF assms]
  by (auto simp: mem_region_base_def region_contains_def word_le_nat_alt word_less_nat_alt
      unat_region_end split: option.splits if_splits)

lemma mem_wf_protect: "mem_wf m \<Longrightarrow> mem_protect m a prot = Ok m' \<Longrightarrow> mem_wf m'"
  by (auto simp: mem_protect_def result_simps mem_wf_update split: option.splits)

section \<open>Reads and writes\<close>

lemma region_range_Ok:
  assumes "length (r_data r) < 2 ^ 64"
  shows "region_range r a len = Ok (off, e) \<longleftrightarrow>
    r_base r \<le> a \<and> off = unat a - unat (r_base r) \<and> e = off + unat len \<and> e \<le> length (r_data r)"
  using assms by (auto simp: region_range_def addr_sub_def Let_def result_simps unat_sub)

lemma mem_slice_Ok:
  assumes "mem_wf m"
  shows "mem_slice m a len need = Ok bs \<longleftrightarrow>
    (\<exists>k r. bt_last_le (regions m) a = Some (k, r) \<and> prot_contains (r_prot r) need \<and>
       unat a - unat k + unat len \<le> length (r_data r) \<and>
       bs = take (unat len) (drop (unat a - unat k) (r_data r)))"
proof (cases "bt_last_le (regions m) a")
  case (Some p)
  obtain k r where p: "p = (k, r)" by force
  note kr = bt_last_le_region [OF assms Some [unfolded p]]
  have "length (r_data r) < 2 ^ 64" using kr(4) by simp
  with kr Some p show ?thesis
    by (auto simp: mem_slice_def region_subslice_def result_simps region_range_Ok word_le_nat_alt
        split: if_splits)
qed (simp add: mem_slice_def)

lemma mem_slice_mut_Ok:
  assumes "mem_wf m"
  shows "mem_slice_mut m a len need = Ok (k, r, off, e) \<longleftrightarrow>
    bt_last_le (regions m) a = Some (k, r) \<and> prot_contains (r_prot r) need \<and>
    off = unat a - unat k \<and> e = off + unat len \<and> e \<le> length (r_data r)"
proof (cases "bt_last_le (regions m) a")
  case (Some p)
  obtain k' r' where p: "p = (k', r')" by force
  note kr = bt_last_le_region [OF assms Some [unfolded p]]
  have "length (r_data r') < 2 ^ 64" using kr(4) by simp
  with kr Some p show ?thesis
    by (auto simp: mem_slice_mut_def region_subslice_mut_def result_simps region_range_Ok word_le_nat_alt
        split: if_splits)
qed (simp add: mem_slice_mut_def)

lemma unat_of_nat_len: "unat (of_nat n :: u64) = n \<longleftrightarrow> n < 2 ^ 64"
proof
  assume n: "unat (of_nat n :: u64) = n"
  have "unat (of_nat n :: u64) < 2 ^ 64" by simp
  with n show "n < 2 ^ 64" by simp
qed (simp add: unat_of_nat_u64)

lemma mem_read_Ok:
  assumes "mem_wf m"
  shows "mem_read m a n = Ok bs \<longleftrightarrow>
    (\<exists>k r. bt_last_le (regions m) a = Some (k, r) \<and> prot_contains (r_prot r) PROT_READ_BIT \<and>
       unat a - unat k + n \<le> length (r_data r) \<and>
       bs = take n (drop (unat a - unat k) (r_data r)))" (is "?read \<longleftrightarrow> ?spec")
proof
  assume ?read
  then have len: "length bs = n" and sl: "mem_slice m a (of_nat n) PROT_READ_BIT = Ok bs"
    by (auto simp: mem_read_def result_simps split: if_splits)
  from sl obtain k r where kr: "bt_last_le (regions m) a = Some (k, r)" "prot_contains (r_prot r) PROT_READ_BIT"
    "unat a - unat k + unat (of_nat n :: u64) \<le> length (r_data r)"
    "bs = take (unat (of_nat n :: u64)) (drop (unat a - unat k) (r_data r))"
    unfolding mem_slice_Ok [OF assms] by blast
  with len have "unat (of_nat n :: u64) = n" by simp
  with kr show ?spec by auto
next
  assume ?spec
  then obtain k r where kr: "bt_last_le (regions m) a = Some (k, r)" "prot_contains (r_prot r) PROT_READ_BIT"
    "unat a - unat k + n \<le> length (r_data r)" "bs = take n (drop (unat a - unat k) (r_data r))"
    by blast
  from kr(3) bt_last_le_region(4) [OF assms kr(1)] have "unat (of_nat n :: u64) = n"
    by (simp add: unat_of_nat_len)
  with kr show ?read by (auto simp: mem_read_def result_simps mem_slice_Ok [OF assms])
qed

lemma mem_write_Ok:
  assumes "mem_wf m"
  shows "mem_write m a data = Ok m' \<longleftrightarrow>
    (\<exists>k r. bt_last_le (regions m) a = Some (k, r) \<and> prot_contains (r_prot r) PROT_WRITE_BIT \<and>
       unat a - unat k + length data \<le> length (r_data r) \<and>
       m' = m\<lparr>regions := bt_insert k (r\<lparr>r_data := splice (r_data r) (unat a - unat k) data\<rparr>) (regions m)\<rparr>)"
    (is "?act \<longleftrightarrow> ?spec")
proof
  assume ?act
  then obtain k r where kr: "bt_last_le (regions m) a = Some (k, r)" "prot_contains (r_prot r) PROT_WRITE_BIT"
    "unat a - unat k + unat (of_nat (length data) :: u64) \<le> length (r_data r)"
    "unat (of_nat (length data) :: u64) = length data"
    "m' = m\<lparr>regions := bt_insert k (r\<lparr>r_data := splice (r_data r) (unat a - unat k) data\<rparr>) (regions m)\<rparr>"
    by (auto simp: mem_write_def result_simps mem_slice_mut_Ok [OF assms] split: if_splits)
  then show ?spec by auto
next
  assume ?spec
  then obtain k r where kr: "bt_last_le (regions m) a = Some (k, r)" "prot_contains (r_prot r) PROT_WRITE_BIT"
    "unat a - unat k + length data \<le> length (r_data r)"
    "m' = m\<lparr>regions := bt_insert k (r\<lparr>r_data := splice (r_data r) (unat a - unat k) data\<rparr>) (regions m)\<rparr>"
    by blast
  from kr(3) bt_last_le_region(4) [OF assms kr(1)] have "unat (of_nat (length data) :: u64) = length data"
    by (simp add: unat_of_nat_len)
  with kr show ?act by (auto simp: mem_write_def result_simps mem_slice_mut_Ok [OF assms])
qed

lemma mem_wf_write:
  assumes "mem_wf m" and "mem_write m a data = Ok m'"
  shows "mem_wf m'"
proof -
  obtain k r where kr: "bt_last_le (regions m) a = Some (k, r)"
    "unat a - unat k + length data \<le> length (r_data r)"
    "m' = m\<lparr>regions := bt_insert k (r\<lparr>r_data := splice (r_data r) (unat a - unat k) data\<rparr>) (regions m)\<rparr>"
    using assms(2) by (auto simp: mem_write_Ok [OF assms(1)])
  then show ?thesis
    using mem_wf_update [OF assms(1) bt_last_le_region(1) [OF assms(1) kr(1)]] by simp
qed

text \<open>The region lookup after a write: the same region, with the new bytes if it is the one written.\<close>

lemma bt_last_le_write:
  assumes "mem_wf m" and "bt_last_le (regions m) a = Some (k, r)"
  shows "bt_last_le (bt_insert k r' (regions m)) x =
    map_option (\<lambda>(k', s). (k', if k' = k then r' else s)) (bt_last_le (regions m) x)"
  using assms bt_last_le_region(1) [OF assms]
  by (intro bt.last_le_put_existing) (auto simp: mem_wf_iff)

text \<open>Refinement: a write changes exactly the cells it names, and no protection.\<close>

lemma mem_cell_write:
  assumes wf: "mem_wf m" and w: "mem_write m a data = Ok m'"
  shows "mem_cell m' x =
    (if unat a \<le> unat x \<and> unat x < unat a + length data
     then map_option (\<lambda>(_, p). (data ! (unat x - unat a), p)) (mem_cell m x)
     else mem_cell m x)"
proof -
  obtain k r where kr: "bt_last_le (regions m) a = Some (k, r)"
    "unat a - unat k + length data \<le> length (r_data r)"
    "m' = m\<lparr>regions := bt_insert k (r\<lparr>r_data := splice (r_data r) (unat a - unat k) data\<rparr>) (regions m)\<rparr>"
    using w by (auto simp: mem_write_Ok [OF wf])
  note reg = bt_last_le_region [OF wf kr(1)]
  show ?thesis
  proof (cases "bt_last_le (regions m) x")
    case None
    with kr show ?thesis by (simp add: mem_cell_def bt_last_le_write [OF wf kr(1)])
  next
    case (Some p)
    obtain k' s where p: "p = (k', s)" by force
    note regx = bt_last_le_region [OF wf Some [unfolded p]]
    show ?thesis
    proof (cases "k' = k")
      case True
      then have "s = r" using reg(1) regx(1) by simp
      with True Some p kr reg(3) regx(3) show ?thesis
        by (auto simp: mem_cell_def bt_last_le_write [OF wf kr(1)] nth_splice)
    next
      case False
      have "unat x \<notin> {unat a ..< unat a + length data}"
      proof
        assume "unat x \<in> {unat a ..< unat a + length data}"
        then have "bt_last_le (regions m) x = Some (k, r)"
          using rm.nearest_below_contains [of "regions m" k r x] wf kr(2) reg
          by (auto simp: mem_wf_iff)
        with Some p False show False by simp
      qed
      with False Some p kr show ?thesis
        by (auto simp: mem_cell_def bt_last_le_write [OF wf kr(1)])
    qed
  qed
qed

text \<open>The outcome of an access depends on the written region only through its bytes.\<close>

lemma mem_slice_same_shape:
  assumes "r_base s = r_base r" and "r_prot s = r_prot r" and "length (r_data s) = length (r_data r)"
    and "\<And>off e. region_range r a len = Ok (off, e) \<Longrightarrow>
      take (e - off) (drop off (r_data s)) = take (e - off) (drop off (r_data r))"
  shows "region_subslice s a len need = region_subslice r a len need"
proof -
  have "region_range s a len = region_range r a len" using assms(1,3) by (simp add: region_range_def)
  then show ?thesis unfolding region_subslice_def
    by (auto intro!: and_then_cong simp: assms slice_index_def slice_get_def)
qed

lemma mem_read_frame:
  assumes wf: "mem_wf m" and w: "mem_write m a data = Ok m'"
    and apart: "ranges_apart a (length data) b n"
  shows "mem_read m' b n = mem_read m b n"
proof -
  obtain k r where kr: "bt_last_le (regions m) a = Some (k, r)"
    "unat a - unat k + length data \<le> length (r_data r)"
    "m' = m\<lparr>regions := bt_insert k (r\<lparr>r_data := splice (r_data r) (unat a - unat k) data\<rparr>) (regions m)\<rparr>"
    using w by (auto simp: mem_write_Ok [OF wf])
  note reg = bt_last_le_region [OF wf kr(1)]
  have "mem_slice m' b (of_nat n) PROT_READ_BIT = mem_slice m b (of_nat n) PROT_READ_BIT"
  proof (cases "bt_last_le (regions m) b")
    case (Some p)
    obtain k' s where p: "p = (k', s)" by force
    note regb = bt_last_le_region [OF wf Some [unfolded p]]
    show ?thesis
    proof (cases "k' = k")
      case True
      then have s: "s = r" using reg(1) regb(1) by simp
      have small: "unat (of_nat n :: u64) \<le> n" by (simp add: unat_of_nat)
      have "length (r_data r) < 2 ^ 64" using reg(4) by simp
      then have "region_subslice (r\<lparr>r_data := splice (r_data r) (unat a - unat k) data\<rparr>) b (of_nat n) need =
          region_subslice r b (of_nat n) need" for need
        using kr(2) reg regb(3) True small apart
        by (intro mem_slice_same_shape)
          (auto simp: region_range_Ok ranges_apart_def intro!: splice_disjoint)
      with True Some p s kr(3) show ?thesis
        by (simp add: mem_slice_def bt_last_le_write [OF wf kr(1)])
    next
      case False
      with Some p kr(3) show ?thesis by (simp add: mem_slice_def bt_last_le_write [OF wf kr(1)])
    qed
  qed (simp add: mem_slice_def bt_last_le_write [OF wf kr(1)] kr(3))
  then show ?thesis by (simp add: mem_read_def)
qed

lemma mem_read_ok_iff:
  assumes "mem_wf m"
  shows "is_ok (mem_read m b n) \<longleftrightarrow>
    (\<exists>k r. bt_last_le (regions m) b = Some (k, r) \<and> prot_contains (r_prot r) PROT_READ_BIT \<and>
       unat b - unat k + n \<le> length (r_data r))"
  by (auto simp: is_ok_iff mem_read_Ok [OF assms])

lemma mem_write_ok_iff:
  assumes "mem_wf m"
  shows "is_ok (mem_write m b e) \<longleftrightarrow>
    (\<exists>k r. bt_last_le (regions m) b = Some (k, r) \<and> prot_contains (r_prot r) PROT_WRITE_BIT \<and>
       unat b - unat k + length e \<le> length (r_data r))"
  by (auto simp: is_ok_iff mem_write_Ok [OF assms])

lemma mem_access_shape:
  assumes wf: "mem_wf m" and w: "mem_write m a data = Ok m'"
  shows "(\<exists>k r. bt_last_le (regions m') b = Some (k, r) \<and> prot_contains (r_prot r) need \<and>
      unat b - unat k + n \<le> length (r_data r)) \<longleftrightarrow>
    (\<exists>k r. bt_last_le (regions m) b = Some (k, r) \<and> prot_contains (r_prot r) need \<and>
      unat b - unat k + n \<le> length (r_data r))"
proof -
  obtain k r where kr: "bt_last_le (regions m) a = Some (k, r)"
    "unat a - unat k + length data \<le> length (r_data r)"
    "m' = m\<lparr>regions := bt_insert k (r\<lparr>r_data := splice (r_data r) (unat a - unat k) data\<rparr>) (regions m)\<rparr>"
    using w by (auto simp: mem_write_Ok [OF wf])
  show ?thesis
  proof (cases "bt_last_le (regions m) b")
    case (Some p)
    obtain k' s where p: "p = (k', s)" by force
    have "s = r" if "k' = k"
      using that bt_last_le_region(1) [OF wf kr(1)] bt_last_le_region(1) [OF wf Some [unfolded p]] by simp
    with Some p kr show ?thesis by (auto simp: bt_last_le_write [OF wf kr(1)])
  qed (simp add: bt_last_le_write [OF wf kr(1)] kr(3))
qed

text \<open>A range inside one region can be accessed if the region's protection allows it.\<close>

lemma region_access:
  assumes "mem_wf m" and "bt_get (regions m) k = Some r" and "unat k \<le> unat a" and "unat a < unat k + length (r_data r)"
    and "unat a + n \<le> unat k + length (r_data r)"
  shows "prot_contains (r_prot r) PROT_READ_BIT \<Longrightarrow> is_ok (mem_read m a n)"
    and "prot_contains (r_prot r) PROT_WRITE_BIT \<Longrightarrow> length d = n \<Longrightarrow> is_ok (mem_write m a d)"
proof -
  have "bt_last_le (regions m) a = Some (k, r)"
    using rm.nearest_below_contains [of "regions m" k r a] assms by (simp add: mem_wf_iff)
  then show "prot_contains (r_prot r) PROT_READ_BIT \<Longrightarrow> is_ok (mem_read m a n)"
    "prot_contains (r_prot r) PROT_WRITE_BIT \<Longrightarrow> length d = n \<Longrightarrow> is_ok (mem_write m a d)"
    using assms(3,5) by (auto simp: mem_read_ok_iff [OF assms(1)] mem_write_ok_iff [OF assms(1)])
qed

interpretation ms: byte_store mem_read mem_write mem_wf
proof unfold_locales
  fix m m' :: guest_memory and a b :: u64 and d e :: "u8 list" and n :: nat
  assume wf: "mem_wf m" and w: "mem_write m a d = Ok m'"
  note wf' = mem_wf_write [OF wf w]
  show "mem_wf m'" by (rule wf')
  show rd_ok: "is_ok (mem_read m' b n) = is_ok (mem_read m b n)" for b n
    unfolding mem_read_ok_iff [OF wf] mem_read_ok_iff [OF wf'] by (rule mem_access_shape [OF wf w])
  show "is_ok (mem_write m' b e) = is_ok (mem_write m b e)"
    unfolding mem_write_ok_iff [OF wf] mem_write_ok_iff [OF wf'] by (rule mem_access_shape [OF wf w])
  show "ranges_apart a (length d) b n \<Longrightarrow> mem_read m' b n = mem_read m b n"
    by (rule mem_read_frame [OF wf w])
  assume "is_ok (mem_read m a (length d))"
  moreover obtain k r where "bt_last_le (regions m) a = Some (k, r)"
    "unat a - unat k + length d \<le> length (r_data r)"
    "m' = m\<lparr>regions := bt_insert k (r\<lparr>r_data := splice (r_data r) (unat a - unat k) d\<rparr>) (regions m)\<rparr>"
    using w by (auto simp: mem_write_Ok [OF wf])
  ultimately show "mem_read m' a (length d) = Ok d"
    unfolding mem_read_Ok [OF wf'] by (auto simp: mem_read_ok_iff [OF wf] bt_last_le_write [OF wf] take_drop_splice)
qed

section \<open>The abstract view of mapping, protecting and allocating\<close>

lemma mem_cell_place:
  assumes wf: "mem_wf m" and free: "check_free m base n = Ok ()" and pos: "n \<noteq> 0"
    and r: "r_base r = base" "length (r_data r) = unat n"
  shows "mem_cell (m\<lparr>regions := bt_insert base r (regions m)\<rparr>) a =
    (if unat base \<le> unat a \<and> unat a < unat base + unat n
     then Some (r_data r ! (unat a - unat base), r_prot r) else mem_cell m a)"
    and "unat base \<le> unat a \<Longrightarrow> unat a < unat base + unat n \<Longrightarrow> mem_cell m a = None"
proof -
  let ?m = "m\<lparr>regions := bt_insert base r (regions m)\<rparr>"
  have n: "0 < unat n" using pos by (simp add: unat_gt_0)
  have wf': "mem_wf ?m" by (rule mem_wf_place [OF wf free r])
  have free': "\<not> overlaps s base n" if "bt_get (regions m) k = Some s" for k s
    using free that by (auto simp: check_free_Ok [OF wf])
  have nokey: "bt_get (regions m) base \<noteq> Some s" if "0 < length (r_data s)" for s
    using free' [of base s] mem_wf_region [OF wf, of base s] n that by (auto simp: overlaps_def)
  show none: "mem_cell m a = None" if "unat base \<le> unat a" "unat a < unat base + unat n"
  proof (rule ccontr)
    assume "mem_cell m a \<noteq> None"
    then obtain k s where "bt_get (regions m) k = Some s" "unat k \<le> unat a"
      "unat a < unat k + length (r_data s)"
      using mem_cell_iff [OF wf] by (metis not_None_eq surj_pair)
    with free' [of k s] mem_wf_region(1) [OF wf, of k s] that show False by (auto simp: overlaps_def)
  qed
  have iff: "mem_cell ?m a = Some (b, p) \<longleftrightarrow>
      (if unat base \<le> unat a \<and> unat a < unat base + unat n
       then Some (r_data r ! (unat a - unat base), r_prot r) else mem_cell m a) = Some (b, p)" for b p
  proof (cases "unat base \<le> unat a \<and> unat a < unat base + unat n")
    case True
    have "\<not> (unat k \<le> unat a \<and> unat a < unat k + length (r_data s))"
      if "bt_get (regions m) k = Some s" for k s
      using none True that mem_cell_iff [OF wf, of a] by auto
    with True show ?thesis unfolding mem_cell_iff [OF wf'] using r by (auto simp: bt_get_insert)
  next
    case False
    have "k \<noteq> base" if "bt_get (regions m) k = Some s" "unat a < unat k + length (r_data s)"
      "unat k \<le> unat a" for k s
      using that nokey [of s] by fastforce
    then have "mem_cell ?m a = Some (b, p) \<longleftrightarrow> mem_cell m a = Some (b, p)"
      unfolding mem_cell_iff [OF wf'] mem_cell_iff [OF wf] using False r
      by (simp add: bt_get_insert) metis
    with False show ?thesis by auto
  qed
  show "mem_cell ?m a = (if unat base \<le> unat a \<and> unat a < unat base + unat n
      then Some (r_data r ! (unat a - unat base), r_prot r) else mem_cell m a)"
    using iff by (metis not_None_eq surj_pair)
qed

lemma page_size_nonzero: "unat sz \<le> 2 ^ 64 - 0x4000 \<Longrightarrow> align_up (max sz 1) PAGE_SIZE \<noteq> 0"
  using align_up_page(1) [of "max sz 1"] by (auto simp: max_def word_le_nat_alt split: if_splits)

lemma mem_cell_other_fields [simp]:
  "mem_cell (m\<lparr>mmap_cursor := c\<rparr>) a = mem_cell m a" "mem_cell (m\<lparr>heap := h\<rparr>) a = mem_cell m a"
  by (simp_all add: mem_cell_def)

lemma mem_cell_map:
  assumes "mem_wf m" and "unat sz \<le> 2 ^ 64 - 0x4000" and "mem_map m base sz prot kind name = Ok m'"
  shows "mem_cell m' a =
      (if unat base \<le> unat a \<and> unat a < unat base + unat (align_up (max sz 1) PAGE_SIZE)
       then Some (0, prot) else mem_cell m a)"
    and "unat base \<le> unat a \<Longrightarrow> unat a < unat base + unat (align_up (max sz 1) PAGE_SIZE) \<Longrightarrow>
      mem_cell m a = None"
proof -
  from assms(3) obtain r where r: "check_free m base (align_up (max sz 1) PAGE_SIZE) = Ok ()"
    "r = \<lparr>r_base = base, r_prot = prot, r_kind = kind, r_name = name,
       r_data = replicate (unat (align_up (max sz 1) PAGE_SIZE)) 0\<rparr>"
    "m' = m\<lparr>regions := bt_insert base r (regions m)\<rparr>"
    by (auto elim: mem_map_OkE)
  note place = mem_cell_place [OF assms(1) r(1) page_size_nonzero [OF assms(2)], of r]
  show "mem_cell m' a = (if unat base \<le> unat a \<and> unat a < unat base + unat (align_up (max sz 1) PAGE_SIZE)
       then Some (0, prot) else mem_cell m a)"
    using place(1) [of a] r(2,3) by (auto simp: less_diff_conv2)
  show "unat base \<le> unat a \<Longrightarrow> unat a < unat base + unat (align_up (max sz 1) PAGE_SIZE) \<Longrightarrow>
      mem_cell m a = None"
    using place(2) [of a] r(2) by simp
qed

lemma mem_cell_map_with_data:
  assumes "mem_wf m" and "unat sz \<le> 2 ^ 64 - 0x4000" and "0 < unat sz"
    and "mem_map_with_data m base sz data prot kind name = Ok m'" and "length data \<le> unat sz"
  shows "mem_cell m' a =
      (if unat base \<le> unat a \<and> unat a < unat base + unat (align_up sz PAGE_SIZE)
       then Some (if unat a - unat base < length data then data ! (unat a - unat base) else 0, prot)
       else mem_cell m a)"
    and "unat base \<le> unat a \<Longrightarrow> unat a < unat base + unat (align_up sz PAGE_SIZE) \<Longrightarrow>
      mem_cell m a = None"
proof -
  have "length data < 2 ^ 64"
    using assms(2,5) by simp
  then have len: "unat (of_nat (length data) :: u64) = length data" by (simp only: unat_of_nat_len)
  have max: "max sz (of_nat (length data)) = sz"
    using assms(5) len by (intro max_absorb1) (simp add: word_le_nat_alt)
  have nz: "align_up sz PAGE_SIZE \<noteq> 0"
    using align_up_page(1) [of sz] assms(2,3) by auto
  from assms(4) max obtain r where r: "check_free m base (align_up sz PAGE_SIZE) = Ok ()"
    "r = \<lparr>r_base = base, r_prot = prot, r_kind = kind, r_name = name,
       r_data = data @ replicate (unat (align_up sz PAGE_SIZE) - length data) 0\<rparr>"
    "length data \<le> unat (align_up sz PAGE_SIZE)"
    "m' = m\<lparr>regions := bt_insert base r (regions m)\<rparr>"
    by (auto elim: mem_map_with_data_OkE)
  note place = mem_cell_place [OF assms(1) r(1) nz, of r]
  show "mem_cell m' a = (if unat base \<le> unat a \<and> unat a < unat base + unat (align_up sz PAGE_SIZE)
       then Some (if unat a - unat base < length data then data ! (unat a - unat base) else 0, prot)
       else mem_cell m a)"
    using place(1) [of a] r(2,3,4) by (auto simp: less_diff_conv2 nth_append)
  show "unat base \<le> unat a \<Longrightarrow> unat a < unat base + unat (align_up sz PAGE_SIZE) \<Longrightarrow>
      mem_cell m a = None"
    using place(2) [of a] r(2,3) by simp
qed

lemma mem_cell_protect:
  assumes wf: "mem_wf m" and "mem_protect m a prot = Ok m'"
  shows "\<exists>r. bt_get (regions m) (r_base r) = Some r \<and> region_contains r a \<and>
    (\<forall>x. mem_cell m' x =
       (if region_contains r x then map_option (\<lambda>(b, _). (b, prot)) (mem_cell m x) else mem_cell m x))"
proof -
  obtain k r where kr: "bt_last_le (regions m) a = Some (k, r)" "unat a < unat k + length (r_data r)"
    "m' = m\<lparr>regions := bt_insert k (r\<lparr>r_prot := prot\<rparr>) (regions m)\<rparr>"
    using assms bt_last_le_region(1) [OF wf]
    by (fastforce simp: mem_protect_def result_simps mem_region_base_Ok [OF wf] split: option.splits)
  note reg = bt_last_le_region [OF wf kr(1)]
  have cont: "region_contains r x \<longleftrightarrow> unat k \<le> unat x \<and> unat x < unat k + length (r_data r)" for x
    using reg by (auto simp: region_contains_def word_le_nat_alt word_less_nat_alt unat_region_end)
  have "mem_cell m' x =
      (if region_contains r x then map_option (\<lambda>(b, _). (b, prot)) (mem_cell m x) else mem_cell m x)" for x
  proof (cases "region_contains r x")
    case True
    then have "bt_last_le (regions m) x = Some (k, r)"
      using rm.nearest_below_contains [of "regions m" k r x] wf reg(1)
      by (simp add: cont mem_wf_iff)
    with True kr show ?thesis by (simp add: mem_cell_def bt_last_le_write [OF wf kr(1)])
  next
    case False
    show ?thesis
    proof (cases "bt_last_le (regions m) x")
      case (Some p)
      obtain k' s where p: "p = (k', s)" by force
      note regx = bt_last_le_region [OF wf Some [unfolded p]]
      have "k' = k \<Longrightarrow> s = r \<and> \<not> unat x - unat k < length (r_data r)"
        using False regx(1,3) reg(1) by (auto simp: cont)
      with False Some p kr show ?thesis by (auto simp: mem_cell_def bt_last_le_write [OF wf kr(1)])
    qed (simp add: False mem_cell_def bt_last_le_write [OF wf kr(1)] kr(3))
  qed
  with reg kr(2) cont show ?thesis by auto
qed

text \<open>An anonymous mapping lies below the previous ones and starts on a page boundary.\<close>

lemma mmap_anon_OkE:
  assumes "mmap_anon m sz prot = Ok (base, m')" and "unat sz \<le> 2 ^ 64 - 0x4000"
  obtains m1 n where "n = align_up (max sz 1) PAGE_SIZE"
    and "mem_map m base n prot AnonymousKind ''mmap'' = Ok m1" and "m' = m1\<lparr>mmap_cursor := base\<rparr>"
    and "unat base + unat n \<le> unat (mmap_cursor m)" and "0x4000 dvd unat base"
    and "align_up (max n 1) PAGE_SIZE = n" and "unat (max sz 1) \<le> unat n"
proof -
  define n where "n = align_up (max sz 1) PAGE_SIZE"
  have "unat (max sz 1) \<le> 2 ^ 64 - 0x4000" using assms(2) by (simp add: max_def)
  then have page: "unat (max sz 1) \<le> unat n" "0x4000 dvd unat n"
    using align_up_page [of "max sz 1"] by (simp_all add: n_def)
  have nz: "n \<noteq> 0" unfolding n_def by (rule page_size_nonzero [OF assms(2)])
  then have "1 \<le> n" by (simp add: word_le_nat_alt Suc_le_eq unat_gt_0)
  then have "max n 1 = n" by (simp add: max_absorb1)
  then have fix_n: "align_up (max n 1) PAGE_SIZE = n" using align_up_multiple [OF page(2)] by simp
  from assms(1) obtain m1 where m1: "n \<le> mmap_cursor m"
    "base = addr_align_down (mmap_cursor m - n) PAGE_SIZE"
    "mem_map m base n prot AnonymousKind ''mmap'' = Ok m1" "m' = m1\<lparr>mmap_cursor := base\<rparr>"
    by (auto simp: mmap_anon_def Let_def result_simps n_def)
  have "unat base \<le> unat (mmap_cursor m - n)" "0x4000 dvd unat base"
    unfolding m1(2) align_down_page by simp_all
  moreover from this(1) m1(1) have "unat base + unat n \<le> unat (mmap_cursor m)"
    by (simp add: unat_sub word_le_nat_alt)
  ultimately show thesis using m1 page fix_n by (intro that [of n m1]) (simp_all add: n_def)
qed

section \<open>The heap arena\<close>

text \<open>
  The cursor runs inside the arena, the arena ends in the lower half of the address space (so that
  rounding the cursor up cannot wrap), and it is backed by a readable and writable region.
\<close>

definition heap_wf :: "guest_memory \<Rightarrow> bool" where
  "heap_wf m \<longleftrightarrow>
     (let h = heap m in
      bump_base h \<le> bump_cursor h \<and> bump_cursor h \<le> bump_limit h \<and> unat (bump_limit h) \<le> 2 ^ 63 \<and>
      (case bt_get (regions m) (bump_base h) of
         None \<Rightarrow> False
       | Some r \<Rightarrow> unat (bump_limit h) \<le> unat (bump_base h) + length (r_data r) \<and>
           prot_contains (r_prot r) PROT_READ_BIT \<and> prot_contains (r_prot r) PROT_WRITE_BIT))"

lemma heap_wf_new:
  assumes "mem_new heap_base heap_size = Ok m" and "unat heap_base + unat heap_size \<le> 2 ^ 63"
  shows "heap_wf m"
proof -
  have al: "unat heap_size \<le> unat (align_up heap_size PAGE_SIZE)"
    and dv: "0x4000 dvd unat (align_up heap_size PAGE_SIZE)"
    and up: "unat (align_up heap_size PAGE_SIZE) < unat heap_size + 0x4000"
    using align_up_page [of heap_size] assms(2) by simp_all
  define n where "n = align_up heap_size PAGE_SIZE"
  have "unat (max n 1) \<le> unat (align_up (max n 1) PAGE_SIZE)"
    using align_up_page(1) [of "max n 1"] up assms(2) by (auto simp: n_def max_def)
  moreover have "unat n \<le> unat (max n 1)" by (simp add: max_def word_le_nat_alt)
  ultimately have big: "unat heap_size \<le> unat (align_up (max n 1) PAGE_SIZE)" using al by (simp add: n_def)
  have lim: "unat (heap_base + heap_size) = unat heap_base + unat heap_size"
    using assms(2) by (simp add: unat_add_u64)
  from assms(1) show ?thesis
    unfolding mem_new_def
    by (rule mem_map_OkE)
      (use big lim assms(2) in \<open>auto simp: heap_wf_def Let_def bump_new_def addr_add_def bt_get_def
         word_le_nat_alt n_def prot_defs\<close>)
qed

lemma bump_alloc_Ok:
  assumes "unat (bump_limit h) \<le> 2 ^ 63" and "bump_cursor h \<le> bump_limit h" and "k < 64"
    and "bump_alloc h sz (2 ^ k) = Ok (a, h')"
  shows "unat (bump_cursor h) \<le> unat a" and "2 ^ k dvd unat a"
    and "unat (bump_cursor h') = unat a + unat (max sz 1)"
    and "h' = h\<lparr>bump_cursor := bump_cursor h'\<rparr>" and "bump_cursor h' \<le> bump_limit h"
proof -
  have one: "max (2 ^ k) 1 = (2 ^ k :: u64)"
    using unat_pow2 [of k, where 'a = 64] assms(3) by (intro max_absorb1) (simp add: word_le_nat_alt)
  then have a: "a = align_up (bump_cursor h) (2 ^ k)" "unat a + unat (max sz 1) < 2 ^ 64"
    "h' = h\<lparr>bump_cursor := a + max sz 1\<rparr>" "a + max sz 1 \<le> bump_limit h"
    using assms(4) by (auto simp: bump_alloc_def Let_def result_simps split: if_splits)
  have "(2 :: nat) ^ k \<le> 2 ^ 63" using assms(3) by (intro power_increasing) auto
  moreover have "unat (bump_cursor h) \<le> 2 ^ 63" using assms(1,2) by (simp add: word_le_nat_alt)
  ultimately have "unat (bump_cursor h) + (2 ^ k - 1) < 2 ^ 64" by simp
  then have al: "unat a = (unat (bump_cursor h) + (2 ^ k - 1)) div 2 ^ k * 2 ^ k"
    unfolding a(1) by (rule unat_align_up [OF assms(3)])
  then show "unat (bump_cursor h) \<le> unat a" "2 ^ k dvd unat a"
    using round_up_least(1) [of "2 ^ k" "unat (bump_cursor h)"] by simp_all
  show "unat (bump_cursor h') = unat a + unat (max sz 1)"
    using a(2) by (simp add: a(3) unat_add_u64)
  show "h' = h\<lparr>bump_cursor := bump_cursor h'\<rparr>" "bump_cursor h' \<le> bump_limit h"
    using a(4) by (simp_all add: a(3))
qed

lemma heap_alloc_Ok:
  assumes wf: "heap_wf m" and k: "k < 64" and ok: "heap_alloc m sz (2 ^ k) = Ok (a, m')"
  shows "heap_wf m'" and "unat (bump_cursor (heap m)) \<le> unat a" and "2 ^ k dvd unat a"
    and "unat (bump_cursor (heap m')) = unat a + unat (max sz 1)"
    and "unat a + unat (max sz 1) \<le> unat (bump_limit (heap m))"
    and "regions m' = regions m" and "bump_limit (heap m') = bump_limit (heap m)"
    and "bump_base (heap m') = bump_base (heap m)"
proof -
  from ok obtain h' where h': "bump_alloc (heap m) sz (2 ^ k) = Ok (a, h')" "m' = m\<lparr>heap := h'\<rparr>"
    by (auto simp: heap_alloc_def result_simps)
  have lim: "unat (bump_limit (heap m)) \<le> 2 ^ 63" "bump_cursor (heap m) \<le> bump_limit (heap m)"
    using wf by (auto simp: heap_wf_def Let_def)
  note b = bump_alloc_Ok [OF lim k h'(1)]
  have fields: "bump_limit h' = bump_limit (heap m)" "bump_base h' = bump_base (heap m)"
    by (subst b(4), simp)+
  then show "bump_limit (heap m') = bump_limit (heap m)" "bump_base (heap m') = bump_base (heap m)"
    using h'(2) by simp_all
  show "unat (bump_cursor (heap m)) \<le> unat a" "2 ^ k dvd unat a"
    "unat (bump_cursor (heap m')) = unat a + unat (max sz 1)" "regions m' = regions m"
    using b h'(2) by simp_all
  show "unat a + unat (max sz 1) \<le> unat (bump_limit (heap m))"
    using b(3,5) by (simp add: word_le_nat_alt)
  have "bump_base h' \<le> bump_cursor h'"
    using wf b(1,3) fields by (simp add: heap_wf_def Let_def word_le_nat_alt)
  with wf b(5) fields h'(2) show "heap_wf m'" by (auto simp: heap_wf_def Let_def split: option.splits)
qed

text \<open>A block of the heap can be written and read in full.\<close>

lemma heap_block_access:
  assumes "mem_wf m" and "heap_wf m" and "unat (bump_base (heap m)) \<le> unat a"
    and "unat a + n \<le> unat (bump_limit (heap m))" and "0 < n"
  shows "is_ok (mem_read m a n)" and "length d = n \<Longrightarrow> is_ok (mem_write m a d)"
proof -
  from assms(2) obtain r where r: "bt_get (regions m) (bump_base (heap m)) = Some r"
    "unat (bump_limit (heap m)) \<le> unat (bump_base (heap m)) + length (r_data r)"
    "prot_contains (r_prot r) PROT_READ_BIT" "prot_contains (r_prot r) PROT_WRITE_BIT"
    by (auto simp: heap_wf_def Let_def split: option.splits)
  then show "is_ok (mem_read m a n)" "length d = n \<Longrightarrow> is_ok (mem_write m a d)"
    using region_access(1) [OF assms(1) r(1), of a n] region_access(2) [OF assms(1) r(1), of a n d] r(2-4) assms(3-5)
    by auto
qed

section \<open>Reachable address spaces\<close>

inductive mem_reach :: "guest_memory \<Rightarrow> bool" where
  reach_new: "mem_new heap_base heap_size = Ok m \<Longrightarrow> mem_reach m"
| reach_map: "mem_reach m \<Longrightarrow> mem_map m base sz prot kind name = Ok m' \<Longrightarrow> mem_reach m'"
| reach_map_data:
    "mem_reach m \<Longrightarrow> mem_map_with_data m base sz data prot kind name = Ok m' \<Longrightarrow> mem_reach m'"
| reach_mmap: "mem_reach m \<Longrightarrow> mmap_anon m sz prot = Ok (base, m') \<Longrightarrow> mem_reach m'"
| reach_protect: "mem_reach m \<Longrightarrow> mem_protect m a prot = Ok m' \<Longrightarrow> mem_reach m'"
| reach_heap: "mem_reach m \<Longrightarrow> heap_alloc m sz align = Ok (a, m') \<Longrightarrow> mem_reach m'"
| reach_write: "mem_reach m \<Longrightarrow> mem_write m a data = Ok m' \<Longrightarrow> mem_reach m'"

lemmas mem_wf_preserved = mem_wf_new mem_wf_map mem_wf_map_with_data mem_wf_mmap_anon mem_wf_protect
  mem_wf_heap_alloc mem_wf_write

fun heap_allocs :: "guest_memory \<Rightarrow> (u64 \<times> nat) list \<Rightarrow> (guest_addr list \<times> guest_memory) emu_result" where
  "heap_allocs m [] = Ok ([], m)"
| "heap_allocs m ((sz, k) # reqs) =
     and_then (heap_alloc m sz (2 ^ k)) (\<lambda>(a, m1).
     and_then (heap_allocs m1 reqs) (\<lambda>(as, m2). Ok (a # as, m2)))"

lemma heap_allocs_bounds:
  assumes "heap_wf m" and "heap_allocs m reqs = Ok (as, m')" and "\<forall>(sz, k) \<in> set reqs. k < 64"
  shows "heap_wf m' \<and> bump_limit (heap m') = bump_limit (heap m) \<and> length as = length reqs \<and>
    sorted_wrt (\<lambda>(a, sz, k) (b, _). unat a + unat (max sz 1) \<le> unat b) (zip as reqs) \<and>
    (\<forall>(a, sz, k) \<in> set (zip as reqs). unat (bump_cursor (heap m)) \<le> unat a \<and> 2 ^ k dvd unat a \<and>
       unat a + unat (max sz 1) \<le> unat (bump_limit (heap m)))"
  using assms
proof (induction m reqs arbitrary: as m' rule: heap_allocs.induct)
  case (2 m sz k reqs)
  from "2.prems"(2) obtain a m1 as1 where s: "heap_alloc m sz (2 ^ k) = Ok (a, m1)"
    "heap_allocs m1 reqs = Ok (as1, m')" "as = a # as1"
    by (auto simp: result_simps)
  from "2.prems"(3) have k: "k < 64" by simp
  note h = heap_alloc_Ok [OF "2.prems"(1) k s(1)]
  have "\<forall>(sz, k) \<in> set reqs. k < 64" using "2.prems"(3) by simp
  note ih = "2.IH" [OF s(1) refl h(1) s(2) this]
  have "unat (bump_cursor (heap m)) \<le> unat (bump_cursor (heap m1))" using h(2,4) by simp
  with ih h s(3) show ?case by (fastforce simp: case_prod_beta)
qed simp

section \<open>Properties\<close>

text \<open>An address space with one eight-byte region, for the concrete instances below.\<close>

definition sample_mem :: guest_memory where
  "sample_mem =
     \<lparr>regions = [(0x1000, \<lparr>r_base = 0x1000, r_prot = prot_rw, r_kind = HeapKind, r_name = ''heap'',
                   r_data = [1, 2, 3, 4, 5, 6, 7, 8]\<rparr>)],
      mmap_cursor = MMAP_TOP,
      heap = \<lparr>bump_base = 0x1000, bump_limit = 0x1008, bump_cursor = 0x1000\<rparr>\<rparr>"

lemma sample_mem_wf: "mem_wf sample_mem" "heap_wf sample_mem"
  by (simp_all add: sample_mem_def mem_wf_def heap_wf_def bt_invar_def bt_get_def prot_defs)

text \<open>
  In every address space that can be built with the operations of the manager, regions are
  keyed by their bases, none wraps around, and no two of them overlap.
\<close>

theorem mem_reach_wf: "mem_reach m \<Longrightarrow> mem_wf m"
  by (induction rule: mem_reach.induct) (blast intro: mem_wf_preserved)+

theorem mem_reach_wf_witness:
  "mem_new 0x100000000 0x10000 = Ok (the_ok (mem_new 0x100000000 0x10000)) \<and>
   mem_wf (the_ok (mem_new 0x100000000 0x10000))"
proof -
  have "is_ok (mem_new 0x100000000 0x10000)"
    by (simp add: mem_new_def mem_map_is_ok check_free_def bt_last_lt_def bt_last_def checked_add_def
        align_up_def PAGE_SIZE_def max_def word_le_nat_alt)
  then have ok: "mem_new 0x100000000 0x10000 = Ok (the_ok (mem_new 0x100000000 0x10000))"
    by (rule is_ok_the_ok)
  from mem_reach_wf [OF reach_new [OF ok]] ok show ?thesis by simp
qed

text \<open>
  C19. The overlap check of a mapping looks at one neighbour only, and is complete: it succeeds
  exactly when the range ends in the address space and meets no region at all.
\<close>

theorem check_free_complete:
  assumes "mem_wf m"
  shows "check_free m base sz =
    (if 2 ^ 64 \<le> unat base + unat sz then Err (Memory base ''map overflow'')
     else if \<exists>k r. bt_get (regions m) k = Some r \<and> overlaps r base sz
     then Err (Memory base ''map overlaps existing region'')
     else Ok ())"
proof (cases "check_free m base sz")
  case (Ok u)
  then show ?thesis using check_free_Ok [OF assms, of base sz] by auto
next
  case (Err e)
  then have "e = (if 2 ^ 64 \<le> unat base + unat sz then Memory base ''map overflow''
      else Memory base ''map overlaps existing region'')"
    by (auto simp: check_free_def checked_add_def split: option.splits if_splits)
  with Err check_free_Ok [OF assms, of base sz] show ?thesis by auto
qed simp

theorem check_free_complete_witness:
  "check_free sample_mem 0xFFC 8 = Err (Memory 0xFFC ''map overlaps existing region'') \<and>
   check_free sample_mem 0xFFC 4 = Ok ()"
  using check_free_complete [OF sample_mem_wf(1), of "0xFFC" 8]
    check_free_complete [OF sample_mem_wf(1), of "0xFFC" 4]
  by (auto simp: sample_mem_def overlaps_def bt_get_def split: if_splits)

text \<open>
  A successful mapping of at most \<open>2 ^ 64 - 0x4000\<close> bytes adds a zero-filled, page-rounded range
  with the requested protection; the range was unmapped and every other byte keeps its contents.
\<close>

theorem mem_map_fresh:
  assumes "mem_wf m" and "unat sz \<le> 2 ^ 64 - 0x4000" and "mem_map m base sz prot kind name = Ok m'"
  shows "mem_cell m' a =
    (if unat base \<le> unat a \<and> unat a < unat base + unat (align_up (max sz 1) PAGE_SIZE)
     then (if mem_cell m a = None then Some (0, prot) else None)
     else mem_cell m a)"
  using mem_cell_map [OF assms, of a] by simp

theorem mem_map_fresh_witness:
  "mem_cell (the_ok (mem_map sample_mem 0x8000 1 prot_rw AnonymousKind ''a'')) 0x8001 = Some (0, prot_rw) \<and>
   mem_cell (the_ok (mem_map sample_mem 0x8000 1 prot_rw AnonymousKind ''a'')) 0x1002 = Some (3, prot_rw)"
proof -
  have "is_ok (mem_map sample_mem 0x8000 1 prot_rw AnonymousKind ''a'')"
    by (simp add: sample_mem_def mem_map_is_ok check_free_def bt_last_lt_def bt_last_def checked_add_def
        align_up_def PAGE_SIZE_def region_end_def region_size_def addr_add_def)
  then have ok: "mem_map sample_mem 0x8000 1 prot_rw AnonymousKind ''a'' =
      Ok (the_ok (mem_map sample_mem 0x8000 1 prot_rw AnonymousKind ''a''))"
    by (rule is_ok_the_ok)
  show ?thesis
    using mem_map_fresh [OF sample_mem_wf(1) _ ok, of "0x8001"] mem_map_fresh [OF sample_mem_wf(1) _ ok, of "0x1002"]
    by (simp add: sample_mem_def mem_cell_def bt_last_le_def bt_last_def align_up_def PAGE_SIZE_def)
qed

text \<open>
  C2. A write refines the update of a byte map: it changes exactly the named bytes, to the given
  values, changes no protection, and keeps the invariant; a write of the same length at the same
  place stays possible.
\<close>

theorem mem_write_refines:
  assumes "mem_wf m" and "mem_write m a data = Ok m'"
  shows "mem_wf m' \<and>
    (\<forall>x. mem_cell m' x =
      (if unat a \<le> unat x \<and> unat x < unat a + length data
       then map_option (\<lambda>(_, p). (data ! (unat x - unat a), p)) (mem_cell m x)
       else mem_cell m x)) \<and>
    is_ok (mem_write m' a data)"
  using mem_wf_write [OF assms] mem_cell_write [OF assms] ms.wr_wr_ok [OF assms, of a data] assms(2)
  by simp

theorem mem_write_refines_witness:
  "map (mem_cell (the_ok (mem_write sample_mem 0x1002 [9, 10]))) [0x1001, 0x1002, 0x1003, 0x1004] =
   [Some (2, prot_rw), Some (9, prot_rw), Some (10, prot_rw), Some (5, prot_rw)]"
proof -
  have ok: "mem_write sample_mem 0x1002 [9, 10] = Ok (the_ok (mem_write sample_mem 0x1002 [9, 10]))"
    by (simp add: sample_mem_def mem_write_def mem_slice_mut_def bt_last_le_def bt_last_def
        region_subslice_mut_def region_range_def addr_sub_def checked_add_usize_def slice_index_def slice_get_def
        Let_def)
  show ?thesis
    using mem_write_refines [OF sample_mem_wf(1) ok]
    by (simp add: sample_mem_def mem_cell_def bt_last_le_def bt_last_def)
qed

text \<open>
  C25. A segment of at least one and at most \<open>2 ^ 64 - 0x4000\<close> bytes, mapped from file data no longer than it, holds
  the file bytes, then zeros up to the page end, under the requested protection; every other byte is unchanged.
\<close>

theorem mem_map_with_data_contents:
  assumes "mem_wf m" and "0 < unat sz" and "unat sz \<le> 2 ^ 64 - 0x4000" and "length data \<le> unat sz"
    and "mem_map_with_data m base sz data prot kind name = Ok m'"
  shows "mem_cell m' a =
    (if unat base \<le> unat a \<and> unat a < unat base + unat (align_up sz PAGE_SIZE)
     then Some (if unat a - unat base < length data then data ! (unat a - unat base) else 0, prot)
     else mem_cell m a)"
  by (rule mem_cell_map_with_data(1) [OF assms(1,3,2,5,4)])

theorem mem_map_with_data_contents_witness:
  "map (mem_cell (the_ok (mem_map_with_data sample_mem 0x8000 0x10 [7, 8] prot_rx SegmentKind ''__TEXT'')))
     [0x7FFF, 0x8000, 0x8001, 0x8002, 0x1000] =
   [None, Some (7, prot_rx), Some (8, prot_rx), Some (0, prot_rx), Some (1, prot_rw)]"
proof -
  have "is_ok (mem_map_with_data sample_mem 0x8000 0x10 [7, 8] prot_rx SegmentKind ''__TEXT'')"
    by (simp add: sample_mem_def mem_map_with_data_is_ok check_free_def bt_last_lt_def bt_last_def
        checked_add_def align_up_def PAGE_SIZE_def region_end_def region_size_def addr_add_def)
  note ok = is_ok_the_ok [OF this]
  show ?thesis
    using mem_map_with_data_contents [OF sample_mem_wf(1) _ _ _ ok]
    by (simp add: sample_mem_def mem_cell_def bt_last_le_def bt_last_def align_up_def PAGE_SIZE_def)
qed

fun write_u64s :: "guest_memory \<Rightarrow> (guest_addr \<times> u64) list \<Rightarrow> guest_memory emu_result" where
  "write_u64s m [] = Ok m"
| "write_u64s m ((a, v) # ws) = and_then (write_u64 m a v) (\<lambda>m'. write_u64s m' ws)"

lemma write_u64s_wr_all: "write_u64s m ws = ms.wr_all m (map (\<lambda>(a, v). (a, to_le_bytes v)) ws)"
  by (induction m ws rule: write_u64s.induct) (auto simp: write_u64_def intro!: and_then_cong)

text \<open>
  Pointers written one after the other to disjoint slots are all read back afterwards, whatever
  the order and whatever lies between them; reads elsewhere are not affected.
\<close>

theorem write_u64s_read_back:
  assumes "mem_wf m" and "write_u64s m ws = Ok m'"
    and "sorted_wrt (\<lambda>p q. ranges_apart (fst p) 8 (fst q) 8) ws"
  shows "((a, v) \<in> set ws \<and> is_ok (read_u64 m a) \<longrightarrow> read_u64 m' a = Ok v) \<and>
    ((\<forall>(a, _) \<in> set ws. ranges_apart a 8 b 8) \<longrightarrow> read_u64 m' b = read_u64 m b)"
proof (intro conjI impI)
  note w = assms(2) [unfolded write_u64s_wr_all]
  have apart: "chunks_apart (map (\<lambda>(a, v). (a, to_le_bytes v)) ws)"
    using assms(3) by (simp add: chunks_apart_def sorted_wrt_map case_prod_beta)
  show "read_u64 m' a = Ok v" if "(a, v) \<in> set ws \<and> is_ok (read_u64 m a)"
  proof -
    from that have "(a, to_le_bytes v) \<in> set (map (\<lambda>(a, v). (a, to_le_bytes v)) ws)"
      "is_ok (mem_read m a (length (to_le_bytes v)))"
      by (force, auto simp: read_u64_def is_ok_iff result_simps)
    from ms.wr_all_reads_back [OF assms(1) w apart this] show ?thesis by (simp add: read_u64_def)
  qed
  show "read_u64 m' b = read_u64 m b" if "\<forall>(a, _) \<in> set ws. ranges_apart a 8 b 8"
    using that ms.wr_all_frame [OF assms(1) w, of b 8] by (force simp: read_u64_def)
qed

theorem write_u64s_read_back_witness:
  "read_u64 (the_ok (write_u64s sample_mem [(0x1000, 0xDEADBEEF)])) 0x1000 = Ok 0xDEADBEEF"
proof -
  have "is_ok (write_u64s sample_mem [(0x1000, 0xDEADBEEF)])" "is_ok (read_u64 sample_mem 0x1000)"
    by (simp_all add: sample_mem_def write_u64_def read_u64_def mem_read_def mem_slice_def
        mem_write_def mem_slice_mut_def bt_last_le_def bt_last_def region_subslice_def
        region_subslice_mut_def region_range_def addr_sub_def checked_add_usize_def slice_index_def slice_get_def
        Let_def)
  with write_u64s_read_back [OF sample_mem_wf(1) is_ok_the_ok, of "[(0x1000, 0xDEADBEEF)]" "0x1000" "0xDEADBEEF"]
  show ?thesis by simp
qed

text \<open>
  C26. An anonymous mapping of at most \<open>2 ^ 64 - 0x4000\<close> bytes (beyond that the page rounding wraps) returns
  a page-aligned base, the new cursor.  The range of whole pages from there holds the requested size and
  ends at or below the previous cursor; before the call none of its bytes was mapped, and after it every
  one is mapped with the protection asked for and reads as zero; every other byte is unchanged.
\<close>

theorem mmap_anon_fresh:
  assumes "mem_wf m" and "unat sz \<le> 2 ^ 64 - 0x4000" and "mmap_anon m sz prot = Ok (base, m')"
  shows "\<exists>n. 0x4000 dvd unat base \<and> 0x4000 dvd n \<and> max (unat sz) 1 \<le> n \<and> n < max (unat sz) 1 + 0x4000 \<and>
    mmap_cursor m' = base \<and> unat base + n \<le> unat (mmap_cursor m) \<and>
    (\<forall>a. if unat base \<le> unat a \<and> unat a < unat base + n
         then mem_cell m a = None \<and> mem_cell m' a = Some (0, prot)
         else mem_cell m' a = mem_cell m a)"
  using assms(3,2)
proof (rule mmap_anon_OkE)
  fix m1 n
  assume n: "n = align_up (max sz 1) PAGE_SIZE" "mem_map m base n prot AnonymousKind ''mmap'' = Ok m1"
    "m' = m1\<lparr>mmap_cursor := base\<rparr>" "unat base + unat n \<le> unat (mmap_cursor m)" "0x4000 dvd unat base"
    "align_up (max n 1) PAGE_SIZE = n" "unat (max sz 1) \<le> unat n"
  have "unat n \<le> 2 ^ 64 - 0x4000"
    using align_up_page(3) [of "max sz 1"] assms(2) by (intro page_multiple_bound) (simp add: n(1) max_def)
  note cells = mem_cell_map [OF assms(1) this n(2), unfolded n(6)]
  have cell: "mem_cell m' a = mem_cell m1 a" for a using n(3) by simp
  have sz: "unat (max sz 1) = max (unat sz) 1" by (simp add: max_def word_le_nat_alt)
  have "0x4000 dvd unat n \<and> unat n < max (unat sz) 1 + 0x4000"
    using align_up_page [of "max sz 1"] assms(2) by (simp add: n(1) sz)
  then show ?thesis
    using n(3-5,7) cells by (intro exI [of _ "unat n"]) (simp add: cell sz)
qed

theorem mmap_anon_fresh_witness:
  "fst (the_ok (mmap_anon sample_mem 0x4001 prot_rw)) = 0x1FFFF8000"
proof -
  have "is_ok (mmap_anon sample_mem 0x4001 prot_rw)"
    by (simp add: sample_mem_def mmap_anon_is_ok mem_map_is_ok check_free_def bt_last_lt_def bt_last_def MMAP_TOP_def
        checked_add_def checked_sub_def align_up_def PAGE_SIZE_def region_end_def region_size_def addr_add_def
        addr_align_down_def max_def word_le_nat_alt)
  then obtain base m' where ok: "mmap_anon sample_mem 0x4001 prot_rw = Ok (base, m')"
    by (auto simp: is_ok_iff)
  then have "base = 0x1FFFF8000"
    by (auto simp: sample_mem_def mmap_anon_def Let_def MMAP_TOP_def result_simps checked_sub_def align_up_def PAGE_SIZE_def
        addr_align_down_def max_def word_le_nat_alt)
  with mmap_anon_fresh [OF sample_mem_wf(1) _ ok] ok show ?thesis by simp
qed

text \<open>
  Requests within a page of \<open>2 ^ 64\<close> wrap around: the rounded size is zero, and mapping such a size
  at the base of an existing region succeeds and drops that region, with all its bytes.
\<close>

theorem mem_map_wrap_drops_region:
  assumes "mem_wf m" and "bt_get (regions m) base = Some r" and "2 ^ 64 - 0x4000 < unat sz"
  shows "\<exists>m'. mem_map m base sz prot kind name = Ok m' \<and>
    (\<forall>a. region_contains r a \<longrightarrow> mem_cell m a \<noteq> None \<and> mem_cell m' a = None)"
proof -
  let ?r = "\<lparr>r_base = base, r_prot = prot, r_kind = kind, r_name = name, r_data = []\<rparr>"
  let ?m = "m\<lparr>regions := bt_insert base ?r (regions m)\<rparr>"
  have "1 \<le> sz" using assms(3) by (simp add: word_le_nat_alt)
  then have zero: "align_up (max sz 1) PAGE_SIZE = 0"
    using align_up_page_wrapped [of sz] assms(3) by (simp add: max_absorb1)
  have free: "check_free m base 0 = Ok ()"
    unfolding check_free_Ok [OF assms(1)]
  proof (intro conjI allI impI notI)
    fix k s
    assume k: "bt_get (regions m) k = Some s" and o: "overlaps s base 0"
    then have "k < base" "unat base < unat k + length (r_data s)"
      using mem_wf_region(1) [OF assms(1) k] by (auto simp: overlaps_def word_less_nat_alt)
    with assms(1,2) k show False by (fastforce simp: mem_wf_iff rm.apart_def)
  qed simp
  have ok: "mem_map m base sz prot kind name = Ok ?m"
    by (simp add: mem_map_def zero free region_new_zeroed_def vec_zeroed_def)
  note wf' = mem_wf_map [OF assms(1) ok]
  note reg = mem_wf_region [OF assms(1,2)]
  have "mem_cell m a \<noteq> None \<and> mem_cell ?m a = None" if a: "region_contains r a" for a
  proof
    have in_r: "unat base \<le> unat a" "unat a < unat base + length (r_data r)"
      using a reg by (auto simp: region_contains_def word_le_nat_alt word_less_nat_alt unat_region_end)
    then show "mem_cell m a \<noteq> None" using mem_cell_iff [OF assms(1), of a] assms(2) by blast
    have "bt_last_le (regions m) a = Some (base, r)"
      using rm.nearest_below_contains [of "regions m" base r a] assms(1,2) in_r by (simp add: mem_wf_iff)
    then show "mem_cell ?m a = None"
      by (simp add: mem_cell_def bt_last_le_write [OF assms(1), of a base r])
  qed
  with ok show ?thesis by blast
qed

theorem mem_map_wrap_drops_region_witness:
  "\<exists>m'. mem_map sample_mem 0x1000 0xFFFFFFFFFFFFFFFF prot_rw AnonymousKind ''big'' = Ok m' \<and>
     mem_cell sample_mem 0x1003 \<noteq> None \<and> mem_cell m' 0x1003 = None"
proof -
  obtain r where r: "bt_get (regions sample_mem) 0x1000 = Some r" "region_contains r 0x1003"
    by (simp add: sample_mem_def bt_get_def region_contains_def region_end_def region_size_def addr_add_def)
  from mem_map_wrap_drops_region [OF sample_mem_wf(1) r(1), of "0xFFFFFFFFFFFFFFFF" prot_rw AnonymousKind "''big''"] r(2)
  show ?thesis by auto
qed

text \<open>
  C27. Blocks handed out by a run of heap allocations (alignments are powers of two) are aligned, lie
  inside the arena, do not overlap, and each can be read and written in full afterwards.
\<close>

theorem heap_allocs_blocks:
  assumes "mem_wf m" and "heap_wf m" and "heap_allocs m reqs = Ok (as, m')"
    and "\<forall>(sz, k) \<in> set reqs. k < 64"
  shows "sorted_wrt (\<lambda>(a, sz, k) (b, _). unat a + unat (max sz 1) \<le> unat b) (zip as reqs) \<and>
    (\<forall>(a, sz, k) \<in> set (zip as reqs). 2 ^ k dvd unat a \<and>
       unat (bump_base (heap m)) \<le> unat a \<and> unat a + unat (max sz 1) \<le> unat (bump_limit (heap m)) \<and>
       is_ok (mem_read m' a (unat (max sz 1))) \<and>
       (\<forall>d. length d = unat (max sz 1) \<longrightarrow> is_ok (mem_write m' a d)))"
proof -
  have "mem_wf m' \<and> bump_base (heap m') = bump_base (heap m)" using assms
  proof (induction m reqs arbitrary: as m' rule: heap_allocs.induct)
    case (2 m sz k reqs)
    then obtain a m1 as1 where s: "heap_alloc m sz (2 ^ k) = Ok (a, m1)"
      "heap_allocs m1 reqs = Ok (as1, m')" "k < 64" "\<forall>(sz, k) \<in> set reqs. k < 64"
      by (auto simp: result_simps)
    note h = heap_alloc_Ok [OF "2.prems"(2) s(3,1)]
    from "2.IH" [OF s(1) refl mem_wf_heap_alloc [OF "2.prems"(1) s(1)] h(1) s(2,4)] h(8)
    show ?case by simp
  qed simp
  then have wf': "mem_wf m'" and base: "bump_base (heap m') = bump_base (heap m)" by auto
  have cur: "unat (bump_base (heap m)) \<le> unat (bump_cursor (heap m))"
    using assms(2) by (simp add: heap_wf_def Let_def word_le_nat_alt)
  note b = heap_allocs_bounds [OF assms(2-4)]
  have "is_ok (mem_read m' a (unat (max sz 1)))"
    "length d = unat (max sz 1) \<Longrightarrow> is_ok (mem_write m' a d)"
    "unat (bump_base (heap m)) \<le> unat a"
    if "(a, sz, k) \<in> set (zip as reqs)" for a sz k d
  proof -
    have in_arena: "unat (bump_base (heap m)) \<le> unat a"
      "unat a + unat (max sz 1) \<le> unat (bump_limit (heap m))"
      using b that cur by fastforce+
    have "0 < unat (max sz 1)"
    proof -
      have "(1 :: u64) \<le> max sz 1" by simp
      then show ?thesis by (simp only: word_le_nat_alt) simp
    qed
    then show "is_ok (mem_read m' a (unat (max sz 1)))"
      "length d = unat (max sz 1) \<Longrightarrow> is_ok (mem_write m' a d)"
      using heap_block_access [OF wf', of a] b in_arena base by auto
    show "unat (bump_base (heap m)) \<le> unat a" by (rule in_arena(1))
  qed
  with b show ?thesis by fastforce
qed

theorem heap_allocs_blocks_witness:
  "\<exists>m'. heap_allocs sample_mem [(1, 0), (3, 2)] = Ok ([0x1000, 0x1004], m') \<and>
     is_ok (mem_write m' 0x1004 [1, 2, 3])"
proof -
  obtain m' where ok: "heap_allocs sample_mem [(1, 0), (3, 2)] = Ok ([0x1000, 0x1004], m')"
    by (simp add: sample_mem_def heap_alloc_def bump_alloc_def align_up_def checked_add_def max_def word_le_nat_alt
        Let_def)
  from heap_allocs_blocks [OF sample_mem_wf ok] have "is_ok (mem_write m' 0x1004 [1, 2, 3])"
    by (simp add: max_def word_le_nat_alt)
  with ok show ?thesis by blast
qed

end
