(* ===== verification/Vfs.thy ===== *)
theory Vfs
  imports Common
begin

text \<open>
  The crate \<open>vfs\<close>: lexical path normalisation (\<open>translate.rs\<close>) and the per-application sandbox
  (\<open>sandbox.rs\<close>), which maps guest paths to host paths.  Creating directories is an effect on the
  host: \<open>prepare\<close> takes the host's \<open>create_dir_all\<close> as an argument and threads the host state.

  The lemmas show that a translated path is the base directory followed by clean components, so that
  it cannot name anything outside the base, and relate the stack algorithm of the source to a
  right-to-left reference with a counter.
\<close>

section \<open>Normalisation\<close>

datatype translation_error = Escape | Malformed

fun translation_error_display :: "translation_error \<Rightarrow> string" where
  "translation_error_display Escape = ''path escapes sandbox''"
| "translation_error_display Malformed = ''malformed path''"

text \<open>The loop body; the accumulator is the output vector in reverse.\<close>

fun normalize_loop :: "string list \<Rightarrow> string list \<Rightarrow> (string list, translation_error) rust_result" where
  "normalize_loop out [] = Ok (rev out)"
| "normalize_loop out (c # cs) =
     (if c = '''' \<or> c = ''.'' then normalize_loop out cs
      else if c = ''..'' then
        (case out of [] \<Rightarrow> Err Escape | _ # out' \<Rightarrow> normalize_loop out' cs)
      else if CHR 0x00 \<in> set c then Err Malformed
      else normalize_loop (c # out) cs)"

definition normalize_ios_path :: "string \<Rightarrow> (string list, translation_error) rust_result" where
  "normalize_ios_path path =
     (if path = '''' then Err Malformed else normalize_loop [] (split_char (CHR ''/'') path))"

section \<open>The sandbox\<close>

record sandbox_layout =
  bundle_dir :: string
  documents :: string
  library_dir :: string
  caches :: string
  preferences :: string
  tmp_dir :: string

record sandbox =
  host_root :: string
  ios_prefix :: string
  sb_uuid :: string
  layout :: sandbox_layout
  system_root :: string

text \<open>The characters replaced are ASCII, so mapping characters and mapping bytes agree.\<close>

definition sanitize_component :: "string \<Rightarrow> string" where
  "sanitize_component name =
     (let cleaned = map (\<lambda>c. if c = CHR ''/'' \<or> c = CHR 0x5C \<or> c = CHR 0x00 then CHR ''_'' else c) name
      in if cleaned = '''' \<or> cleaned = ''.'' \<or> cleaned = ''..'' then ''App'' else cleaned)"

fun create_dirs ::
    "('w \<Rightarrow> string \<Rightarrow> 'w \<times> (unit, io_kind) rust_result) \<Rightarrow> 'w \<Rightarrow> string list \<Rightarrow> 'w \<times> unit emu_result" where
  "create_dirs create_dir_all w [] = (w, Ok ())"
| "create_dirs create_dir_all w (d # ds) =
     (case create_dir_all w d of
        (w', Ok _) \<Rightarrow> create_dirs create_dir_all w' ds
      | (w', Err e) \<Rightarrow> (w', Err (Io e))
      | (w', Panic) \<Rightarrow> (w', Panic))"

definition prepare_layout :: "string \<Rightarrow> string \<Rightarrow> sandbox_layout" where
  "prepare_layout root app_name =
     (let bundle_name = sanitize_component app_name @ ''.app''
      in \<lparr>bundle_dir = path_join root bundle_name,
          documents = path_join root ''Documents'',
          library_dir = path_join root ''Library'',
          caches = path_join (path_join root ''Library'') ''Caches'',
          preferences = path_join (path_join root ''Library'') ''Preferences'',
          tmp_dir = path_join root ''tmp''\<rparr>)"

definition prepare ::
    "('w \<Rightarrow> string \<Rightarrow> 'w \<times> (unit, io_kind) rust_result) \<Rightarrow> 'w \<Rightarrow> string \<Rightarrow> string \<Rightarrow> string \<Rightarrow> string
     \<Rightarrow> 'w \<times> sandbox emu_result" where
  "prepare create_dir_all w containers_root sys_root app_name uuid =
     (let root = path_join (path_join containers_root ''Applications'') uuid;
          lay = prepare_layout root app_name;
          (w', r) = create_dirs create_dir_all w
             [bundle_dir lay, documents lay, caches lay, preferences lay, tmp_dir lay]
      in (w', and_then r (\<lambda>_.
            Ok \<lparr>host_root = root, ios_prefix = ''/var/mobile/Applications/'' @ uuid, sb_uuid = uuid,
                layout = lay, system_root = sys_root\<rparr>)))"

definition bundle_ios_path :: "sandbox \<Rightarrow> string" where
  "bundle_ios_path sb =
     (let name = (case path_file_name (bundle_dir (layout sb)) of None \<Rightarrow> ''App.app'' | Some s \<Rightarrow> s)
      in ios_prefix sb @ ''/'' @ name)"

definition strip_prefix_dir :: "string \<Rightarrow> string \<Rightarrow> string option" where
  "strip_prefix_dir path pre =
     (case strip_prefix pre path of
        None \<Rightarrow> None
      | Some rest \<Rightarrow> if rest = '''' then Some '''' else strip_prefix ''/'' rest)"

definition join_checked :: "string \<Rightarrow> string \<Rightarrow> string emu_result" where
  "join_checked base rest =
     and_then
       (map_err (\<lambda>e. case e of Escape \<Rightarrow> Vfs (''sandbox escape: '' @ rest)
                            | Malformed \<Rightarrow> Vfs (''bad path: '' @ rest))
          (normalize_ios_path rest))
       (\<lambda>comps. Ok (foldl path_join base comps))"

definition ro_trees :: "string list" where
  "ro_trees = [''/System'', ''/usr'', ''/Library'', ''/private/var/db'', ''/Applications'']"

fun translate_ro :: "sandbox \<Rightarrow> string \<Rightarrow> string \<Rightarrow> string list \<Rightarrow> (string \<times> bool) emu_result" where
  "translate_ro sb ios_path absolute [] = Err (Vfs (''path outside sandbox: '' @ ios_path))"
| "translate_ro sb ios_path absolute (ro # ros) =
     (case strip_prefix_dir absolute ro of
        Some rest \<Rightarrow>
          and_then (join_checked (path_join (system_root sb) (dropWhile (\<lambda>c. c = CHR ''/'') ro)) rest)
            (\<lambda>host. Ok (host, True))
      | None \<Rightarrow> translate_ro sb ios_path absolute ros)"

definition sb_absolute :: "sandbox \<Rightarrow> string \<Rightarrow> string" where
  "sb_absolute sb ios_path =
     (let path = trim ios_path
      in if prefix ''/'' path then path else bundle_ios_path sb @ ''/'' @ path)"

definition translate :: "sandbox \<Rightarrow> string \<Rightarrow> (string \<times> bool) emu_result" where
  "translate sb ios_path =
     (let absolute = sb_absolute sb ios_path
      in case strip_prefix_dir absolute (ios_prefix sb) of
           Some rest \<Rightarrow> and_then (join_checked (host_root sb) rest) (\<lambda>host. Ok (host, False))
         | None \<Rightarrow> translate_ro sb ios_path absolute ro_trees)"

section \<open>Clean components\<close>

definition clean_comp :: "string \<Rightarrow> bool" where
  "clean_comp c \<longleftrightarrow> c \<noteq> '''' \<and> c \<noteq> ''.'' \<and> c \<noteq> ''..'' \<and> CHR 0x00 \<notin> set c \<and> CHR ''/'' \<notin> set c"

lemma normalize_loop_clean:
  assumes "normalize_loop out cs = Ok comps" and "\<forall>c \<in> set out. clean_comp c"
    and "\<forall>c \<in> set cs. CHR ''/'' \<notin> set c"
  shows "\<forall>c \<in> set comps. clean_comp c"
  using assms
proof (induction out cs rule: normalize_loop.induct)
  case (2 out c cs)
  have "c \<noteq> '''' \<Longrightarrow> c \<noteq> ''.'' \<Longrightarrow> c \<noteq> ''..'' \<Longrightarrow> clean_comp c"
    using "2.prems"(1,3) by (simp add: clean_comp_def split: if_splits)
  then consider "c = '''' \<or> c = ''.''" | "c = ''..''" | "clean_comp c" by blast
  then show ?case
  proof cases
    case 1
    then have "normalize_loop out cs = Ok comps" using "2.prems"(1) by auto
    from "2.IH"(1) [OF 1 this] "2.prems"(2,3) show ?thesis by simp
  next
    case dots: 2
    with "2.prems"(1) obtain o1 out' where out: "out = o1 # out'" by (cases out) auto
    with dots "2.prems"(1) have "normalize_loop out' cs = Ok comps" by simp
    from "2.IH"(2) [OF _ dots out this] dots out "2.prems"(2,3) show ?thesis by simp
  next
    case clean: 3
    then have nc: "\<not> (c = '''' \<or> c = ''.'')" "c \<noteq> ''..''" "CHR 0x00 \<notin> set c"
      by (simp_all add: clean_comp_def)
    then have "normalize_loop (c # out) cs = Ok comps" using "2.prems"(1) by simp
    from "2.IH"(3) [OF nc this] clean "2.prems"(2,3) show ?thesis by simp
  qed
qed auto

lemma normalize_clean: "normalize_ios_path p = Ok comps \<Longrightarrow> c \<in> set comps \<Longrightarrow> clean_comp c"
  using normalize_loop_clean [of "[]" "split_char (CHR ''/'') p"] split_char_components [of _ "CHR ''/''" p]
  by (auto simp: normalize_ios_path_def split: if_splits)

lemma normalize_loop_no_panic: "normalize_loop out cs \<noteq> Panic"
  by (induction out cs rule: normalize_loop.induct) (auto split: list.splits)

lemma normalize_no_panic [simp]: "normalize_ios_path p \<noteq> Panic"
  by (simp add: normalize_ios_path_def normalize_loop_no_panic)

lemma normalize_loop_clean_run:
  "\<forall>c \<in> set cs. clean_comp c \<Longrightarrow> normalize_loop out cs = Ok (rev out @ cs)"
  by (induction cs arbitrary: out) (auto simp: clean_comp_def)

text \<open>A directory as the code builds them: not empty and without a trailing separator.\<close>

definition dir_path :: "string \<Rightarrow> bool" where
  "dir_path d \<longleftrightarrow> d \<noteq> '''' \<and> last d \<noteq> CHR ''/''"

lemma path_join_clean: "dir_path d \<Longrightarrow> clean_comp c \<Longrightarrow> path_join d c = d @ ''/'' @ c"
  by (auto simp: path_join_def dir_path_def clean_comp_def prefix_def)

lemma dir_path_clean:
  assumes "clean_comp c"
  shows "dir_path (d @ ''/'' @ c)"
proof -
  have "c \<noteq> ''''" "last c \<noteq> CHR ''/''" using assms last_in_set by (metis clean_comp_def)+
  then show ?thesis by (simp add: dir_path_def)
qed

lemma foldl_path_join:
  "dir_path d \<Longrightarrow> \<forall>c \<in> set cs. clean_comp c \<Longrightarrow>
   foldl path_join d cs = d @ concat (map (\<lambda>c. ''/'' @ c) cs)"
proof (induction cs arbitrary: d)
  case (Cons c cs)
  then show ?case using Cons.IH [OF dir_path_clean [of c d]] by (simp add: path_join_clean)
qed simp

lemma split_char_comps:
  "\<forall>c \<in> set cs. clean_comp c \<Longrightarrow>
   split_char (CHR ''/'') (d @ concat (map (\<lambda>c. ''/'' @ c) cs)) = split_char (CHR ''/'') d @ cs"
proof (induction cs arbitrary: d)
  case (Cons c cs)
  have "split_char (CHR ''/'') (d @ concat (map (\<lambda>c. ''/'' @ c) (c # cs))) =
      split_char (CHR ''/'') ((d @ ''/'' @ c) @ concat (map (\<lambda>c. ''/'' @ c) cs))" by simp
  also have "\<dots> = split_char (CHR ''/'') (d @ CHR ''/'' # c) @ cs"
    using Cons.IH [of "d @ ''/'' @ c"] Cons.prems by simp
  also have "\<dots> = split_char (CHR ''/'') d @ c # cs"
    using Cons.prems by (simp add: split_char_append_sep split_char_no_sep clean_comp_def)
  finally show ?case .
qed simp

section \<open>A right-to-left reference for normalisation\<close>

text \<open>
  Reading the components from the end, a counter holds how many names the \<open>..\<close> components seen so far
  will remove; a name is kept when the counter is zero.
\<close>

definition is_name :: "string \<Rightarrow> bool" where
  "is_name c \<longleftrightarrow> c \<noteq> '''' \<and> c \<noteq> ''.'' \<and> c \<noteq> ''..''"

fun survivors :: "nat \<Rightarrow> string list \<Rightarrow> string list" where
  "survivors n [] = []"
| "survivors n (c # cs) =
     (if c = ''..'' then survivors (Suc n) cs
      else if is_name c then (if n = 0 then c # survivors 0 cs else survivors (n - 1) cs)
      else survivors n cs)"

definition resolve_lexically :: "string list \<Rightarrow> string list" where
  "resolve_lexically cs = rev (survivors 0 (rev cs))"

definition never_above_root :: "nat \<Rightarrow> string list \<Rightarrow> bool" where
  "never_above_root d cs \<longleftrightarrow>
     (\<forall>k. length (filter (\<lambda>c. c = ''..'') (take k cs)) \<le> d + length (filter is_name (take k cs)))"

lemma never_above_root_Nil [simp]: "never_above_root d []"
  by (simp add: never_above_root_def)

lemma never_above_root_Cons:
  "never_above_root d (c # cs) \<longleftrightarrow>
     (if c = ''..'' then 0 < d \<and> never_above_root (d - 1) cs
      else if is_name c then never_above_root (Suc d) cs
      else never_above_root d cs)"
proof -
  have all: "(\<forall>k. P k) \<longleftrightarrow> P 0 \<and> (\<forall>k. P (Suc k))" for P :: "nat \<Rightarrow> bool"
    by (metis nat.exhaust)
  have name: "\<not> is_name ''..''" by (simp add: is_name_def)
  have up: "(\<forall>k. Suc (f k) \<le> d + g k) \<longleftrightarrow> 0 < d \<and> (\<forall>k. f k \<le> (d - 1) + g k)"
    if "f 0 = 0" "g 0 = 0" for f g :: "nat \<Rightarrow> nat"
  proof
    assume a: "\<forall>k. Suc (f k) \<le> d + g k"
    from a [rule_format, of 0] that have "0 < d" by simp
    moreover have "f k \<le> (d - 1) + g k" for k using a [rule_format, of k] \<open>0 < d\<close> by simp
    ultimately show "0 < d \<and> (\<forall>k. f k \<le> (d - 1) + g k)" by blast
  next
    assume a: "0 < d \<and> (\<forall>k. f k \<le> (d - 1) + g k)"
    have "Suc (f k) \<le> d + g k" for k
      using conjunct2 [OF a, rule_format, of k] conjunct1 [OF a] by simp
    then show "\<forall>k. Suc (f k) \<le> d + g k" by blast
  qed
  show ?thesis
    unfolding never_above_root_def
    by (subst all)
      (use name up [of "\<lambda>k. length (filter (\<lambda>c. c = ''..'') (take k cs))" "\<lambda>k. length (filter is_name (take k cs))"]
       in simp)
qed

lemma survivors_cancel: "is_name o1 \<Longrightarrow> survivors n (xs @ ''..'' # o1 # ys) = survivors n (xs @ ys)"
  by (induction xs arbitrary: n) (auto simp: is_name_def)

lemma survivors_skip: "\<not> is_name c \<Longrightarrow> c \<noteq> ''..'' \<Longrightarrow> survivors n (xs @ c # ys) = survivors n (xs @ ys)"
  by (induction xs arbitrary: n) auto

lemma survivors_names: "\<forall>c \<in> set xs. is_name c \<Longrightarrow> survivors 0 xs = xs"
  by (induction xs) (auto simp: is_name_def)

lemma normalize_loop_reference:
  assumes "\<forall>c \<in> set out. is_name c" and "\<forall>c \<in> set cs. CHR 0x00 \<notin> set c"
  shows "normalize_loop out cs =
    (if never_above_root (length out) cs then Ok (resolve_lexically (rev out @ cs)) else Err Escape)"
  using assms
proof (induction cs arbitrary: out)
  case Nil
  then show ?case by (simp add: resolve_lexically_def survivors_names)
next
  case (Cons c cs)
  consider (skip) "\<not> is_name c" "c \<noteq> ''..''" | (up) "c = ''..''" | (name) "is_name c" "c \<noteq> ''..''"
    by (auto simp: is_name_def)
  then show ?case
  proof cases
    case skip
    then have "normalize_loop out (c # cs) = normalize_loop out cs" by (auto simp: is_name_def)
    with skip Cons show ?thesis
      by (simp add: never_above_root_Cons resolve_lexically_def survivors_skip)
  next
    case up
    show ?thesis
    proof (cases out)
      case (Cons o1 out')
      with Cons.prems up Cons.IH [of out'] show ?thesis
        by (simp add: never_above_root_Cons resolve_lexically_def survivors_cancel)
    qed (simp add: up never_above_root_Cons)
  next
    case name
    then have "normalize_loop out (c # cs) = normalize_loop (c # out) cs"
      using Cons.prems by (auto simp: is_name_def)
    with name Cons.prems Cons.IH [of "c # out"] show ?thesis by (simp add: never_above_root_Cons)
  qed
qed

section \<open>Routing\<close>

lemma strip_prefix_dir_Some:
  "strip_prefix_dir path pre = Some rest \<longleftrightarrow> path = pre \<and> rest = '''' \<or> path = pre @ ''/'' @ rest"
proof (cases "strip_prefix pre path")
  case None
  then have no: "\<forall>t. path \<noteq> pre @ t" by (simp add: strip_prefix_None)
  then have "path \<noteq> pre" by (metis append_Nil2)
  with None no show ?thesis by (simp add: strip_prefix_dir_def)
next
  case (Some r)
  then have "strip_prefix_dir path pre = (if r = '''' then Some '''' else strip_prefix ''/'' r)"
    by (simp add: strip_prefix_dir_def)
  moreover from Some have "path = pre @ r" by (simp add: strip_prefix_Some)
  ultimately show ?thesis by (auto simp: strip_prefix_Some)
qed

lemma strip_prefix_dir_None:
  "strip_prefix_dir path pre = None \<longleftrightarrow> path \<noteq> pre \<and> (\<forall>rest. path \<noteq> pre @ ''/'' @ rest)"
  by (metis not_None_eq strip_prefix_dir_Some)

lemma join_checked_Ok:
  "join_checked base rest = Ok host \<longleftrightarrow>
     (\<exists>comps. normalize_ios_path rest = Ok comps \<and> host = foldl path_join base comps)"
  by (auto simp: join_checked_def result_simps)

lemma join_checked_no_panic [simp]: "join_checked base rest \<noteq> Panic"
  by (simp add: join_checked_def result_simps)

definition ro_base :: "sandbox \<Rightarrow> string \<Rightarrow> string" where
  "ro_base sb ro = path_join (system_root sb) (dropWhile (\<lambda>c. c = CHR ''/'') ro)"

lemma translate_ro_Ok:
  "translate_ro sb p absolute ros = Ok (host, ro) \<Longrightarrow>
   ro \<and> (\<exists>t \<in> set ros. \<exists>rest comps. strip_prefix_dir absolute t = Some rest \<and>
     normalize_ios_path rest = Ok comps \<and> host = foldl path_join (ro_base sb t) comps)"
  by (induction ros) (auto simp: result_simps join_checked_Ok ro_base_def split: option.splits)

lemma translate_ro_no_panic [simp]: "translate_ro sb p absolute ros \<noteq> Panic"
  by (induction ros) (auto simp: result_simps split: option.splits)

lemma translate_cases:
  assumes "translate sb p = Ok (host, ro)"
  obtains (container) rest comps where "\<not> ro"
    "strip_prefix_dir (sb_absolute sb p) (ios_prefix sb) = Some rest"
    "normalize_ios_path rest = Ok comps" "host = foldl path_join (host_root sb) comps"
  | (system) t rest comps where "ro" "t \<in> set ro_trees"
    "strip_prefix_dir (sb_absolute sb p) (ios_prefix sb) = None"
    "strip_prefix_dir (sb_absolute sb p) t = Some rest"
    "normalize_ios_path rest = Ok comps" "host = foldl path_join (ro_base sb t) comps"
  using assms
  by (auto simp: translate_def Let_def result_simps join_checked_Ok split: option.splits dest!: translate_ro_Ok)

lemma translate_no_panic: "translate sb p \<noteq> Panic"
  by (auto simp: translate_def Let_def result_simps split: option.splits)

lemma dir_path_ro_base:
  assumes "dir_path (system_root sb)" and "t \<in> set ro_trees"
  shows "dir_path (ro_base sb t)"
proof -
  have sub: "dir_path (path_join d s)" if "dir_path d" "\<not> prefix ''/'' s" "dir_path s" for d s
    using that by (simp add: path_join_def dir_path_def)
  have "list_all (\<lambda>t. dir_path (dropWhile (\<lambda>c. c = CHR ''/'') t) \<and>
      \<not> prefix ''/'' (dropWhile (\<lambda>c. c = CHR ''/'') t)) ro_trees"
    by code_simp
  with assms(2) have "dir_path (dropWhile (\<lambda>c. c = CHR ''/'') t) \<and>
      \<not> prefix ''/'' (dropWhile (\<lambda>c. c = CHR ''/'') t)"
    unfolding list_all_iff by blast
  with assms(1) show ?thesis unfolding ro_base_def by (blast intro: sub)
qed

definition sandbox_wf :: "sandbox \<Rightarrow> bool" where
  "sandbox_wf sb \<longleftrightarrow> dir_path (host_root sb) \<and> dir_path (system_root sb)"

lemma sanitize_component_clean: "clean_comp (sanitize_component name @ ''.app'')"
proof -
  let ?f = "\<lambda>c. if c = CHR ''/'' \<or> c = CHR 0x5C \<or> c = CHR 0x00 then CHR ''_'' else c"
  have "CHR ''/'' \<notin> set (map ?f name)" "CHR 0x00 \<notin> set (map ?f name)" by auto
  then have "CHR ''/'' \<notin> set (sanitize_component name)" "CHR 0x00 \<notin> set (sanitize_component name)"
    by (simp_all add: sanitize_component_def Let_def)
  then show ?thesis by (auto simp: clean_comp_def append_eq_Cons_conv)
qed

lemma normalize_loop_below:
  "normalize_loop out cs = Ok r \<Longrightarrow> normalize_loop (out @ pre) cs = Ok (rev pre @ r)"
  by (induction out cs arbitrary: r rule: normalize_loop.induct) (auto split: if_splits list.splits)

lemma path_file_name_join:
  assumes "dir_path d" and "clean_comp c"
  shows "path_file_name (path_join d c) = Some c"
proof -
  have "split_char (CHR ''/'') (path_join d c) = split_char (CHR ''/'') d @ [c]"
    using split_char_comps [of "[c]" d] assms by (simp add: path_join_clean)
  moreover have "path_file_name p = (let cs = filter (\<lambda>c. c \<noteq> '''' \<and> c \<noteq> ''.'') (split_char (CHR ''/'') p)
      in if cs = [] \<or> last cs = ''..'' then None else Some (last cs))" for p
    by (auto simp: path_file_name_def split: list.splits)
  ultimately show ?thesis using assms(2) by (simp add: clean_comp_def)
qed

lemma prepare_Ok:
  assumes "snd (prepare f w containers_root sys_root app_name uuid) = Ok sb"
  shows "host_root sb = path_join (path_join containers_root ''Applications'') uuid"
    and "ios_prefix sb = ''/var/mobile/Applications/'' @ uuid" and "system_root sb = sys_root"
    and "layout sb = prepare_layout (host_root sb) app_name" and "sb_uuid sb = uuid"
  using assms by (auto simp: prepare_def Let_def result_simps split: prod.splits)

lemma prepare_wf:
  assumes "snd (prepare f w containers_root sys_root app_name uuid) = Ok sb"
    and "dir_path containers_root" and "dir_path sys_root" and "clean_comp uuid"
  shows "sandbox_wf sb"
proof -
  have apps: "clean_comp ''Applications''" by (simp add: clean_comp_def)
  have "dir_path (host_root sb)"
    unfolding prepare_Ok(1) [OF assms(1)] path_join_clean [OF assms(2) apps]
    using path_join_clean [OF dir_path_clean [OF apps] assms(4)] dir_path_clean [OF assms(4)]
    by (simp only: append_assoc) (metis append_assoc)
  with assms(3) prepare_Ok(3) [OF assms(1)] show ?thesis by (simp add: sandbox_wf_def)
qed

section \<open>Properties\<close>

definition demo_sandbox :: sandbox where
  "demo_sandbox =
     \<lparr>host_root = ''/data/c/Applications/U1'', ios_prefix = ''/var/mobile/Applications/U1'', sb_uuid = ''U1'',
      layout = prepare_layout ''/data/c/Applications/U1'' ''Demo'', system_root = ''/data/sys''\<rparr>"

text \<open>
  C28. For a non-empty path without NUL bytes, the component stack of the normaliser computes the same
  as the right-to-left reference: it fails with the escape error exactly when some leading part of the
  path climbs above its start, and otherwise keeps the names no later \<open>..\<close> removes.
\<close>

theorem normalize_reference:
  assumes "p \<noteq> ''''" and "CHR 0x00 \<notin> set p"
  shows "normalize_ios_path p =
    (let cs = split_char (CHR ''/'') p
     in if never_above_root 0 cs then Ok (resolve_lexically cs) else Err Escape)"
proof -
  have "\<forall>c \<in> set (split_char (CHR ''/'') p). CHR 0x00 \<notin> set c"
    using assms(2) split_char_subset by blast
  with assms(1) show ?thesis
    using normalize_loop_reference [of "[]" "split_char (CHR ''/'') p"]
    by (simp add: normalize_ios_path_def)
qed

theorem normalize_reference_witness:
  "normalize_ios_path ''a/./b/../c'' = Ok [''a'', ''c''] \<and> normalize_ios_path ''a/../../b'' = Err Escape"
  using normalize_reference [of "''a/./b/../c''"] normalize_reference [of "''a/../../b''"]
  by (simp add: never_above_root_Cons resolve_lexically_def is_name_def Let_def)

text \<open>
  C3. Containment: a translated path is a fixed base directory followed by clean components only (no
  empty one, no \<open>.\<close>, no \<open>..\<close>, no separator, no NUL), so it names something under that base.  The base
  is the container when the guest path lies under the container prefix; otherwise it is one of the trees
  of the system image, and then the result is marked read-only.  So whatever the guest may write lies in
  the container.  Nothing is claimed of the mark inside the container: the module comment wants the
  application bundle there read-only, which \<open>translate\<close> does not enforce.
\<close>

theorem translate_contained:
  assumes "sandbox_wf sb" and "translate sb p = Ok (host, ro)"
  shows "\<exists>base comps. host = base @ concat (map (\<lambda>c. ''/'' @ c) comps) \<and> (\<forall>c \<in> set comps. clean_comp c) \<and>
    split_char (CHR ''/'') host = split_char (CHR ''/'') base @ comps \<and>
    (if strip_prefix_dir (sb_absolute sb p) (ios_prefix sb) = None then base \<in> ro_base sb ` set ro_trees \<and> ro
     else base = host_root sb)"
  using assms(2)
proof (cases rule: translate_cases)
  case (container rest comps)
  have "\<forall>c \<in> set comps. clean_comp c" using normalize_clean [OF container(3)] by blast
  with container assms(1) show ?thesis
    using foldl_path_join [of "host_root sb" comps] split_char_comps [of comps "host_root sb"]
    by (intro exI [of _ "host_root sb"] exI [of _ comps]) (simp add: sandbox_wf_def)
next
  case (system t rest comps)
  have "\<forall>c \<in> set comps. clean_comp c" using normalize_clean [OF system(5)] by blast
  with system assms(1) show ?thesis
    using foldl_path_join [of "ro_base sb t" comps] split_char_comps [of comps "ro_base sb t"]
      dir_path_ro_base [of sb t]
    by (intro exI [of _ "ro_base sb t"] exI [of _ comps]) (simp add: sandbox_wf_def)
qed

lemma demo_sandbox_wf: "sandbox_wf demo_sandbox"
  by (simp add: sandbox_wf_def demo_sandbox_def dir_path_def)

lemma demo_absolute:
  "sb_absolute demo_sandbox ''/usr/lib/../x'' = ''/usr/lib/../x''"
  "sb_absolute demo_sandbox ''/var/mobile/Applications/U1'' = ios_prefix demo_sandbox"
  by (simp_all add: sb_absolute_def trim_graphic graphic_def char_byte_def demo_sandbox_def)

theorem translate_contained_witness:
  "translate demo_sandbox ''/usr/lib/../x'' = Ok (''/data/sys/usr/x'', True) \<and>
   (\<exists>base comps. ''/data/sys/usr/x'' = base @ concat (map (\<lambda>c. ''/'' @ c) comps) \<and>
      (\<forall>c \<in> set comps. clean_comp c) \<and> base \<in> ro_base demo_sandbox ` set ro_trees)"
proof -
  have "translate demo_sandbox ''/usr/lib/../x'' = Ok (''/data/sys/usr/x'', True)"
    unfolding translate_def Let_def demo_absolute
    by (simp add: demo_sandbox_def strip_prefix_dir_def strip_prefix_def ro_trees_def join_checked_def
        normalize_ios_path_def path_join_def)
  moreover have "strip_prefix_dir (sb_absolute demo_sandbox ''/usr/lib/../x'') (ios_prefix demo_sandbox) = None"
    unfolding demo_absolute by (simp add: demo_sandbox_def strip_prefix_dir_def strip_prefix_def)
  ultimately show ?thesis using translate_contained [OF demo_sandbox_wf, of "''/usr/lib/../x''" _ True] by auto
qed

text \<open>
  In a prepared sandbox a relative guest path that stays below its start resolves inside the
  application bundle: the host path is the bundle directory followed by the path's components.
\<close>

theorem translate_relative_in_bundle:
  assumes "snd (prepare f w containers_root sys_root app_name uuid) = Ok sb"
    and "dir_path containers_root" and "dir_path sys_root" and "clean_comp uuid"
    and "\<not> prefix ''/'' (trim p)" and "normalize_ios_path (trim p) = Ok comps"
  shows "translate sb p = Ok (foldl path_join (bundle_dir (layout sb)) comps, False)"
proof -
  note sb = prepare_Ok [OF assms(1)]
  let ?b = "sanitize_component app_name @ ''.app''"
  have wf: "dir_path (host_root sb)" using prepare_wf [OF assms(1-4)] by (simp add: sandbox_wf_def)
  have bdir: "bundle_dir (layout sb) = path_join (host_root sb) ?b"
    by (simp add: sb(4) prepare_layout_def Let_def)
  have "bundle_ios_path sb = ios_prefix sb @ ''/'' @ ?b"
    using path_file_name_join [OF wf sanitize_component_clean]
    by (simp add: bundle_ios_path_def bdir)
  then have "sb_absolute sb p = ios_prefix sb @ ''/'' @ ?b @ ''/'' @ trim p"
    using assms(5) by (simp add: sb_absolute_def)
  then have strip: "strip_prefix_dir (sb_absolute sb p) (ios_prefix sb) = Some (?b @ ''/'' @ trim p)"
    by (simp only: strip_prefix_dir_Some) simp
  have "split_char (CHR ''/'') (?b @ ''/'' @ trim p) = ?b # split_char (CHR ''/'') (trim p)"
    using sanitize_component_clean [of app_name] split_char_append_sep [of "CHR ''/''" ?b "trim p"]
      split_char_no_sep [of "CHR ''/''" ?b] by (simp add: clean_comp_def)
  then have "normalize_ios_path (?b @ ''/'' @ trim p) = normalize_loop [?b] (split_char (CHR ''/'') (trim p))"
    using sanitize_component_clean [of app_name] by (simp add: normalize_ios_path_def clean_comp_def)
  also have "\<dots> = Ok (?b # comps)"
    using normalize_loop_below [of "[]" _ comps "[?b]"] assms(6)
    by (simp add: normalize_ios_path_def split: if_splits)
  finally show ?thesis
    using strip by (simp add: translate_def Let_def join_checked_def bdir)
qed

definition no_host :: "unit \<Rightarrow> string \<Rightarrow> unit \<times> (unit, io_kind) rust_result" where
  "no_host w d = (w, Ok ())"

theorem translate_relative_in_bundle_witness:
  "translate (the_ok (snd (prepare no_host () ''/data/c'' ''/data/sys'' ''Demo'' ''U1''))) ''Info.plist'' =
   Ok (''/data/c/Applications/U1/Demo.app/Info.plist'', False)"
proof -
  let ?sb = "the_ok (snd (prepare no_host () ''/data/c'' ''/data/sys'' ''Demo'' ''U1''))"
  have ok: "snd (prepare no_host () ''/data/c'' ''/data/sys'' ''Demo'' ''U1'') = Ok ?sb"
    by (simp add: prepare_def no_host_def Let_def)
  have "trim ''Info.plist'' = ''Info.plist''" by (simp add: trim_graphic graphic_def char_byte_def)
  then have "normalize_ios_path (trim ''Info.plist'') = Ok [''Info.plist'']" "\<not> prefix ''/'' (trim ''Info.plist'')"
    by (simp_all add: normalize_ios_path_def)
  from translate_relative_in_bundle [OF ok _ _ _ this(2,1)]
  have "translate ?sb ''Info.plist'' = Ok (foldl path_join (bundle_dir (layout ?sb)) [''Info.plist''], False)"
    by (simp add: dir_path_def clean_comp_def)
  moreover have "foldl path_join (bundle_dir (layout ?sb)) [''Info.plist''] =
      ''/data/c/Applications/U1/Demo.app/Info.plist''"
    unfolding prepare_Ok(4) [OF ok] prepare_Ok(1) [OF ok]
    by (simp add: path_join_def prepare_layout_def sanitize_component_def Let_def)

  ultimately show ?thesis by simp
qed

text \<open>
  The mount point of the container itself cannot be translated: the remainder after the prefix is
  empty, and the normaliser rejects empty paths.  The same holds for the root of every system tree that
  does not lie in the container.
\<close>

theorem translate_mount_point_rejected:
  assumes "sb_absolute sb p = ios_prefix sb \<or>
    sb_absolute sb p = ''/usr'' \<and> strip_prefix_dir ''/usr'' (ios_prefix sb) = None"
  shows "translate sb p = Err (Vfs ''bad path: '')"
proof -
  have bad: "join_checked base '''' = Err (Vfs ''bad path: '')" for base
    by (simp add: join_checked_def normalize_ios_path_def)
  have "strip_prefix_dir (ios_prefix sb) (ios_prefix sb) = Some ''''"
    by (simp only: strip_prefix_dir_Some) simp
  moreover have "translate_ro sb p ''/usr'' ro_trees = Err (Vfs ''bad path: '')"
    using bad by (simp add: ro_trees_def strip_prefix_dir_def strip_prefix_def)
  ultimately show ?thesis using assms bad by (auto simp: translate_def Let_def)
qed

theorem translate_mount_point_rejected_witness:
  "translate demo_sandbox ''/var/mobile/Applications/U1'' = Err (Vfs ''bad path: '')"
proof -
  from demo_absolute(2) show ?thesis by (intro translate_mount_point_rejected) simp
qed

end
