(* ===== verification/Macho_Reader.thy ===== *)
theory Macho_Reader
  imports Common
begin

text \<open>
  \<open>loader/src/macho/reader.rs\<close>: the bounds-checked cursor every on-disk structure is parsed through.
  A parser takes the reader and returns the value with the advanced reader; on an error the caller
  gives up, so the reader of the failed call is not observable.  Positions are natural numbers: they
  never exceed the length of the slice (\<open>rd_wf\<close>), so the additions the source leaves unchecked cannot
  overflow.
\<close>

record reader =
  rd_data :: "u8 list"
  rd_pos :: nat

type_synonym 'a parser = "reader \<Rightarrow> ('a \<times> reader) emu_result"

definition reader_new :: "u8 list \<Rightarrow> reader" where
  "reader_new data = \<lparr>rd_data = data, rd_pos = 0\<rparr>"

definition reader_at :: "u8 list \<Rightarrow> nat \<Rightarrow> reader emu_result" where
  "reader_at data off =
     (if length data < off then Err (MachO (''offset '' @ fmt_hex off @ '' past end''))
      else Ok \<lparr>rd_data = data, rd_pos = off\<rparr>)"

definition rd_seek :: "nat \<Rightarrow> reader \<Rightarrow> reader emu_result" where
  "rd_seek off r =
     (if length (rd_data r) < off then Err (MachO (''seek '' @ fmt_hex off @ '' past end''))
      else Ok (r\<lparr>rd_pos := off\<rparr>))"

definition rd_skip :: "nat \<Rightarrow> reader \<Rightarrow> reader emu_result" where
  "rd_skip n r =
     and_then (ok_or (MachO ''skip overflow'') (checked_add_usize (rd_pos r) n)) (\<lambda>off. rd_seek off r)"

definition rd_remaining :: "reader \<Rightarrow> nat" where
  "rd_remaining r = length (rd_data r) - rd_pos r"

definition rd_take :: "nat \<Rightarrow> u8 list parser" where
  "rd_take n r =
     and_then (ok_or (MachO ''read overflow'') (checked_add_usize (rd_pos r) n)) (\<lambda>e.
       if length (rd_data r) < e
       then Err (MachO (''truncated: need '' @ fmt_dec n @ '' bytes at '' @ fmt_hex (rd_pos r) @
              '', have '' @ fmt_dec (length (rd_data r) - rd_pos r)))
       else and_then (slice_index (rd_data r) (rd_pos r) e) (\<lambda>s. Ok (s, r\<lparr>rd_pos := e\<rparr>)))"

definition rd_u8 :: "u8 parser" where
  "rd_u8 r = and_then (rd_take 1 r) (\<lambda>(s, r). Ok (s ! 0, r))"

definition rd_u16_le :: "u16 parser" where
  "rd_u16_le r = and_then (rd_take 2 r) (\<lambda>(s, r). Ok (from_le_bytes s, r))"

definition rd_u32_le :: "u32 parser" where
  "rd_u32_le r = and_then (rd_take 4 r) (\<lambda>(s, r). Ok (from_le_bytes s, r))"

definition rd_u64_le :: "u64 parser" where
  "rd_u64_le r = and_then (rd_take 8 r) (\<lambda>(s, r). Ok (from_le_bytes s, r))"

definition rd_u32_be :: "u32 parser" where
  "rd_u32_be r = and_then (rd_take 4 r) (\<lambda>(s, r). Ok (from_be_bytes s, r))"

definition rd_u64_be :: "u64 parser" where
  "rd_u64_be r = and_then (rd_take 8 r) (\<lambda>(s, r). Ok (from_be_bytes s, r))"

text \<open>\<open>raw[..position of the first zero byte, or n]\<close>.\<close>

definition until_nul :: "u8 list \<Rightarrow> u8 list" where
  "until_nul raw = takeWhile (\<lambda>b. b \<noteq> 0) raw"

definition rd_fixed_str :: "nat \<Rightarrow> string parser" where
  "rd_fixed_str n r = and_then (rd_take n r) (\<lambda>(raw, r). Ok (from_utf8_lossy (until_nul raw), r))"

definition rd_bytes :: "nat \<Rightarrow> u8 list parser" where
  "rd_bytes n r = rd_take n r"

definition rd_peek_u32_le :: "reader \<Rightarrow> u32 emu_result" where
  "rd_peek_u32_le r =
     (if length (rd_data r) < rd_pos r + 4 then Err (MachO ''peek past end'')
      else and_then (slice_index (rd_data r) (rd_pos r) (rd_pos r + 4)) (\<lambda>s. Ok (from_le_bytes s)))"

section \<open>Bounds\<close>

definition rd_wf :: "reader \<Rightarrow> bool" where
  "rd_wf r \<longleftrightarrow> rd_pos r \<le> length (rd_data r)"

text \<open>
  What every parser of this component promises: it never panics, and on success it stays in the slice,
  keeps the slice and does not move backwards.
\<close>

definition safe_parser :: "'a parser \<Rightarrow> bool" where
  "safe_parser p \<longleftrightarrow> (\<forall>r. p r \<noteq> Panic \<and>
     (\<forall>x r'. p r = Ok (x, r') \<longrightarrow> (rd_wf r \<longrightarrow> rd_wf r') \<and> rd_data r' = rd_data r \<and> rd_pos r \<le> rd_pos r'))"

named_theorems safe_parsers \<open>parsers that stay in bounds\<close>

lemma safe_parserI:
  "(\<And>r. p r \<noteq> Panic) \<Longrightarrow>
   (\<And>r x r'. p r = Ok (x, r') \<Longrightarrow> (rd_wf r \<longrightarrow> rd_wf r') \<and> rd_data r' = rd_data r \<and> rd_pos r \<le> rd_pos r') \<Longrightarrow>
   safe_parser p"
  by (simp add: safe_parser_def)

lemma safe_parser_no_panic: "safe_parser p \<Longrightarrow> p r \<noteq> Panic"
  by (simp add: safe_parser_def)

lemma safe_parser_wf:
  "safe_parser p \<Longrightarrow> p r = Ok (x, r') \<Longrightarrow> (rd_wf r \<longrightarrow> rd_wf r') \<and> rd_data r' = rd_data r \<and> rd_pos r \<le> rd_pos r'"
  by (auto simp: safe_parser_def)

lemma safe_parser_Ok [safe_parsers]: "safe_parser (\<lambda>r. Ok (x, r))"
  by (simp add: safe_parser_def)

lemma safe_parser_return: "safe_parser p \<Longrightarrow> safe_parser (\<lambda>r. and_then (p r) (\<lambda>(x, r). Ok (f x, r)))"
  by (rule safe_parserI) (auto simp: result_simps dest: safe_parser_no_panic safe_parser_wf)

lemma safe_parser_bind [safe_parsers]:
  assumes "safe_parser p" and "\<And>x. safe_parser (q x)"
  shows "safe_parser (\<lambda>r. and_then (p r) (\<lambda>(x, r'). q x r'))"
proof (rule safe_parserI)
  fix r
  show "and_then (p r) (\<lambda>(x, r'). q x r') \<noteq> Panic"
    using safe_parser_no_panic [OF assms(1)] safe_parser_no_panic [OF assms(2)] by (auto simp: result_simps)
next
  fix r y r2
  assume "and_then (p r) (\<lambda>(x, r'). q x r') = Ok (y, r2)"
  then obtain x r1 where "p r = Ok (x, r1)" "q x r1 = Ok (y, r2)" by (auto simp: result_simps)
  from safe_parser_wf [OF assms(1) this(1)] safe_parser_wf [OF assms(2) this(2)]
  show "(rd_wf r \<longrightarrow> rd_wf r2) \<and> rd_data r2 = rd_data r \<and> rd_pos r \<le> rd_pos r2" by auto
qed

lemma safe_rd_take [safe_parsers]: "safe_parser (rd_take n)"
  by (rule safe_parserI) (auto simp: rd_take_def rd_wf_def result_simps split: if_splits)

lemma safe_rd_prims [safe_parsers]:
  "safe_parser rd_u8" "safe_parser rd_u16_le" "safe_parser rd_u32_le" "safe_parser rd_u64_le"
  "safe_parser rd_u32_be" "safe_parser rd_u64_be" "safe_parser (rd_fixed_str n)" "safe_parser (rd_bytes n)"
  unfolding rd_u8_def [abs_def] rd_u16_le_def [abs_def] rd_u32_le_def [abs_def] rd_u64_le_def [abs_def]
    rd_u32_be_def [abs_def] rd_u64_be_def [abs_def] rd_fixed_str_def [abs_def] rd_bytes_def [abs_def]
  by (rule safe_parser_return safe_rd_take)+

lemma rd_skip_no_panic [simp]: "rd_skip n r \<noteq> Panic"
  by (auto simp: rd_skip_def rd_seek_def result_simps)

lemma reader_at_no_panic [simp]: "reader_at data off \<noteq> Panic"
  by (simp add: reader_at_def)

lemma reader_at_Ok: "reader_at data off = Ok r \<longleftrightarrow> off \<le> length data \<and> r = \<lparr>rd_data = data, rd_pos = off\<rparr>"
  by (auto simp: reader_at_def)

text \<open>Reading a field that lies at the cursor.\<close>

definition rd_rest :: "reader \<Rightarrow> u8 list" where
  "rd_rest r = drop (rd_pos r) (rd_data r)"

lemma rd_take_rest:
  assumes "rd_rest r = bs @ rest" and "length bs = n" and "length (rd_data r) < 2 ^ 64" and "0 < n"
  shows "rd_take n r = Ok (bs, r\<lparr>rd_pos := rd_pos r + n\<rparr>)" and "rd_rest (r\<lparr>rd_pos := rd_pos r + n\<rparr>) = rest"
proof -
  have "length (drop (rd_pos r) (rd_data r)) = n + length rest" using assms(1,2) by (simp add: rd_rest_def)
  then have "rd_pos r + n \<le> length (rd_data r)" using assms(4) by simp
  moreover have "take n (drop (rd_pos r) (rd_data r)) = bs" using assms(1,2) by (simp add: rd_rest_def)
  ultimately show "rd_take n r = Ok (bs, r\<lparr>rd_pos := rd_pos r + n\<rparr>)"
    using assms(3) by (simp add: rd_take_def checked_add_usize_def slice_index_def slice_get_def)
  have "drop n (drop (rd_pos r) (rd_data r)) = rest" using assms(1,2) by (simp add: rd_rest_def)
  then show "rd_rest (r\<lparr>rd_pos := rd_pos r + n\<rparr>) = rest" by (simp add: rd_rest_def add.commute)
qed

end
