(* ===== verification/Macho_Image.thy ===== *)
theory Macho_Image
  imports Macho_Reader
begin

text \<open>
  \<open>loader/src/macho/consts.rs\<close> and \<open>loader/src/macho/image.rs\<close>: the description of an arm64 Mach-O
  image and its parser.  The methods that fill the image in place return the new image.
\<close>

section \<open>Constants\<close>

definition MH_MAGIC_64 :: u32 where "MH_MAGIC_64 = 0xfeedfacf"
definition MH_CIGAM_64 :: u32 where "MH_CIGAM_64 = 0xcffaedfe"
definition FAT_MAGIC :: u32 where "FAT_MAGIC = 0xcafebabe"
definition FAT_MAGIC_64 :: u32 where "FAT_MAGIC_64 = 0xcafebabf"
definition CPU_ARCH_ABI64 :: u32 where "CPU_ARCH_ABI64 = 0x01000000"
definition CPU_TYPE_ARM :: u32 where "CPU_TYPE_ARM = 12"
definition CPU_TYPE_ARM64 :: u32 where "CPU_TYPE_ARM64 = CPU_TYPE_ARM OR CPU_ARCH_ABI64"
definition CPU_SUBTYPE_ARM64E :: u32 where "CPU_SUBTYPE_ARM64E = 2"
definition MH_PIE :: u32 where "MH_PIE = 0x00200000"
definition LC_REQ_DYLD :: u32 where "LC_REQ_DYLD = 0x80000000"
definition LC_SEGMENT_64 :: u32 where "LC_SEGMENT_64 = 0x19"
definition LC_SYMTAB :: u32 where "LC_SYMTAB = 0x02"
definition LC_LOAD_DYLIB :: u32 where "LC_LOAD_DYLIB = 0x0c"
definition LC_LOAD_DYLINKER :: u32 where "LC_LOAD_DYLINKER = 0x0e"
definition LC_LOAD_WEAK_DYLIB :: u32 where "LC_LOAD_WEAK_DYLIB = 0x18 OR LC_REQ_DYLD"
definition LC_REEXPORT_DYLIB :: u32 where "LC_REEXPORT_DYLIB = 0x1f OR LC_REQ_DYLD"
definition LC_UUID :: u32 where "LC_UUID = 0x1b"
definition LC_UNIXTHREAD :: u32 where "LC_UNIXTHREAD = 0x05"
definition LC_ENCRYPTION_INFO_64 :: u32 where "LC_ENCRYPTION_INFO_64 = 0x2c"
definition LC_DYLD_INFO :: u32 where "LC_DYLD_INFO = 0x22"
definition LC_DYLD_INFO_ONLY :: u32 where "LC_DYLD_INFO_ONLY = 0x22 OR LC_REQ_DYLD"
definition LC_FUNCTION_STARTS :: u32 where "LC_FUNCTION_STARTS = 0x26"
definition LC_MAIN :: u32 where "LC_MAIN = 0x28 OR LC_REQ_DYLD"
definition LC_VERSION_MIN_IPHONEOS :: u32 where "LC_VERSION_MIN_IPHONEOS = 0x25"
definition ARM_THREAD_STATE64 :: u32 where "ARM_THREAD_STATE64 = 6"
definition ARM_THREAD_STATE64_COUNT :: u32 where "ARM_THREAD_STATE64_COUNT = 68"
definition SECTION_TYPE :: u32 where "SECTION_TYPE = 0x000000ff"
definition S_ZEROFILL :: u32 where "S_ZEROFILL = 0x1"
definition S_MOD_INIT_FUNC_POINTERS :: u32 where "S_MOD_INIT_FUNC_POINTERS = 0x9"

lemmas magic_defs = MH_MAGIC_64_def MH_CIGAM_64_def FAT_MAGIC_def FAT_MAGIC_64_def CPU_ARCH_ABI64_def
  CPU_TYPE_ARM_def CPU_TYPE_ARM64_def CPU_SUBTYPE_ARM64E_def MH_PIE_def

lemmas lc_defs = LC_REQ_DYLD_def LC_SEGMENT_64_def LC_SYMTAB_def LC_LOAD_DYLIB_def LC_LOAD_DYLINKER_def
  LC_LOAD_WEAK_DYLIB_def LC_REEXPORT_DYLIB_def LC_UUID_def LC_UNIXTHREAD_def LC_ENCRYPTION_INFO_64_def
  LC_DYLD_INFO_def LC_DYLD_INFO_ONLY_def LC_FUNCTION_STARTS_def LC_MAIN_def LC_VERSION_MIN_IPHONEOS_def

section \<open>The image\<close>

record macho_section =
  sect_seg_name :: string
  sect_name :: string
  sect_addr :: u64
  sect_size :: u64
  sect_offset :: u32
  sect_flags :: u32

record macho_segment =
  seg_name :: string
  seg_vmaddr :: u64
  seg_vmsize :: u64
  seg_fileoff :: u64
  seg_filesize :: u64
  seg_initprot :: protection
  seg_maxprot :: protection
  seg_sections :: "macho_section list"

definition is_zerofill :: "macho_section \<Rightarrow> bool" where
  "is_zerofill s \<longleftrightarrow> sect_flags s AND SECTION_TYPE = S_ZEROFILL"

definition is_mod_init :: "macho_section \<Rightarrow> bool" where
  "is_mod_init s \<longleftrightarrow> sect_flags s AND SECTION_TYPE = S_MOD_INIT_FUNC_POINTERS"

record dylib =
  dylib_path :: string
  dylib_weak :: bool
  dylib_reexport :: bool

datatype entry_point = EntryMain (file_offset: u64) (stack_size: u64) | EntryThread (entry_vmaddr: u64)

record encryption =
  cryptoff :: u32
  cryptsize :: u32
  cryptid :: u32

record symtab_info =
  symoff :: u32
  nsyms :: u32
  stroff :: u32
  strsize :: u32

record dyld_info =
  rebase_off :: u32
  rebase_size :: u32
  bind_off :: u32
  bind_size :: u32
  lazy_bind_off :: u32
  lazy_bind_size :: u32
  export_off :: u32
  export_size :: u32

record macho_image =
  img_cpu_subtype :: u32
  img_filetype :: u32
  img_flags :: u32
  img_segments :: "macho_segment list"
  img_dylibs :: "dylib list"
  img_dylinker :: "string option"
  img_entry :: "entry_point option"
  img_symtab :: "symtab_info option"
  img_dyld_info :: "dyld_info option"
  img_encryption :: "encryption option"
  img_uuid :: "u8 list option"
  img_function_starts :: "(u32 \<times> u32) option"
  img_min_os_version :: "u32 option"

definition is_pie :: "macho_image \<Rightarrow> bool" where
  "is_pie img \<longleftrightarrow> img_flags img AND MH_PIE \<noteq> 0"

definition text_vmaddr :: "macho_image \<Rightarrow> u64" where
  "text_vmaddr img =
     (case find (\<lambda>s. seg_name s = ''__TEXT'') (img_segments img) of None \<Rightarrow> 0 | Some s \<Rightarrow> seg_vmaddr s)"

definition is_encrypted :: "macho_image \<Rightarrow> bool" where
  "is_encrypted img = (case img_encryption img of None \<Rightarrow> False | Some e \<Rightarrow> cryptid e \<noteq> 0)"

section \<open>Universal binaries\<close>

definition fat_better :: "(u64 \<times> u64 \<times> u32) option \<Rightarrow> u32 \<Rightarrow> bool" where
  "fat_better best cpusubtype =
     (case best of
        None \<Rightarrow> True
      | Some (_, _, st) \<Rightarrow> cpusubtype = CPU_SUBTYPE_ARM64E \<and> st \<noteq> CPU_SUBTYPE_ARM64E)"

definition fat_arch :: "bool \<Rightarrow> (u32 \<times> u32 \<times> u64 \<times> u64) parser" where
  "fat_arch is64 r =
     and_then (rd_u32_be r) (\<lambda>(cputype, r).
     and_then (rd_u32_be r) (\<lambda>(cpusubtype, r).
     if is64 then
       and_then (rd_u64_be r) (\<lambda>(off, r).
       and_then (rd_u64_be r) (\<lambda>(sz, r).
       and_then (rd_u32_be r) (\<lambda>(_, r).
       and_then (rd_u32_be r) (\<lambda>(_, r). Ok ((cputype, cpusubtype, off, sz), r)))))
     else
       and_then (rd_u32_be r) (\<lambda>(off, r).
       and_then (rd_u32_be r) (\<lambda>(sz, r).
       and_then (rd_u32_be r) (\<lambda>(_, r). Ok ((cputype, cpusubtype, ucast off, ucast sz), r))))))"

fun fat_loop :: "nat \<Rightarrow> bool \<Rightarrow> (u64 \<times> u64 \<times> u32) option \<Rightarrow> (u64 \<times> u64 \<times> u32) option parser" where
  "fat_loop 0 is64 best r = Ok (best, r)"
| "fat_loop (Suc n) is64 best r =
     and_then (fat_arch is64 r) (\<lambda>((cputype, cpusubtype, off, sz), r).
       fat_loop n is64
         (if cputype = CPU_TYPE_ARM64 \<and> fat_better best cpusubtype then Some (off, sz, cpusubtype) else best) r)"

definition select_fat_slice :: "u8 list \<Rightarrow> (u8 list \<times> nat) emu_result" where
  "select_fat_slice bytes =
     and_then (rd_u32_be (reader_new bytes)) (\<lambda>(magic, r).
     and_then (rd_u32_be r) (\<lambda>(nfat, r).
     and_then (fat_loop (unat nfat) (magic = FAT_MAGIC_64) None r) (\<lambda>(best, r).
     and_then (ok_or (MachO ''universal binary has no arm64 slice'') best) (\<lambda>(off, sz, _).
     and_then (ok_or (MachO ''fat slice overflow'') (checked_add_usize (unat off) (unat sz))) (\<lambda>e.
       if length bytes < e then Err (MachO ''fat slice extends past file'')
       else Ok (bytes, unat off))))))"

section \<open>Load commands\<close>

definition read_lc_str :: "u8 list \<Rightarrow> nat \<Rightarrow> nat \<Rightarrow> string emu_result" where
  "read_lc_str bytes cmd_off name_off =
     and_then (ok_or (MachO ''lc_str offset overflow'') (checked_add_usize cmd_off name_off)) (\<lambda>start.
       if length bytes \<le> start then Err (MachO ''lc_str offset past end'')
       else Ok (from_utf8_lossy (until_nul (drop start bytes))))"

definition parse_arm64_thread_pc :: "u8 list \<Rightarrow> nat \<Rightarrow> u64 option emu_result" where
  "parse_arm64_thread_pc bytes cmd_off =
     and_then (reader_at bytes (cmd_off + 8)) (\<lambda>r.
     and_then (rd_u32_le r) (\<lambda>(flavor, r).
     and_then (rd_u32_le r) (\<lambda>(count, r).
       if flavor \<noteq> ARM_THREAD_STATE64 \<or> count \<noteq> ARM_THREAD_STATE64_COUNT then Ok None
       else
         and_then (rd_skip (8 * 32) r) (\<lambda>r.
         and_then (rd_u64_le r) (\<lambda>(pc, r). Ok (Some pc))))))"

definition parse_section :: "macho_section parser" where
  "parse_section r =
     and_then (rd_fixed_str 16 r) (\<lambda>(sname, r).
     and_then (rd_fixed_str 16 r) (\<lambda>(gname, r).
     and_then (rd_u64_le r) (\<lambda>(addr, r).
     and_then (rd_u64_le r) (\<lambda>(sz, r).
     and_then (rd_u32_le r) (\<lambda>(off, r).
     and_then (rd_u32_le r) (\<lambda>(_, r).
     and_then (rd_u32_le r) (\<lambda>(_, r).
     and_then (rd_u32_le r) (\<lambda>(_, r).
     and_then (rd_u32_le r) (\<lambda>(flags, r).
     and_then (rd_u32_le r) (\<lambda>(_, r).
     and_then (rd_u32_le r) (\<lambda>(_, r).
     and_then (rd_u32_le r) (\<lambda>(_, r).
       Ok (\<lparr>sect_seg_name = gname, sect_name = sname, sect_addr = addr, sect_size = sz,
            sect_offset = off, sect_flags = flags\<rparr>, r)))))))))))))"

fun parse_sections :: "nat \<Rightarrow> macho_section list parser" where
  "parse_sections 0 r = Ok ([], r)"
| "parse_sections (Suc n) r =
     and_then (parse_section r) (\<lambda>(s, r).
     and_then (parse_sections n r) (\<lambda>(ss, r). Ok (s # ss, r)))"

definition parse_segment :: "u8 list \<Rightarrow> nat \<Rightarrow> macho_image \<Rightarrow> macho_image emu_result" where
  "parse_segment bytes cmd_off img =
     and_then (reader_at bytes (cmd_off + 8)) (\<lambda>r.
     and_then (rd_fixed_str 16 r) (\<lambda>(name, r).
     and_then (rd_u64_le r) (\<lambda>(vmaddr, r).
     and_then (rd_u64_le r) (\<lambda>(vmsize, r).
     and_then (rd_u64_le r) (\<lambda>(fileoff, r).
     and_then (rd_u64_le r) (\<lambda>(filesize, r).
     and_then (rd_u32_le r) (\<lambda>(maxprot, r).
     and_then (rd_u32_le r) (\<lambda>(initprot, r).
     and_then (rd_u32_le r) (\<lambda>(nsects, r).
     and_then (rd_u32_le r) (\<lambda>(_, r).
     and_then (parse_sections (unat nsects) r) (\<lambda>(sections, r).
       Ok (img\<lparr>img_segments := img_segments img @
             [\<lparr>seg_name = name, seg_vmaddr = vmaddr, seg_vmsize = vmsize, seg_fileoff = fileoff,
               seg_filesize = filesize, seg_initprot = from_vm_prot initprot,
               seg_maxprot = from_vm_prot maxprot, seg_sections = sections\<rparr>]\<rparr>))))))))))))"

definition parse_dylib :: "u8 list \<Rightarrow> nat \<Rightarrow> bool \<Rightarrow> bool \<Rightarrow> macho_image \<Rightarrow> macho_image emu_result" where
  "parse_dylib bytes cmd_off weak reexport img =
     and_then (reader_at bytes (cmd_off + 8)) (\<lambda>r.
     and_then (rd_u32_le r) (\<lambda>(name_off, r).
     and_then (read_lc_str bytes cmd_off (unat name_off)) (\<lambda>path.
       Ok (img\<lparr>img_dylibs := img_dylibs img @
             [\<lparr>dylib_path = path, dylib_weak = weak, dylib_reexport = reexport\<rparr>]\<rparr>))))"

definition parse_symtab :: "symtab_info parser" where
  "parse_symtab r =
     and_then (rd_u32_le r) (\<lambda>(a, r).
     and_then (rd_u32_le r) (\<lambda>(b, r).
     and_then (rd_u32_le r) (\<lambda>(c, r).
     and_then (rd_u32_le r) (\<lambda>(d, r).
       Ok (\<lparr>symoff = a, nsyms = b, stroff = c, strsize = d\<rparr>, r)))))"

definition parse_dyld_info :: "dyld_info parser" where
  "parse_dyld_info r =
     and_then (rd_u32_le r) (\<lambda>(a, r).
     and_then (rd_u32_le r) (\<lambda>(b, r).
     and_then (rd_u32_le r) (\<lambda>(c, r).
     and_then (rd_u32_le r) (\<lambda>(d, r).
     and_then (rd_u32_le r) (\<lambda>(e, r).
     and_then (rd_u32_le r) (\<lambda>(f, r).
     and_then (rd_u32_le r) (\<lambda>(g, r).
     and_then (rd_u32_le r) (\<lambda>(h, r).
       Ok (\<lparr>rebase_off = a, rebase_size = b, bind_off = c, bind_size = d, lazy_bind_off = e,
            lazy_bind_size = f, export_off = g, export_size = h\<rparr>, r)))))))))"

definition parse_encryption :: "encryption parser" where
  "parse_encryption r =
     and_then (rd_u32_le r) (\<lambda>(a, r).
     and_then (rd_u32_le r) (\<lambda>(b, r).
     and_then (rd_u32_le r) (\<lambda>(c, r).
       Ok (\<lparr>cryptoff = a, cryptsize = b, cryptid = c\<rparr>, r))))"

definition parse_command :: "u32 \<Rightarrow> u8 list \<Rightarrow> nat \<Rightarrow> nat \<Rightarrow> macho_image \<Rightarrow> macho_image emu_result" where
  "parse_command cmd bytes cmd_off slice_base img =
     (if cmd = LC_SEGMENT_64 then parse_segment bytes cmd_off img
      else if cmd = LC_LOAD_DYLIB then parse_dylib bytes cmd_off False False img
      else if cmd = LC_LOAD_WEAK_DYLIB then parse_dylib bytes cmd_off True False img
      else if cmd = LC_REEXPORT_DYLIB then parse_dylib bytes cmd_off False True img
      else if cmd = LC_LOAD_DYLINKER then
        and_then (reader_at bytes (cmd_off + 8)) (\<lambda>r.
        and_then (rd_u32_le r) (\<lambda>(name_off, r).
        and_then (read_lc_str bytes cmd_off (unat name_off)) (\<lambda>s. Ok (img\<lparr>img_dylinker := Some s\<rparr>))))
      else if cmd = LC_MAIN then
        and_then (reader_at bytes (cmd_off + 8)) (\<lambda>r.
        and_then (rd_u64_le r) (\<lambda>(off, r).
        and_then (rd_u64_le r) (\<lambda>(stk, r). Ok (img\<lparr>img_entry := Some (EntryMain off stk)\<rparr>))))
      else if cmd = LC_UNIXTHREAD then
        and_then (parse_arm64_thread_pc bytes cmd_off) (\<lambda>pc.
          case pc of
            Some v \<Rightarrow> if img_entry img = None then Ok (img\<lparr>img_entry := Some (EntryThread v)\<rparr>) else Ok img
          | None \<Rightarrow> Ok img)
      else if cmd = LC_SYMTAB then
        and_then (reader_at bytes (cmd_off + 8)) (\<lambda>r.
        and_then (parse_symtab r) (\<lambda>(s, r). Ok (img\<lparr>img_symtab := Some s\<rparr>)))
      else if cmd = LC_DYLD_INFO \<or> cmd = LC_DYLD_INFO_ONLY then
        and_then (reader_at bytes (cmd_off + 8)) (\<lambda>r.
        and_then (parse_dyld_info r) (\<lambda>(d, r). Ok (img\<lparr>img_dyld_info := Some d\<rparr>)))
      else if cmd = LC_ENCRYPTION_INFO_64 then
        and_then (reader_at bytes (cmd_off + 8)) (\<lambda>r.
        and_then (parse_encryption r) (\<lambda>(e, r). Ok (img\<lparr>img_encryption := Some e\<rparr>)))
      else if cmd = LC_UUID then
        and_then (reader_at bytes (cmd_off + 8)) (\<lambda>r.
        and_then (rd_bytes 16 r) (\<lambda>(raw, r). Ok (img\<lparr>img_uuid := Some raw\<rparr>)))
      else if cmd = LC_FUNCTION_STARTS then
        and_then (reader_at bytes (cmd_off + 8)) (\<lambda>r.
        and_then (rd_u32_le r) (\<lambda>(off, r).
        and_then (rd_u32_le r) (\<lambda>(sz, r). Ok (img\<lparr>img_function_starts := Some (off, sz)\<rparr>))))
      else if cmd = LC_VERSION_MIN_IPHONEOS then
        and_then (reader_at bytes (cmd_off + 8)) (\<lambda>r.
        and_then (rd_u32_le r) (\<lambda>(v, r). Ok (img\<lparr>img_min_os_version := Some v\<rparr>)))
      else Ok img)"

text \<open>The loop over the load commands: \<open>n\<close> commands left, \<open>i\<close> done.\<close>

fun parse_commands :: "nat \<Rightarrow> nat \<Rightarrow> u8 list \<Rightarrow> nat \<Rightarrow> nat \<Rightarrow> macho_image \<Rightarrow> macho_image emu_result" where
  "parse_commands 0 i bytes cmd_off base img = Ok img"
| "parse_commands (Suc n) i bytes cmd_off base img =
     and_then (reader_at bytes cmd_off) (\<lambda>cr.
     and_then (rd_u32_le cr) (\<lambda>(cmd, cr).
     and_then (rd_u32_le cr) (\<lambda>(cmdsize, cr).
       if unat cmdsize < 8
       then Err (MachO (''load command '' @ fmt_dec i @ '' has bogus size '' @ fmt_dec (unat cmdsize)))
       else
         and_then (parse_command cmd bytes cmd_off base img) (\<lambda>img.
         and_then (ok_or (MachO ''load-command offset overflow'')
                     (checked_add_usize cmd_off (unat cmdsize))) (\<lambda>next_off.
           parse_commands n (Suc i) bytes next_off base img)))))"

definition empty_image :: "u32 \<Rightarrow> u32 \<Rightarrow> u32 \<Rightarrow> macho_image" where
  "empty_image cpu_subtype filetype flags =
     \<lparr>img_cpu_subtype = cpu_subtype, img_filetype = filetype, img_flags = flags, img_segments = [],
      img_dylibs = [], img_dylinker = None, img_entry = None, img_symtab = None, img_dyld_info = None,
      img_encryption = None, img_uuid = None, img_function_starts = None, img_min_os_version = None\<rparr>"

definition parse_thin :: "u8 list \<Rightarrow> nat \<Rightarrow> macho_image emu_result" where
  "parse_thin bytes base =
     and_then (reader_at bytes base) (\<lambda>r.
     and_then (rd_u32_le r) (\<lambda>(magic, r).
     if magic \<noteq> MH_MAGIC_64
     then Err (MachO (''slice magic '' @ fmt_hex_pad 10 (unat magic) @ '' is not 64-bit Mach-O''))
     else
     and_then (rd_u32_le r) (\<lambda>(cputype, r).
     if cputype \<noteq> CPU_TYPE_ARM64
     then Err (MachO (''cputype '' @ fmt_hex (unat cputype) @ '' is not arm64''))
     else
     and_then (rd_u32_le r) (\<lambda>(cpu_subtype, r).
     and_then (rd_u32_le r) (\<lambda>(filetype, r).
     and_then (rd_u32_le r) (\<lambda>(ncmds, r).
     and_then (rd_u32_le r) (\<lambda>(_, r).
     and_then (rd_u32_le r) (\<lambda>(flags, r).
     and_then (rd_u32_le r) (\<lambda>(_, r).
     and_then (parse_commands (unat ncmds) 0 bytes (base + 32) base (empty_image cpu_subtype filetype flags)) (\<lambda>img.
       if img_segments img = [] then Err (MachO ''no LC_SEGMENT_64 commands'') else Ok img))))))))))"

definition macho_parse :: "u8 list \<Rightarrow> macho_image emu_result" where
  "macho_parse bytes =
     and_then (rd_u32_le (reader_new bytes)) (\<lambda>(magic, _).
     and_then
       (if magic = FAT_MAGIC \<or> magic = FAT_MAGIC_64 then select_fat_slice bytes
        else if magic = MH_MAGIC_64 then Ok (bytes, 0)
        else if magic = MH_CIGAM_64 then Err (MachO ''big-endian Mach-O is not supported'')
        else Err (MachO (''unknown magic '' @ fmt_hex_pad 10 (unat magic))))
       (\<lambda>(slice, off). parse_thin slice off))"

end
