(* ===== verification/Macho_Roundtrip.thy ===== *)
theory Macho_Roundtrip
  imports Macho_Image
begin

text \<open>
  Theorems on the Mach-O parser: it never panics, it inverts a reference encoder of header and load
  commands, and it does not recognise universal binaries as they are stored on disk.

  \<open>reads p bs v\<close> says that the parser \<open>p\<close>, placed before the bytes \<open>bs\<close>, consumes exactly these and
  returns \<open>v\<close>; it composes along \<open>and_then\<close>, so the encoder and the parser are related field by field.
\<close>

section \<open>No panics\<close>

lemma parser_then_no_panic:
  "safe_parser p \<Longrightarrow> (\<And>x r'. q x r' \<noteq> Panic) \<Longrightarrow> and_then (p r) (\<lambda>(x, r'). q x r') \<noteq> Panic"
  by (auto simp: result_simps dest: safe_parser_no_panic)

lemma reader_at_then_no_panic:
  "(\<And>r. q r \<noteq> Panic) \<Longrightarrow> and_then (reader_at d off) q \<noteq> Panic"
  by (auto simp: result_simps)

lemma ok_or_then_no_panic: "(\<And>x. q x \<noteq> Panic) \<Longrightarrow> and_then (ok_or e m) q \<noteq> Panic"
  by (auto simp: result_simps)

lemmas no_panic_intros = parser_then_no_panic reader_at_then_no_panic ok_or_then_no_panic

lemma safe_fat_arch [safe_parsers]: "safe_parser (fat_arch is64)"
  unfolding fat_arch_def [abs_def] by (cases is64) (simp, intro safe_parsers)+

lemma safe_fat_loop [safe_parsers]: "safe_parser (fat_loop n is64 best)"
proof (induction n arbitrary: best)
  case (Suc n)
  have "fat_loop (Suc n) is64 best = (\<lambda>r. and_then (fat_arch is64 r) (\<lambda>(a, r). case a of (cputype, cpusubtype, off, sz) \<Rightarrow>
       fat_loop n is64
         (if cputype = CPU_TYPE_ARM64 \<and> fat_better best cpusubtype then Some (off, sz, cpusubtype) else best) r))"
    by (rule ext) (auto intro!: and_then_cong split: prod.split)
  then show ?case by (auto intro!: safe_parser_bind safe_fat_arch Suc.IH split: prod.split)
qed (simp add: safe_parser_def)

lemma safe_parse_section [safe_parsers]: "safe_parser parse_section"
  unfolding parse_section_def [abs_def] by (intro safe_parsers)

lemma safe_parse_sections [safe_parsers]: "safe_parser (parse_sections n)"
proof (induction n)
  case (Suc n)
  have "parse_sections (Suc n) = (\<lambda>r. and_then (parse_section r) (\<lambda>(s, r).
     and_then (parse_sections n r) (\<lambda>(ss, r). Ok (s # ss, r))))"
    by (rule ext) simp
  then show ?case by (auto intro!: safe_parsers Suc.IH)
qed (simp add: safe_parser_def)

lemma safe_parse_infos [safe_parsers]:
  "safe_parser parse_symtab" "safe_parser parse_dyld_info" "safe_parser parse_encryption"
  unfolding parse_symtab_def [abs_def] parse_dyld_info_def [abs_def] parse_encryption_def [abs_def]
  by (intro safe_parsers)+

lemma select_fat_slice_no_panic: "select_fat_slice bytes \<noteq> Panic"
  unfolding select_fat_slice_def
  by (intro no_panic_intros safe_parsers) (auto simp: result_simps split: prod.split)

lemma read_lc_str_then_no_panic:
  "(\<And>x. q x \<noteq> Panic) \<Longrightarrow> and_then (read_lc_str bytes cmd_off n) q \<noteq> Panic"
  by (auto simp: read_lc_str_def result_simps)

lemma parse_thread_no_panic: "parse_arm64_thread_pc bytes cmd_off \<noteq> Panic"
  unfolding parse_arm64_thread_pc_def
  by (intro no_panic_intros safe_parsers) (simp add: result_simps safe_parser_no_panic [OF safe_rd_prims(4)] split: prod.split)

lemma parse_segment_no_panic: "parse_segment bytes cmd_off img \<noteq> Panic"
  unfolding parse_segment_def by (intro no_panic_intros safe_parsers) simp

lemma parse_dylib_no_panic: "parse_dylib bytes cmd_off weak reexport img \<noteq> Panic"
  unfolding parse_dylib_def by (intro no_panic_intros read_lc_str_then_no_panic safe_parsers) simp

lemma parse_command_no_panic: "parse_command cmd bytes cmd_off base img \<noteq> Panic"
proof -
  have thread: "and_then (parse_arm64_thread_pc bytes cmd_off) (\<lambda>pc. case pc of
            Some v \<Rightarrow> if img_entry img = None then Ok (img\<lparr>img_entry := Some (EntryThread v)\<rparr>) else Ok img
          | None \<Rightarrow> Ok img) \<noteq> Panic"
    using parse_thread_no_panic by (auto simp: result_simps split: option.splits)
  have rest: "and_then (reader_at bytes off) (\<lambda>r. and_then (p r) (\<lambda>(x, r'). Ok (f x))) \<noteq> Panic"
    if "safe_parser p" for p :: "'b parser" and off and f :: "'b \<Rightarrow> macho_image"
    by (intro no_panic_intros that) simp
  have str: "and_then (reader_at bytes off) (\<lambda>r. and_then (rd_u32_le r) (\<lambda>(n, r).
      and_then (read_lc_str bytes cmd_off (unat n)) (\<lambda>s. Ok (f s)))) \<noteq> Panic"
    for off and f :: "string \<Rightarrow> macho_image"
    by (intro no_panic_intros read_lc_str_then_no_panic safe_parsers) simp
  have two: "and_then (reader_at bytes off) (\<lambda>r. and_then (p r) (\<lambda>(x, r). and_then (p r) (\<lambda>(y, r). Ok (f x y)))) \<noteq> Panic"
    if "safe_parser p" for p :: "'b parser" and off and f :: "'b \<Rightarrow> 'b \<Rightarrow> macho_image"
    by (intro no_panic_intros that) simp
  show ?thesis
    unfolding parse_command_def
    by (simp add: parse_segment_no_panic parse_dylib_no_panic thread rest str two safe_rd_prims
        safe_parse_infos)
qed

lemma parse_commands_no_panic: "parse_commands n i bytes off base img \<noteq> Panic"
proof (induction n i bytes off base img rule: parse_commands.induct)
  case (2 n i bytes off base img)
  show ?case
    using 2 parse_command_no_panic safe_parser_no_panic [OF safe_rd_prims(3)]
    by (auto simp: result_simps)
qed simp

lemma parse_thin_no_panic: "parse_thin bytes base \<noteq> Panic"
  using parse_commands_no_panic unfolding parse_thin_def
  by (auto simp: result_simps safe_parser_no_panic [OF safe_rd_prims(3)])

section \<open>Reading what was encoded\<close>

definition reads :: "'a parser \<Rightarrow> u8 list \<Rightarrow> 'a \<Rightarrow> bool" where
  "reads p bs v \<longleftrightarrow> (\<forall>r xs. length (rd_data r) < 2 ^ 64 \<longrightarrow> rd_rest r = bs @ xs \<longrightarrow>
     (\<exists>r'. p r = Ok (v, r') \<and> rd_rest r' = xs \<and> rd_data r' = rd_data r))"

named_theorems reading \<open>parsers with the bytes they read\<close>

lemma readsD:
  assumes "reads p bs v" and "length (rd_data r) < 2 ^ 64" and "rd_rest r = bs @ xs"
  obtains r' where "p r = Ok (v, r')" and "rd_rest r' = xs" and "rd_data r' = rd_data r"
  using assms unfolding reads_def by blast

lemma reads_Ok [reading]: "reads (\<lambda>r. Ok (v, r)) [] v"
  by (simp add: reads_def)

lemma reads_bind [reading]:
  assumes "reads p bs v" and "reads (q v) cs w"
  shows "reads (\<lambda>r. and_then (p r) (\<lambda>(x, r'). q x r')) (bs @ cs) w"
  unfolding reads_def
proof (intro allI impI)
  fix r xs
  assume len: "length (rd_data r) < 2 ^ 64" and rest: "rd_rest r = (bs @ cs) @ xs"
  obtain r1 where r1: "p r = Ok (v, r1)" "rd_rest r1 = cs @ xs" "rd_data r1 = rd_data r"
    using readsD [OF assms(1) len] rest by auto
  obtain r2 where "q v r1 = Ok (w, r2)" "rd_rest r2 = xs" "rd_data r2 = rd_data r1"
    using readsD [OF assms(2), of r1 xs] r1 len by auto
  with r1 show "\<exists>r'. and_then (p r) (\<lambda>(x, r'). q x r') = Ok (w, r') \<and> rd_rest r' = xs \<and> rd_data r' = rd_data r"
    by auto
qed

lemma reads_then_map:
  assumes "reads p bs v"
  shows "reads (\<lambda>r. and_then (p r) (\<lambda>(x, r'). Ok (f x, r'))) bs (f v)"
  using reads_bind [OF assms, of "\<lambda>x r'. Ok (f x, r')" "[]"] reads_Ok by fastforce

lemma reads_take: "length bs = n \<Longrightarrow> 0 < n \<Longrightarrow> reads (rd_take n) bs bs"
  using rd_take_rest unfolding reads_def by fastforce

lemma reads_u32 [reading]: "reads rd_u32_le (to_le_bytes v) v"
  unfolding rd_u32_le_def [abs_def]
  using reads_then_map [OF reads_take [of "to_le_bytes v" 4], of "from_le_bytes :: u8 list \<Rightarrow> u32"] by simp

lemma reads_u64 [reading]: "reads rd_u64_le (to_le_bytes v) v"
  unfolding rd_u64_le_def [abs_def]
  using reads_then_map [OF reads_take [of "to_le_bytes v" 8], of "from_le_bytes :: u8 list \<Rightarrow> u64"] by simp

lemma reads_bytes [reading]: "length bs = n \<Longrightarrow> 0 < n \<Longrightarrow> reads (rd_bytes n) bs bs"
  unfolding rd_bytes_def [abs_def] by (rule reads_take)

text \<open>A name of at most sixteen non-zero ASCII bytes, padded with zeros.\<close>

definition name_bytes :: "u8 list \<Rightarrow> bool" where
  "name_bytes s \<longleftrightarrow> is_ascii s \<and> 0 \<notin> set s \<and> length s \<le> 16"

definition pad16 :: "u8 list \<Rightarrow> u8 list" where
  "pad16 s = s @ replicate (16 - length s) 0"

lemma until_nul_append: "0 \<notin> set s \<Longrightarrow> until_nul (s @ replicate k 0) = s"
  by (induction s) (auto simp: until_nul_def takeWhile_replicate)

lemma until_nul_zero: "0 \<notin> set s \<Longrightarrow> until_nul (s @ 0 # xs) = s"
  by (induction s) (auto simp: until_nul_def)

lemma reads_fixed_str [reading]:
  assumes "name_bytes s"
  shows "reads (rd_fixed_str 16) (pad16 s) (map byte_char s)"
proof -
  have "length (pad16 s) = 16" using assms by (simp add: pad16_def name_bytes_def)
  moreover have "from_utf8_lossy (until_nul (pad16 s)) = map byte_char s"
    using assms by (simp add: pad16_def until_nul_append from_utf8_lossy_ascii name_bytes_def)
  ultimately show ?thesis
    unfolding rd_fixed_str_def [abs_def]
    using reads_then_map [OF reads_take [of "pad16 s" 16], of "\<lambda>raw. from_utf8_lossy (until_nul raw)"] by simp
qed

section \<open>The reference encoder\<close>

record section_desc =
  d_sect_name :: "u8 list"
  d_sect_seg :: "u8 list"
  d_sect_addr :: u64
  d_sect_size :: u64
  d_sect_offset :: u32
  d_sect_other :: "u32 \<times> u32 \<times> u32"
  d_sect_flags :: u32
  d_sect_reserved :: "u32 \<times> u32 \<times> u32"

definition encode_section :: "section_desc \<Rightarrow> u8 list" where
  "encode_section s =
     pad16 (d_sect_name s) @ pad16 (d_sect_seg s) @ to_le_bytes (d_sect_addr s) @ to_le_bytes (d_sect_size s) @
     to_le_bytes (d_sect_offset s) @ to_le_bytes (fst (d_sect_other s)) @
     to_le_bytes (fst (snd (d_sect_other s))) @ to_le_bytes (snd (snd (d_sect_other s))) @
     to_le_bytes (d_sect_flags s) @ to_le_bytes (fst (d_sect_reserved s)) @
     to_le_bytes (fst (snd (d_sect_reserved s))) @ to_le_bytes (snd (snd (d_sect_reserved s))) @ []"

definition section_of :: "section_desc \<Rightarrow> macho_section" where
  "section_of s =
     \<lparr>sect_seg_name = map byte_char (d_sect_seg s), sect_name = map byte_char (d_sect_name s),
      sect_addr = d_sect_addr s, sect_size = d_sect_size s, sect_offset = d_sect_offset s,
      sect_flags = d_sect_flags s\<rparr>"

definition section_ok :: "section_desc \<Rightarrow> bool" where
  "section_ok s \<longleftrightarrow> name_bytes (d_sect_name s) \<and> name_bytes (d_sect_seg s)"

lemma reads_section [reading]: "section_ok s \<Longrightarrow> reads parse_section (encode_section s) (section_of s)"
  unfolding parse_section_def [abs_def] encode_section_def section_of_def section_ok_def
  by (elim conjE) (rule reading | assumption)+

fun encode_sections :: "section_desc list \<Rightarrow> u8 list" where
  "encode_sections [] = []"
| "encode_sections (s # ss) = encode_section s @ encode_sections ss @ []"

lemma reads_sections [reading]:
  "list_all section_ok ss \<Longrightarrow> reads (parse_sections (length ss)) (encode_sections ss) (map section_of ss)"
proof (induction ss)
  case Nil
  then show ?case using reads_Ok by (simp add: reads_def)
next
  case (Cons s ss)
  have "parse_sections (length (s # ss)) = (\<lambda>r. and_then (parse_section r) (\<lambda>(s, r).
     and_then (parse_sections (length ss) r) (\<lambda>(ss, r). Ok (s # ss, r))))"
    by (rule ext) simp
  moreover have "section_ok s" "reads (parse_sections (length ss)) (encode_sections ss) (map section_of ss)"
    using Cons by simp_all
  ultimately show ?case
    by (simp only: encode_sections.simps list.map) (rule reading | assumption)+
qed

record segment_desc =
  d_seg_name :: "u8 list"
  d_vmaddr :: u64
  d_vmsize :: u64
  d_fileoff :: u64
  d_filesize :: u64
  d_maxprot :: u32
  d_initprot :: u32
  d_seg_flags :: u32
  d_sections :: "section_desc list"

datatype load_cmd =
    CSegment segment_desc
  | CDylib "u8 list"
  | CWeakDylib "u8 list"
  | CReexportDylib "u8 list"
  | CDylinker "u8 list"
  | CMain u64 u64
  | CThread "u8 list" u64 "u8 list"
  | CSymtab u32 u32 u32 u32
  | CDyldInfo bool "u32 \<times> u32" "u32 \<times> u32" "u32 \<times> u32" "u32 \<times> u32"
  | CEncryption u32 u32 u32 u32
  | CUuid "u8 list"
  | CFunctionStarts u32 u32
  | CMinOs u32 u32
  | COther u32 "u8 list"

fun cmd_code :: "load_cmd \<Rightarrow> u32" where
  "cmd_code (CSegment s) = LC_SEGMENT_64"
| "cmd_code (CDylib p) = LC_LOAD_DYLIB"
| "cmd_code (CWeakDylib p) = LC_LOAD_WEAK_DYLIB"
| "cmd_code (CReexportDylib p) = LC_REEXPORT_DYLIB"
| "cmd_code (CDylinker p) = LC_LOAD_DYLINKER"
| "cmd_code (CMain off stk) = LC_MAIN"
| "cmd_code (CThread st pc ts) = LC_UNIXTHREAD"
| "cmd_code (CSymtab a b c d) = LC_SYMTAB"
| "cmd_code (CDyldInfo only a b c d) = (if only then LC_DYLD_INFO_ONLY else LC_DYLD_INFO)"
| "cmd_code (CEncryption a b c p) = LC_ENCRYPTION_INFO_64"
| "cmd_code (CUuid u) = LC_UUID"
| "cmd_code (CFunctionStarts off sz) = LC_FUNCTION_STARTS"
| "cmd_code (CMinOs v sdk) = LC_VERSION_MIN_IPHONEOS"
| "cmd_code (COther c bs) = c"

definition encode_segment :: "segment_desc \<Rightarrow> u8 list" where
  "encode_segment s =
     pad16 (d_seg_name s) @ to_le_bytes (d_vmaddr s) @ to_le_bytes (d_vmsize s) @ to_le_bytes (d_fileoff s) @
     to_le_bytes (d_filesize s) @ to_le_bytes (d_maxprot s) @ to_le_bytes (d_initprot s) @
     to_le_bytes (of_nat (length (d_sections s)) :: u32) @ to_le_bytes (d_seg_flags s) @
     encode_sections (d_sections s) @ []"

text \<open>The string of a dylib command starts 24 bytes into the command, that of a dylinker command 12.\<close>

definition encode_dylib :: "u8 list \<Rightarrow> u8 list" where
  "encode_dylib p = to_le_bytes (24 :: u32) @ replicate 12 0 @ p @ [0]"

fun payload :: "load_cmd \<Rightarrow> u8 list" where
  "payload (CSegment s) = encode_segment s"
| "payload (CDylib p) = encode_dylib p"
| "payload (CWeakDylib p) = encode_dylib p"
| "payload (CReexportDylib p) = encode_dylib p"
| "payload (CDylinker p) = to_le_bytes (12 :: u32) @ p @ [0]"
| "payload (CMain off stk) = to_le_bytes off @ to_le_bytes stk"
| "payload (CThread st pc ts) =
     to_le_bytes ARM_THREAD_STATE64 @ to_le_bytes ARM_THREAD_STATE64_COUNT @ st @ to_le_bytes pc @ ts"
| "payload (CSymtab a b c d) = to_le_bytes a @ to_le_bytes b @ to_le_bytes c @ to_le_bytes d @ []"
| "payload (CDyldInfo only a b c d) =
     to_le_bytes (fst a) @ to_le_bytes (snd a) @ to_le_bytes (fst b) @ to_le_bytes (snd b) @
     to_le_bytes (fst c) @ to_le_bytes (snd c) @ to_le_bytes (fst d) @ to_le_bytes (snd d) @ []"
| "payload (CEncryption a b c p) = (to_le_bytes a @ to_le_bytes b @ to_le_bytes c @ []) @ to_le_bytes p"
| "payload (CUuid u) = u"
| "payload (CFunctionStarts off sz) = to_le_bytes off @ to_le_bytes sz"
| "payload (CMinOs v sdk) = to_le_bytes v @ to_le_bytes sdk"
| "payload (COther c bs) = bs"

definition encode_cmd :: "load_cmd \<Rightarrow> u8 list" where
  "encode_cmd c =
     to_le_bytes (cmd_code c) @ to_le_bytes (of_nat (8 + length (payload c)) :: u32) @ payload c"

definition segment_of :: "segment_desc \<Rightarrow> macho_segment" where
  "segment_of s =
     \<lparr>seg_name = map byte_char (d_seg_name s), seg_vmaddr = d_vmaddr s, seg_vmsize = d_vmsize s,
      seg_fileoff = d_fileoff s, seg_filesize = d_filesize s, seg_initprot = from_vm_prot (d_initprot s),
      seg_maxprot = from_vm_prot (d_maxprot s), seg_sections = map section_of (d_sections s)\<rparr>"

definition add_dylib :: "u8 list \<Rightarrow> bool \<Rightarrow> bool \<Rightarrow> macho_image \<Rightarrow> macho_image" where
  "add_dylib p weak reexport img =
     img\<lparr>img_dylibs := img_dylibs img @
       [\<lparr>dylib_path = map byte_char p, dylib_weak = weak, dylib_reexport = reexport\<rparr>]\<rparr>"

text \<open>What a load command means for the image.\<close>

fun apply_cmd :: "load_cmd \<Rightarrow> macho_image \<Rightarrow> macho_image" where
  "apply_cmd (CSegment s) img = img\<lparr>img_segments := img_segments img @ [segment_of s]\<rparr>"
| "apply_cmd (CDylib p) img = add_dylib p False False img"
| "apply_cmd (CWeakDylib p) img = add_dylib p True False img"
| "apply_cmd (CReexportDylib p) img = add_dylib p False True img"
| "apply_cmd (CDylinker p) img = img\<lparr>img_dylinker := Some (map byte_char p)\<rparr>"
| "apply_cmd (CMain off stk) img = img\<lparr>img_entry := Some (EntryMain off stk)\<rparr>"
| "apply_cmd (CThread st pc ts) img =
     (if img_entry img = None then img\<lparr>img_entry := Some (EntryThread pc)\<rparr> else img)"
| "apply_cmd (CSymtab a b c d) img = img\<lparr>img_symtab := Some \<lparr>symoff = a, nsyms = b, stroff = c, strsize = d\<rparr>\<rparr>"
| "apply_cmd (CDyldInfo only a b c d) img = img\<lparr>img_dyld_info := Some
     \<lparr>rebase_off = fst a, rebase_size = snd a, bind_off = fst b, bind_size = snd b, lazy_bind_off = fst c,
      lazy_bind_size = snd c, export_off = fst d, export_size = snd d\<rparr>\<rparr>"
| "apply_cmd (CEncryption a b c p) img =
     img\<lparr>img_encryption := Some \<lparr>cryptoff = a, cryptsize = b, cryptid = c\<rparr>\<rparr>"
| "apply_cmd (CUuid u) img = img\<lparr>img_uuid := Some u\<rparr>"
| "apply_cmd (CFunctionStarts off sz) img = img\<lparr>img_function_starts := Some (off, sz)\<rparr>"
| "apply_cmd (CMinOs v sdk) img = img\<lparr>img_min_os_version := Some v\<rparr>"
| "apply_cmd (COther c bs) img = img"

definition known_cmds :: "u32 list" where
  "known_cmds =
     [LC_SEGMENT_64, LC_LOAD_DYLIB, LC_LOAD_WEAK_DYLIB, LC_REEXPORT_DYLIB, LC_LOAD_DYLINKER, LC_MAIN,
      LC_UNIXTHREAD, LC_SYMTAB, LC_DYLD_INFO, LC_DYLD_INFO_ONLY, LC_ENCRYPTION_INFO_64, LC_UUID,
      LC_FUNCTION_STARTS, LC_VERSION_MIN_IPHONEOS]"

definition path_bytes :: "u8 list \<Rightarrow> bool" where
  "path_bytes p \<longleftrightarrow> is_ascii p \<and> 0 \<notin> set p"

fun cmd_fields_ok :: "load_cmd \<Rightarrow> bool" where
  "cmd_fields_ok (CSegment s) \<longleftrightarrow> name_bytes (d_seg_name s) \<and> list_all section_ok (d_sections s) \<and>
     length (d_sections s) < 2 ^ 32"
| "cmd_fields_ok (CDylib p) \<longleftrightarrow> path_bytes p"
| "cmd_fields_ok (CWeakDylib p) \<longleftrightarrow> path_bytes p"
| "cmd_fields_ok (CReexportDylib p) \<longleftrightarrow> path_bytes p"
| "cmd_fields_ok (CDylinker p) \<longleftrightarrow> path_bytes p"
| "cmd_fields_ok (CThread st pc ts) \<longleftrightarrow> length st = 256"
| "cmd_fields_ok (CUuid u) \<longleftrightarrow> length u = 16"
| "cmd_fields_ok (COther c bs) \<longleftrightarrow> c \<notin> set known_cmds"
| "cmd_fields_ok _ \<longleftrightarrow> True"

definition cmd_ok :: "load_cmd \<Rightarrow> bool" where
  "cmd_ok c \<longleftrightarrow> cmd_fields_ok c \<and> 8 + length (payload c) < 2 ^ 32"

section \<open>Parsing the encoded commands\<close>

definition segment_parser :: "macho_segment parser" where
  "segment_parser r =
     and_then (rd_fixed_str 16 r) (\<lambda>(name, r).
     and_then (rd_u64_le r) (\<lambda>(vmaddr, r).
     and_then (rd_u64_le r) (\<lambda>(vmsize, r).
     and_then (rd_u64_le r) (\<lambda>(fileoff, r).
     and_then (rd_u64_le r) (\<lambda>(filesize, r).
     and_then (rd_u32_le r) (\<lambda>(maxprot, r).
     and_then (rd_u32_le r) (\<lambda>(initprot, r).
     and_then (rd_u32_le r) (\<lambda>(nsects, r).
     and_then (rd_u32_le r) (\<lambda>(_, r).
     and_then (parse_sections (unat nsects) r) (\<lambda>(sections, r).
       Ok (\<lparr>seg_name = name, seg_vmaddr = vmaddr, seg_vmsize = vmsize, seg_fileoff = fileoff,
            seg_filesize = filesize, seg_initprot = from_vm_prot initprot,
            seg_maxprot = from_vm_prot maxprot, seg_sections = sections\<rparr>, r)))))))))))"

lemma and_then_assoc_pair:
  "and_then (and_then m (\<lambda>(x, r). q x r)) f = and_then m (\<lambda>(x, r). and_then (q x r) f)"
  by (cases m) (auto split: prod.splits)

lemma parse_segment_alt:
  "parse_segment bytes cmd_off img =
     and_then (reader_at bytes (cmd_off + 8)) (\<lambda>r.
     and_then (segment_parser r) (\<lambda>(s, r). Ok (img\<lparr>img_segments := img_segments img @ [s]\<rparr>)))"
  unfolding parse_segment_def segment_parser_def
  by (simp only: and_then_assoc_pair and_then.simps prod.case)

lemma reads_segment:
  assumes "cmd_fields_ok (CSegment s)"
  shows "reads segment_parser (encode_segment s) (segment_of s)"
proof -
  have "name_bytes (d_seg_name s)"
    and "reads (parse_sections (unat (of_nat (length (d_sections s)) :: u32)))
      (encode_sections (d_sections s)) (map section_of (d_sections s))"
    using assms reads_sections by (simp_all add: unat_of_nat)
  then show ?thesis
    unfolding segment_parser_def [abs_def] encode_segment_def segment_of_def
    by - (rule reading | assumption)+
qed

lemma reads_infos:
  "reads parse_symtab (payload (CSymtab a b c d)) \<lparr>symoff = a, nsyms = b, stroff = c, strsize = d\<rparr>"
  "reads parse_dyld_info (payload (CDyldInfo only p q s t))
     \<lparr>rebase_off = fst p, rebase_size = snd p, bind_off = fst q, bind_size = snd q, lazy_bind_off = fst s,
      lazy_bind_size = snd s, export_off = fst t, export_size = snd t\<rparr>"
  "reads parse_encryption (to_le_bytes a @ to_le_bytes b @ to_le_bytes c @ [])
     \<lparr>cryptoff = a, cryptsize = b, cryptid = c\<rparr>"
  unfolding parse_symtab_def [abs_def] parse_dyld_info_def [abs_def] parse_encryption_def [abs_def] payload.simps
  by (rule reading | assumption)+

lemma reader_at_reads:
  assumes "reads p bs v" and "drop off bytes = bs @ xs" and "length bytes < 2 ^ 64" and "off \<le> length bytes"
  shows "and_then (reader_at bytes off) (\<lambda>r. and_then (p r) (\<lambda>(x, r). Ok (f x))) = Ok (f v)"
proof -
  let ?r = "\<lparr>rd_data = bytes, rd_pos = off\<rparr>"
  obtain r' where "p ?r = Ok (v, r')" using readsD [OF assms(1), of ?r xs] assms(2,3) by (auto simp: rd_rest_def)
  then show ?thesis using assms(4) by (simp add: reader_at_def)
qed

lemma read_lc_str_at:
  assumes "drop (cmd_off + n) bytes = p @ 0 # xs" and "path_bytes p" and "length bytes < 2 ^ 64"
  shows "read_lc_str bytes cmd_off n = Ok (map byte_char p)"
proof -
  have "cmd_off + n < length bytes"
    using assms(1) by (metis append_is_Nil_conv drop_all list.distinct(1) not_less)
  with assms show ?thesis
    by (simp add: read_lc_str_def checked_add_usize_def until_nul_zero path_bytes_def from_utf8_lossy_ascii)
qed

lemma parse_dylib_encoded:
  assumes "drop (off + 8) bytes = encode_dylib p @ xs" and "path_bytes p" and "length bytes < 2 ^ 64"
    and "off + 8 \<le> length bytes"
  shows "parse_dylib bytes off weak reexport img = Ok (add_dylib p weak reexport img)"
proof -
  let ?r = "\<lparr>rd_data = bytes, rd_pos = off + 8\<rparr>"
  have rest: "rd_rest ?r = to_le_bytes (24 :: u32) @ (replicate 12 0 @ p @ 0 # xs)"
    using assms(1) by (simp add: rd_rest_def encode_dylib_def)
  obtain r' where r': "rd_u32_le ?r = Ok (24, r')"
    using readsD [OF reads_u32, of ?r "24 :: u32"] rest assms(3) by auto
  have "drop (off + 24) bytes = drop 16 (drop (off + 8) bytes)" by (simp add: add.commute)
  also have "\<dots> = p @ 0 # xs" by (simp add: assms(1) encode_dylib_def)
  finally have "read_lc_str bytes off 24 = Ok (map byte_char p)"
    using read_lc_str_at assms(2,3) by blast
  with r' assms(4) show ?thesis by (simp add: parse_dylib_def reader_at_def add_dylib_def)
qed

lemma parse_thread_encoded:
  assumes "drop (off + 8) bytes = payload (CThread st pc ts) @ xs" and "length st = 256"
    and "length bytes < 2 ^ 64" and "off + 8 \<le> length bytes"
  shows "parse_arm64_thread_pc bytes off = Ok (Some pc)"
proof -
  let ?r = "\<lparr>rd_data = bytes, rd_pos = off + 8\<rparr>"
  have rest: "rd_rest ?r = to_le_bytes ARM_THREAD_STATE64 @ to_le_bytes ARM_THREAD_STATE64_COUNT @
      (st @ to_le_bytes pc @ ts @ xs)"
    using assms(1) by (simp add: rd_rest_def)
  obtain r1 where r1: "rd_u32_le ?r = Ok (ARM_THREAD_STATE64, r1)" "rd_data r1 = bytes"
    "rd_rest r1 = to_le_bytes ARM_THREAD_STATE64_COUNT @ (st @ to_le_bytes pc @ ts @ xs)"
    using readsD [OF reads_u32 _ rest] assms(3) by auto
  obtain r2 where r2: "rd_u32_le r1 = Ok (ARM_THREAD_STATE64_COUNT, r2)" "rd_data r2 = bytes"
    "rd_rest r2 = st @ to_le_bytes pc @ ts @ xs"
    using readsD [OF reads_u32 _ r1(3)] assms(3) r1(2) by auto
  have len: "rd_pos r2 + 256 \<le> length bytes"
  proof -
    have "length (rd_rest r2) = 256 + length (to_le_bytes pc @ ts @ xs)" using r2(3) assms(2) by simp
    then show ?thesis using r2(2) by (simp add: rd_rest_def)
  qed
  have "rd_rest (r2\<lparr>rd_pos := rd_pos r2 + 256\<rparr>) = drop 256 (rd_rest r2)"
    by (simp add: rd_rest_def add.commute)
  then have rest3: "rd_rest (r2\<lparr>rd_pos := rd_pos r2 + 256\<rparr>) = to_le_bytes pc @ (ts @ xs)"
    using r2(3) assms(2) by simp
  obtain r4 where "rd_u64_le (r2\<lparr>rd_pos := rd_pos r2 + 256\<rparr>) = Ok (pc, r4)"
    using readsD [OF reads_u64 _ rest3] assms(3) r2(2) by auto
  with r1 r2 len assms(3,4) show ?thesis
    by (simp add: parse_arm64_thread_pc_def reader_at_def rd_skip_def rd_seek_def checked_add_usize_def)
qed

lemma reader_at_two:
  fixes f :: "'b \<Rightarrow> 'b \<Rightarrow> macho_image"
  assumes "reads p as a" and "reads p bs b" and "drop (off + 8) bytes = (as @ bs) @ xs" and "length bytes < 2 ^ 64"
    and "off + 8 \<le> length bytes"
  shows "and_then (reader_at bytes (off + 8)) (\<lambda>r. and_then (p r) (\<lambda>(x, r). and_then (p r) (\<lambda>(y, r). Ok (f x y)))) = Ok (f a b)"
proof -
  have "reads (\<lambda>r. and_then (p r) (\<lambda>(x, r). and_then (p r) (\<lambda>(y, r). Ok ((x, y), r)))) (as @ bs) (a, b)"
    using reads_bind [OF assms(1), of "\<lambda>x r. and_then (p r) (\<lambda>(y, r). Ok ((x, y), r))"]
      reads_then_map [OF assms(2), of "Pair a"] by blast
  from reader_at_reads [OF this assms(3-5), of "\<lambda>(x, y). f x y"]
  show ?thesis by (simp only: and_then_assoc_pair and_then.simps prod.case append_assoc)
qed

lemma parse_dylinker_encoded:
  assumes "drop (off + 8) bytes = to_le_bytes (12 :: u32) @ p @ 0 # xs" and "cmd_fields_ok (CDylinker p)" and "length bytes < 2 ^ 64"
    and "off + 8 \<le> length bytes"
  shows "parse_command (cmd_code (CDylinker p)) bytes off base img = Ok (apply_cmd (CDylinker p) img)"
proof -
  let ?r = "\<lparr>rd_data = bytes, rd_pos = off + 8\<rparr>"
  have rest: "rd_rest ?r = to_le_bytes (12 :: u32) @ (p @ 0 # xs)" using assms(1) by (simp add: rd_rest_def)
  obtain r' where r': "rd_u32_le ?r = Ok (12, r')" using readsD [OF reads_u32 _ rest] assms(3) by auto
  have "drop (off + 12) bytes = drop 4 (drop (off + 8) bytes)" by (simp add: add.commute)
  also have "\<dots> = p @ 0 # xs" using assms(1) by simp
  finally have "read_lc_str bytes off 12 = Ok (map byte_char p)" using read_lc_str_at assms(2,3) by simp
  with r' assms(4) show ?thesis by (simp add: parse_command_def lc_defs reader_at_def)
qed

lemma parse_command_encoded:
  assumes "drop (off + 8) bytes = payload c @ xs" and "cmd_ok c" and "length bytes < 2 ^ 64"
    and "off + 8 \<le> length bytes"
  shows "parse_command (cmd_code c) bytes off base img = Ok (apply_cmd c img)"
proof -
  note two = reader_at_two [OF _ _ _ assms(3,4), of _ _ _ _ _ xs]
  have fields: "cmd_fields_ok c" using assms(2) by (simp add: cmd_ok_def)
  note one = reader_at_reads [OF _ _ assms(3,4)]
  show ?thesis
  proof (cases c)
    case (CSegment s)
    have "drop (off + 8) bytes = encode_segment s @ xs" using assms(1) CSegment by simp
    from one [OF reads_segment this] fields CSegment show ?thesis
      by (simp add: parse_command_def parse_segment_alt)
  next
    case (CDylib p)
    then show ?thesis using parse_dylib_encoded [OF _ _ assms(3,4)] assms(1) fields
      by (simp add: parse_command_def lc_defs)
  next
    case (CWeakDylib p)
    then show ?thesis using parse_dylib_encoded [OF _ _ assms(3,4)] assms(1) fields
      by (simp add: parse_command_def lc_defs)
  next
    case (CReexportDylib p)
    then show ?thesis using parse_dylib_encoded [OF _ _ assms(3,4)] assms(1) fields
      by (simp add: parse_command_def lc_defs)
  next
    case (CMain a b)
    with two [OF reads_u64 reads_u64, of a b] assms(1) show ?thesis by (simp add: parse_command_def lc_defs)
  next
    case (CThread st pc ts)
    with parse_thread_encoded [of off bytes st pc ts xs] assms fields show ?thesis
      by (simp add: parse_command_def lc_defs)
  next
    case (CSymtab a b d e)
    with one [OF reads_infos(1) [of a b d e], of xs] assms(1) show ?thesis by (simp add: parse_command_def lc_defs)
  next
    case (CDyldInfo only a b d e)
    with one [OF reads_infos(2) [of only a b d e], of xs] assms(1) show ?thesis by (simp add: parse_command_def lc_defs)
  next
    case (CEncryption a b d e)
    with one [OF reads_infos(3) [of a b d], of "to_le_bytes e @ xs"] assms(1) show ?thesis
      by (simp add: parse_command_def lc_defs)
  next
    case (CUuid u)
    with one [OF reads_bytes [of u 16], of xs] assms(1) fields show ?thesis by (simp add: parse_command_def lc_defs)
  next
    case (CFunctionStarts a b)
    with two [OF reads_u32 reads_u32, of a b] assms(1) show ?thesis by (simp add: parse_command_def lc_defs)
  next
    case (CMinOs v sdk)
    with one [OF reads_u32 [of v], of "to_le_bytes sdk @ xs"] assms(1) show ?thesis
      by (simp add: parse_command_def lc_defs)
  next
    case (COther code bs)
    then show ?thesis using fields by (simp add: parse_command_def known_cmds_def)
  next
    case (CDylinker p)
    with parse_dylinker_encoded [of off bytes p xs] assms fields show ?thesis by simp
  qed
qed

lemma length_encode_cmd: "length (encode_cmd c) = 8 + length (payload c)"
  by (simp add: encode_cmd_def)

lemma parse_commands_encoded:
  assumes "drop off bytes = concat (map encode_cmd cs) @ xs" and "list_all cmd_ok cs"
    and "length bytes < 2 ^ 64" and "off \<le> length bytes"
  shows "parse_commands (length cs) i bytes off base img = Ok (fold apply_cmd cs img)"
  using assms(1,2,4)
proof (induction cs arbitrary: off i img)
  case (Cons c cs)
  let ?r = "\<lparr>rd_data = bytes, rd_pos = off\<rparr>"
  have ok: "cmd_ok c" using Cons.prems(2) by simp
  define ys where "ys = concat (map encode_cmd cs) @ xs"
  have rest: "rd_rest ?r = to_le_bytes (cmd_code c) @ to_le_bytes (of_nat (8 + length (payload c)) :: u32) @
      (payload c @ ys)"
    using Cons.prems(1) by (simp add: rd_rest_def encode_cmd_def [of c] ys_def)
  obtain r1 where r1: "rd_u32_le ?r = Ok (cmd_code c, r1)" "rd_data r1 = bytes"
    "rd_rest r1 = to_le_bytes (of_nat (8 + length (payload c)) :: u32) @ (payload c @ ys)"
    using readsD [OF reads_u32 _ rest] assms(3) by auto
  obtain r2 where r2: "rd_u32_le r1 = Ok (of_nat (8 + length (payload c)), r2)"
    using readsD [OF reads_u32 _ r1(3)] assms(3) r1(2) by auto
  have size: "unat (of_nat (8 + length (payload c)) :: u32) = 8 + length (payload c)"
    unfolding unat_of_nat using ok by (simp add: cmd_ok_def)
  have "length (drop off bytes) = length (encode_cmd c) + length ys"
    using Cons.prems(1) by (simp add: ys_def)
  then have fit: "off + 8 + length (payload c) \<le> length bytes"
    using Cons.prems(3) by (simp add: length_encode_cmd)
  have "drop (off + 8) bytes = drop 8 (drop off bytes)" by (simp add: add.commute)
  then have pay: "drop (off + 8) bytes = payload c @ ys"
    using Cons.prems(1) by (simp add: encode_cmd_def [of c] ys_def)
  have "drop (off + (8 + length (payload c))) bytes = drop (length (payload c)) (drop (off + 8) bytes)"
    by (simp add: add_ac)
  then have nxt: "drop (off + (8 + length (payload c))) bytes = concat (map encode_cmd cs) @ xs"
    using pay by (simp add: ys_def)
  have "parse_command (cmd_code c) bytes off base img = Ok (apply_cmd c img)"
    using parse_command_encoded [OF pay ok assms(3)] fit by simp
  moreover have "parse_commands (length cs) (Suc i) bytes (off + (8 + length (payload c))) base (apply_cmd c img) =
      Ok (fold apply_cmd cs (apply_cmd c img))"
    using Cons.IH [OF nxt] Cons.prems(2) fit by simp
  ultimately show ?case
    using r1 r2 size fit assms(3) Cons.prems(3) by (simp add: reader_at_def checked_add_usize_def)
qed simp

record header_desc =
  d_subtype :: u32
  d_filetype :: u32
  d_sizeofcmds :: u32
  d_flags :: u32
  d_reserved :: u32

definition encode_file :: "header_desc \<Rightarrow> load_cmd list \<Rightarrow> u8 list \<Rightarrow> u8 list" where
  "encode_file h cs contents =
     to_le_bytes MH_MAGIC_64 @ to_le_bytes CPU_TYPE_ARM64 @ to_le_bytes (d_subtype h) @
     to_le_bytes (d_filetype h) @ to_le_bytes (of_nat (length cs) :: u32) @ to_le_bytes (d_sizeofcmds h) @
     to_le_bytes (d_flags h) @ to_le_bytes (d_reserved h) @ concat (map encode_cmd cs) @ contents"

lemma fold_apply_segments:
  "img_segments (fold apply_cmd cs img) =
     img_segments img @ map segment_of (List.map_filter (\<lambda>c. case c of CSegment s \<Rightarrow> Some s | _ \<Rightarrow> None) cs)"
proof (induction cs arbitrary: img)
  case (Cons c cs)
  then show ?case by (cases c) (auto simp: List.map_filter_simps add_dylib_def)
qed (simp add: List.map_filter_simps)

text \<open>The header fields, as one parser.\<close>

definition thin_header :: "(u32 \<times> u32 \<times> u32 \<times> u32) parser" where
  "thin_header r =
     and_then (rd_u32_le r) (\<lambda>(magic, r).
     if magic \<noteq> MH_MAGIC_64
     then Err (MachO (''slice magic '' @ fmt_hex_pad 10 (unat magic) @ '' is not 64-bit Mach-O''))
     else
     and_then (rd_u32_le r) (\<lambda>(cputype, r).
     if cputype \<noteq> CPU_TYPE_ARM64
     then Err (MachO (''cputype '' @ fmt_hex (unat cputype) @ '' is not arm64''))
     else
     and_then (rd_u32_le r) (\<lambda>(cpu_subtype, r).
     and_then (rd_u32_le r) (\<lambda>(filetype, r).
     and_then (rd_u32_le r) (\<lambda>(ncmds, r).
     and_then (rd_u32_le r) (\<lambda>(_, r).
     and_then (rd_u32_le r) (\<lambda>(flags, r).
     and_then (rd_u32_le r) (\<lambda>(_, r). Ok ((cpu_subtype, filetype, ncmds, flags), r)))))))))"

lemma parse_thin_alt:
  "parse_thin bytes base =
     and_then (reader_at bytes base) (\<lambda>r.
     and_then (thin_header r) (\<lambda>(x, r).
     and_then (parse_commands (unat (fst (snd (snd x)))) 0 bytes (base + 32) base
                 (empty_image (fst x) (fst (snd x)) (snd (snd (snd x))))) (\<lambda>img.
       if img_segments img = [] then Err (MachO ''no LC_SEGMENT_64 commands'') else Ok img)))"
  unfolding parse_thin_def thin_header_def
  by (simp only: and_then_assoc_pair and_then.simps prod.case if_distrib [of "\<lambda>m. and_then m f" for f] fst_conv snd_conv)

lemma reads_if_not [reading]: "\<not> P \<Longrightarrow> reads q bs v \<Longrightarrow> reads (\<lambda>r. if P then e r else q r) bs v"
  by simp

lemma reads_thin_header:
  "reads thin_header
     (to_le_bytes MH_MAGIC_64 @ to_le_bytes CPU_TYPE_ARM64 @ to_le_bytes subtype @ to_le_bytes filetype @
      to_le_bytes ncmds @ to_le_bytes (sizeofcmds :: u32) @ to_le_bytes flags @ to_le_bytes (reserved :: u32) @ [])
     (subtype, filetype, ncmds, flags)"
  unfolding thin_header_def [abs_def] by (rule reading | (rule notI, erule notE, rule refl))+

lemma parse_thin_encoded:
  assumes "length (encode_file h cs contents) < 2 ^ 64" and "length cs < 2 ^ 32" and "list_all cmd_ok cs"
  shows "parse_thin (encode_file h cs contents) 0 =
    (let img = fold apply_cmd cs (empty_image (d_subtype h) (d_filetype h) (d_flags h))
     in if img_segments img = [] then Err (MachO ''no LC_SEGMENT_64 commands'') else Ok img)"
proof -
  let ?b = "encode_file h cs contents" and ?r = "\<lparr>rd_data = encode_file h cs contents, rd_pos = 0\<rparr>"
  have rest: "rd_rest ?r = (to_le_bytes MH_MAGIC_64 @ to_le_bytes CPU_TYPE_ARM64 @ to_le_bytes (d_subtype h) @
      to_le_bytes (d_filetype h) @ to_le_bytes (of_nat (length cs) :: u32) @ to_le_bytes (d_sizeofcmds h) @
      to_le_bytes (d_flags h) @ to_le_bytes (d_reserved h) @ []) @ concat (map encode_cmd cs) @ contents"
    by (simp add: rd_rest_def encode_file_def)
  obtain r' where "thin_header ?r = Ok ((d_subtype h, d_filetype h, of_nat (length cs), d_flags h), r')"
    by (rule readsD [OF reads_thin_header _ rest]) (use assms(1) in simp_all)
  moreover have "drop 32 ?b = concat (map encode_cmd cs) @ contents" and "32 \<le> length ?b"
    by (simp_all add: encode_file_def)
  ultimately show ?thesis
    using parse_commands_encoded [of 32 ?b cs contents] assms
    by (simp add: parse_thin_alt reader_at_def unat_of_nat Let_def)
qed

lemma fold_apply_entry:
  "img_entry (fold apply_cmd cs img) =
     (case List.map_filter (\<lambda>c. case c of CMain a b \<Rightarrow> Some (EntryMain a b) | _ \<Rightarrow> None) cs of
        [] \<Rightarrow> (case img_entry img of
           Some e \<Rightarrow> Some e
         | None \<Rightarrow> (case List.map_filter (\<lambda>c. case c of CThread st pc ts \<Rightarrow> Some (EntryThread pc) | _ \<Rightarrow> None) cs of
             [] \<Rightarrow> None | e # _ \<Rightarrow> Some e))
      | es \<Rightarrow> Some (last es))"
proof (induction cs arbitrary: img)
  case (Cons c cs)
  then show ?case by (cases c) (auto simp: List.map_filter_simps add_dylib_def split: list.splits option.splits)
qed (simp add: List.map_filter_simps split: option.split)

lemma rd_u32_first:
  assumes "length bs = 4" and "length (bs @ rest) < 2 ^ 64"
  shows "rd_u32_le (reader_new (bs @ rest)) = Ok (from_le_bytes bs, \<lparr>rd_data = bs @ rest, rd_pos = 4\<rparr>)"
  using assms
  by (simp add: rd_u32_le_def rd_take_def reader_new_def checked_add_usize_def slice_index_def slice_get_def)

lemma macho_parse_encoded:
  assumes "length (encode_file h cs contents) < 2 ^ 64" and "length cs < 2 ^ 32" and "list_all cmd_ok cs"
  shows "macho_parse (encode_file h cs contents) =
    (let img = fold apply_cmd cs (empty_image (d_subtype h) (d_filetype h) (d_flags h))
     in if img_segments img = [] then Err (MachO ''no LC_SEGMENT_64 commands'') else Ok img)"
proof -
  obtain rest where "encode_file h cs contents = to_le_bytes MH_MAGIC_64 @ rest"
    by (simp add: encode_file_def)
  then have "rd_u32_le (reader_new (encode_file h cs contents)) =
      Ok (MH_MAGIC_64, \<lparr>rd_data = encode_file h cs contents, rd_pos = 4\<rparr>)"
    using rd_u32_first [of "to_le_bytes MH_MAGIC_64" rest] assms(1) by simp
  then show ?thesis
    using parse_thin_encoded [OF assms] by (simp add: macho_parse_def magic_defs)
qed

section \<open>Properties\<close>

text \<open>
  C29. Parsing is safe on every input: whatever the bytes, the parser returns an image or an error and
  never panics.
\<close>

theorem macho_parse_no_panic: "macho_parse bytes \<noteq> Panic"
proof -
  have "(if magic = FAT_MAGIC \<or> magic = FAT_MAGIC_64 then select_fat_slice bytes
        else if magic = MH_MAGIC_64 then Ok (bytes, 0)
        else if magic = MH_CIGAM_64 then Err (MachO ''big-endian Mach-O is not supported'')
        else Err (MachO (''unknown magic '' @ fmt_hex_pad 10 (unat magic)))) \<noteq> Panic" for magic
    using select_fat_slice_no_panic by simp
  then show ?thesis
    unfolding macho_parse_def
    by (intro parser_then_no_panic and_then_no_panic safe_parsers)
      (use parse_thin_no_panic in \<open>auto split: prod.split\<close>)
qed

text \<open>
  C6. Round trip: parsing a file written by the reference encoder (header, load commands of every kind
  the loader handles and unknown ones between them, then any contents) yields exactly the image the
  commands describe, in their order; without a segment it is rejected.
\<close>

theorem macho_parse_encode_file:
  assumes "length (encode_file h cs contents) < 2 ^ 64" and "length cs < 2 ^ 32" and "list_all cmd_ok cs"
  shows "macho_parse (encode_file h cs contents) =
    (let img = fold apply_cmd cs (empty_image (d_subtype h) (d_filetype h) (d_flags h))
     in if img_segments img = [] then Err (MachO ''no LC_SEGMENT_64 commands'') else Ok img)"
  by (rule macho_parse_encoded [OF assms])

definition sample_cmds :: "load_cmd list" where
  "sample_cmds =
     [CSegment \<lparr>d_seg_name = [0x5F, 0x5F, 0x54, 0x45, 0x58, 0x54], d_vmaddr = 0x100000000, d_vmsize = 0x4000,
        d_fileoff = 0, d_filesize = 0x40, d_maxprot = 5, d_initprot = 5, d_seg_flags = 0, d_sections = []\<rparr>,
      COther 0x77 [1, 2, 3, 4, 5, 6, 7, 8],
      CMain 0x1000 0]"

definition sample_header :: header_desc where
  "sample_header = \<lparr>d_subtype = 0, d_filetype = 2, d_sizeofcmds = 0, d_flags = 0x200000, d_reserved = 0\<rparr>"

lemma sample_cmds_ok: "list_all cmd_ok sample_cmds"
  by (simp add: sample_cmds_def cmd_ok_def name_bytes_def is_ascii_def known_cmds_def lc_defs encode_segment_def
      pad16_def)

lemma sample_file_length: "length (encode_file sample_header sample_cmds []) < 2 ^ 64"
  by (simp add: encode_file_def sample_cmds_def encode_cmd_def encode_segment_def pad16_def)

theorem macho_parse_encode_file_witness:
  "\<exists>img. macho_parse (encode_file sample_header sample_cmds []) = Ok img \<and>
     img_entry img = Some (EntryMain 0x1000 0) \<and> map seg_vmsize (img_segments img) = [0x4000]"
proof -
  have "length sample_cmds < 2 ^ 32" by (simp add: sample_cmds_def)
  from macho_parse_encode_file [OF sample_file_length this sample_cmds_ok] show ?thesis
    by (simp add: sample_cmds_def sample_header_def empty_image_def segment_of_def Let_def)
qed

text \<open>
  The entry point of a parsed file is the last \<open>LC_MAIN\<close>, wherever it stands, and the first thread
  state only if there is no \<open>LC_MAIN\<close>.
\<close>

theorem macho_parse_entry:
  assumes "length (encode_file h cs contents) < 2 ^ 64" and "length cs < 2 ^ 32" and "list_all cmd_ok cs"
    and "macho_parse (encode_file h cs contents) = Ok img"
  shows "img_entry img =
    (let mains = List.map_filter (\<lambda>c. case c of CMain a b \<Rightarrow> Some (EntryMain a b) | _ \<Rightarrow> None) cs;
         threads = List.map_filter (\<lambda>c. case c of CThread st pc ts \<Rightarrow> Some (EntryThread pc) | _ \<Rightarrow> None) cs
     in if mains \<noteq> [] then Some (last mains) else if threads \<noteq> [] then Some (hd threads) else None)"
proof -
  have "img = fold apply_cmd cs (empty_image (d_subtype h) (d_filetype h) (d_flags h))"
    using macho_parse_encoded [OF assms(1-3)] assms(4) by (auto simp: Let_def split: if_splits)
  then show ?thesis
    using fold_apply_entry [of cs] by (auto simp: empty_image_def Let_def split: list.splits)
qed

theorem macho_parse_entry_witness:
  "img_entry (the_ok (macho_parse (encode_file sample_header sample_cmds []))) = Some (EntryMain 0x1000 0)"
proof -
  have len: "length sample_cmds < 2 ^ 32" by (simp add: sample_cmds_def)
  have "is_ok (macho_parse (encode_file sample_header sample_cmds []))"
    unfolding macho_parse_encoded [OF sample_file_length len sample_cmds_ok]
    by (simp add: sample_cmds_def sample_header_def empty_image_def Let_def)
  from macho_parse_entry [OF sample_file_length len sample_cmds_ok is_ok_the_ok [OF this]]
  show ?thesis by (simp add: sample_cmds_def List.map_filter_simps Let_def)
qed

text \<open>
  A universal binary as it lies on disk (its fields, the magic included, are big-endian) is not
  recognised: the magic is compared after a little-endian read, so the file is rejected as unknown.
\<close>

theorem universal_binary_rejected:
  assumes "length rest < 2 ^ 64 - 4"
  shows "macho_parse (rev (to_le_bytes FAT_MAGIC) @ rest) = Err (MachO ''unknown magic 0xbebafeca'') \<and>
    macho_parse (rev (to_le_bytes FAT_MAGIC_64) @ rest) = Err (MachO ''unknown magic 0xbfbafeca'')"
proof -
  have bytes: "rev (to_le_bytes FAT_MAGIC) = [0xCA, 0xFE, 0xBA, 0xBE]"
    "rev (to_le_bytes FAT_MAGIC_64) = [0xCA, 0xFE, 0xBA, 0xBF]"
    by (simp_all add: to_le_bytes_u32 magic_defs)
  have le: "from_le_bytes [0xCA, 0xFE, 0xBA, 0xBE] = (0xBEBAFECA :: u32)"
    "from_le_bytes [0xCA, 0xFE, 0xBA, 0xBF] = (0xBFBAFECA :: u32)"
    by (simp_all add: from_le_bytes_def)
  have shown: "fmt_hex_pad 10 0xBEBAFECA = ''0xbebafeca''" "fmt_hex_pad 10 0xBFBAFECA = ''0xbfbafeca''"
    by (simp_all add: fmt_hex_pad_def fmt_radix.simps)
  have "rd_u32_le (reader_new ([0xCA, 0xFE, 0xBA, 0xBE] @ rest)) =
      Ok (0xBEBAFECA, \<lparr>rd_data = [0xCA, 0xFE, 0xBA, 0xBE] @ rest, rd_pos = 4\<rparr>)"
    "rd_u32_le (reader_new ([0xCA, 0xFE, 0xBA, 0xBF] @ rest)) =
      Ok (0xBFBAFECA, \<lparr>rd_data = [0xCA, 0xFE, 0xBA, 0xBF] @ rest, rd_pos = 4\<rparr>)"
    using assms by (subst rd_u32_first, simp, simp, simp only: le)+
  then show ?thesis unfolding bytes by (simp add: macho_parse_def magic_defs shown)
qed

theorem universal_binary_rejected_witness:
  "macho_parse ([0xCA, 0xFE, 0xBA, 0xBE] @ [0, 0, 0, 1]) = Err (MachO ''unknown magic 0xbebafeca'')"
proof -
  have "rev (to_le_bytes FAT_MAGIC) = [0xCA, 0xFE, 0xBA, 0xBE]"
    by (simp add: to_le_bytes_u32 magic_defs)
  with universal_binary_rejected [of "[0, 0, 0, 1]"] show ?thesis by simp
qed

end
