(* ===== verification/Dyld_Info.thy ===== *)
theory Dyld_Info
  imports Common
begin

text \<open>
  \<open>loader/src/dyld/bind.rs\<close> and \<open>loader/src/dyld/rebase.rs\<close>: LEB128 numbers and the three opcode
  streams of \<open>LC_DYLD_INFO\<close>.  The mutable locals of each parser are the fields of a state record; the
  body of its loop is one step function, and the loop ends because every step moves the position
  forward.  The parsers index the stream, \<open>stream[p]\<close>, which panics out of bounds; the LEB128 readers
  use \<open>buf.get\<close>.  \<open>read_uleb\<close> occurs twice in the source, with different error texts.
\<close>

section \<open>LEB128\<close>

fun uleb_loop :: "string \<Rightarrow> u8 list \<Rightarrow> u64 \<Rightarrow> u32 \<Rightarrow> nat \<Rightarrow> (u64 \<times> nat) emu_result" where
  "uleb_loop msg [] result shift p = Err (Dyld msg)"
| "uleb_loop msg (b # bs) result shift p =
     (let result = (if shift < 64 then result OR push_bit (unat shift) (ucast (b AND 0x7f)) else result)
      in if b AND 0x80 = 0 then Ok (result, Suc p)
         else uleb_loop msg bs result (shift + 7) (Suc p))"

definition bind_read_uleb :: "u8 list \<Rightarrow> nat \<Rightarrow> (u64 \<times> nat) emu_result" where
  "bind_read_uleb buf p = uleb_loop ''uleb truncated'' (drop p buf) 0 0 p"

definition rebase_read_uleb :: "u8 list \<Rightarrow> nat \<Rightarrow> (u64 \<times> nat) emu_result" where
  "rebase_read_uleb buf p = uleb_loop ''rebase uleb truncated'' (drop p buf) 0 0 p"

text \<open>The shift count of \<open><<\<close> is taken modulo 64 in a release build.\<close>

fun sleb_loop :: "u8 list \<Rightarrow> i64 \<Rightarrow> u32 \<Rightarrow> nat \<Rightarrow> (i64 \<times> nat) emu_result" where
  "sleb_loop [] result shift p = Err (Dyld ''sleb truncated'')"
| "sleb_loop (b # bs) result shift p =
     (let result = result OR push_bit (unat shift mod 64) (ucast (b AND 0x7f)); shift = shift + 7
      in if b AND 0x80 = 0
         then Ok (if shift < 64 \<and> b AND 0x40 \<noteq> 0 then result OR push_bit (unat shift) (- 1) else result, Suc p)
         else sleb_loop bs result shift (Suc p))"

definition read_sleb :: "u8 list \<Rightarrow> nat \<Rightarrow> (i64 \<times> nat) emu_result" where
  "read_sleb buf p = sleb_loop (drop p buf) 0 0 p"

text \<open>The search for the terminator; the index is guarded by the comparison before it.\<close>

function cstr_end :: "u8 list \<Rightarrow> nat \<Rightarrow> nat emu_result" where
  "cstr_end buf p =
     (if p < length buf then and_then (index_at buf p) (\<lambda>b. if b \<noteq> 0 then cstr_end buf (Suc p) else Ok p)
      else Ok p)"
  by pat_completeness auto
termination
  by (relation "measure (\<lambda>(buf, p). length buf - p)") auto

declare cstr_end.simps [simp del]

definition bind_read_cstr :: "u8 list \<Rightarrow> nat \<Rightarrow> (string \<times> nat) emu_result" where
  "bind_read_cstr buf start =
     and_then (cstr_end buf start) (\<lambda>p.
     if length buf \<le> p then Err (Dyld ''bind symbol string not terminated'')
     else and_then (slice_index buf start p) (\<lambda>s. Ok (from_utf8_lossy s, Suc p)))"

section \<open>Bind opcodes\<close>

definition BIND_OPCODE_MASK :: u8 where "BIND_OPCODE_MASK = 0xF0"
definition BIND_IMMEDIATE_MASK :: u8 where "BIND_IMMEDIATE_MASK = 0x0F"
definition BIND_OPCODE_DONE :: u8 where "BIND_OPCODE_DONE = 0x00"
definition BIND_OPCODE_SET_DYLIB_ORDINAL_IMM :: u8 where "BIND_OPCODE_SET_DYLIB_ORDINAL_IMM = 0x10"
definition BIND_OPCODE_SET_DYLIB_ORDINAL_ULEB :: u8 where "BIND_OPCODE_SET_DYLIB_ORDINAL_ULEB = 0x20"
definition BIND_OPCODE_SET_DYLIB_SPECIAL_IMM :: u8 where "BIND_OPCODE_SET_DYLIB_SPECIAL_IMM = 0x30"
definition BIND_OPCODE_SET_SYMBOL_TRAILING_FLAGS_IMM :: u8 where "BIND_OPCODE_SET_SYMBOL_TRAILING_FLAGS_IMM = 0x40"
definition BIND_OPCODE_SET_TYPE_IMM :: u8 where "BIND_OPCODE_SET_TYPE_IMM = 0x50"
definition BIND_OPCODE_SET_ADDEND_SLEB :: u8 where "BIND_OPCODE_SET_ADDEND_SLEB = 0x60"
definition BIND_OPCODE_SET_SEGMENT_AND_OFFSET_ULEB :: u8 where "BIND_OPCODE_SET_SEGMENT_AND_OFFSET_ULEB = 0x70"
definition BIND_OPCODE_ADD_ADDR_ULEB :: u8 where "BIND_OPCODE_ADD_ADDR_ULEB = 0x80"
definition BIND_OPCODE_DO_BIND :: u8 where "BIND_OPCODE_DO_BIND = 0x90"
definition BIND_OPCODE_DO_BIND_ADD_ADDR_ULEB :: u8 where "BIND_OPCODE_DO_BIND_ADD_ADDR_ULEB = 0xA0"
definition BIND_OPCODE_DO_BIND_ADD_ADDR_IMM_SCALED :: u8 where "BIND_OPCODE_DO_BIND_ADD_ADDR_IMM_SCALED = 0xB0"
definition BIND_OPCODE_DO_BIND_ULEB_TIMES_SKIPPING_ULEB :: u8 where
  "BIND_OPCODE_DO_BIND_ULEB_TIMES_SKIPPING_ULEB = 0xC0"

lemmas bind_opcodes = BIND_OPCODE_MASK_def BIND_IMMEDIATE_MASK_def BIND_OPCODE_DONE_def
  BIND_OPCODE_SET_DYLIB_ORDINAL_IMM_def BIND_OPCODE_SET_DYLIB_ORDINAL_ULEB_def
  BIND_OPCODE_SET_DYLIB_SPECIAL_IMM_def BIND_OPCODE_SET_SYMBOL_TRAILING_FLAGS_IMM_def
  BIND_OPCODE_SET_TYPE_IMM_def BIND_OPCODE_SET_ADDEND_SLEB_def BIND_OPCODE_SET_SEGMENT_AND_OFFSET_ULEB_def
  BIND_OPCODE_ADD_ADDR_ULEB_def BIND_OPCODE_DO_BIND_def BIND_OPCODE_DO_BIND_ADD_ADDR_ULEB_def
  BIND_OPCODE_DO_BIND_ADD_ADDR_IMM_SCALED_def BIND_OPCODE_DO_BIND_ULEB_TIMES_SKIPPING_ULEB_def

datatype bind_kind = Pointer | BindOther u8

definition bind_kind_from :: "u8 \<Rightarrow> bind_kind" where
  "bind_kind_from v = (if v = 1 then Pointer else BindOther v)"

record bind_record =
  br_seg_index :: u8
  br_seg_offset :: u64
  br_symbol :: string
  br_lib_ordinal :: i64
  br_addend :: i64
  br_kind :: bind_kind
  br_weak :: bool

text \<open>The current binding: what the \<open>SET_*\<close> opcodes change and \<open>emit\<close> copies.\<close>

record bind_cur =
  bc_seg_index :: u8
  bc_seg_offset :: u64
  bc_symbol :: string
  bc_lib_ordinal :: i64
  bc_addend :: i64
  bc_kind :: bind_kind
  bc_weak :: bool

record bind_state = bind_cur +
  bs_p :: nat
  bs_records :: "bind_record list"

definition bind_emit :: "bind_state \<Rightarrow> bind_state" where
  "bind_emit st = st\<lparr>bs_records := bs_records st @
     [\<lparr>br_seg_index = bc_seg_index st, br_seg_offset = bc_seg_offset st, br_symbol = bc_symbol st,
       br_lib_ordinal = bc_lib_ordinal st, br_addend = bc_addend st, br_kind = bc_kind st,
       br_weak = bc_weak st\<rparr>]\<rparr>"

definition bind_advance :: "u64 \<Rightarrow> bind_state \<Rightarrow> bind_state" where
  "bind_advance n st = st\<lparr>bc_seg_offset := bc_seg_offset st + n\<rparr>"

fun bind_repeat :: "nat \<Rightarrow> u64 \<Rightarrow> bind_state \<Rightarrow> bind_state" where
  "bind_repeat 0 skip st = st"
| "bind_repeat (Suc n) skip st = bind_repeat n skip (bind_advance (8 + skip) (bind_emit st))"

definition bind_step :: "u8 list \<Rightarrow> bind_state \<Rightarrow> bind_state emu_result" where
  "bind_step stream st =
     and_then (index_at stream (bs_p st)) (\<lambda>byte.
     let p = Suc (bs_p st); st = st\<lparr>bs_p := p\<rparr>;
          opcode = byte AND BIND_OPCODE_MASK; imm = byte AND BIND_IMMEDIATE_MASK
      in if opcode = BIND_OPCODE_DONE then Ok st
         else if opcode = BIND_OPCODE_SET_DYLIB_ORDINAL_IMM then Ok (st\<lparr>bc_lib_ordinal := ucast imm\<rparr>)
         else if opcode = BIND_OPCODE_SET_DYLIB_ORDINAL_ULEB then
           and_then (bind_read_uleb stream p) (\<lambda>(v, p). Ok (st\<lparr>bc_lib_ordinal := v, bs_p := p\<rparr>))
         else if opcode = BIND_OPCODE_SET_DYLIB_SPECIAL_IMM then
           Ok (st\<lparr>bc_lib_ordinal := (if imm = 0 then 0 else scast (imm OR 0xF0))\<rparr>)
         else if opcode = BIND_OPCODE_SET_SYMBOL_TRAILING_FLAGS_IMM then
           and_then (bind_read_cstr stream p) (\<lambda>(s, p).
             Ok (st\<lparr>bc_weak := (imm AND 1 \<noteq> 0), bc_symbol := s, bs_p := p\<rparr>))
         else if opcode = BIND_OPCODE_SET_TYPE_IMM then Ok (st\<lparr>bc_kind := bind_kind_from imm\<rparr>)
         else if opcode = BIND_OPCODE_SET_ADDEND_SLEB then
           and_then (read_sleb stream p) (\<lambda>(v, p). Ok (st\<lparr>bc_addend := v, bs_p := p\<rparr>))
         else if opcode = BIND_OPCODE_SET_SEGMENT_AND_OFFSET_ULEB then
           and_then (bind_read_uleb stream p) (\<lambda>(v, p).
             Ok (st\<lparr>bc_seg_index := imm, bc_seg_offset := v, bs_p := p\<rparr>))
         else if opcode = BIND_OPCODE_ADD_ADDR_ULEB then
           and_then (bind_read_uleb stream p) (\<lambda>(v, p).
             Ok (st\<lparr>bc_seg_offset := bc_seg_offset st + v, bs_p := p\<rparr>))
         else if opcode = BIND_OPCODE_DO_BIND then Ok (bind_advance 8 (bind_emit st))
         else if opcode = BIND_OPCODE_DO_BIND_ADD_ADDR_ULEB then
           and_then (bind_read_uleb stream p) (\<lambda>(v, p). Ok (bind_advance (8 + v) (bind_emit (st\<lparr>bs_p := p\<rparr>))))
         else if opcode = BIND_OPCODE_DO_BIND_ADD_ADDR_IMM_SCALED then
           Ok (bind_advance (8 + ucast imm * 8) (bind_emit st))
         else if opcode = BIND_OPCODE_DO_BIND_ULEB_TIMES_SKIPPING_ULEB then
           and_then (bind_read_uleb stream p) (\<lambda>(count, p).
           and_then (bind_read_uleb stream p) (\<lambda>(skip, p).
             Ok (bind_repeat (unat count) skip (st\<lparr>bs_p := p\<rparr>))))
         else Err (Dyld (''unknown bind opcode '' @ fmt_hex (unat opcode))))"

section \<open>Progress\<close>

lemma cstr_end_scan: "cstr_end buf p = Ok (p + length (takeWhile (\<lambda>b. b \<noteq> 0) (drop p buf)))"
proof (induction buf p rule: cstr_end.induct)
  case (1 buf p)
  show ?case
  proof (cases "p < length buf")
    case True
    then have "drop p buf = buf ! p # drop (Suc p) buf" by (rule Cons_nth_drop_Suc [symmetric])
    with 1 [OF True] True show ?thesis by (subst cstr_end.simps) (auto simp: index_at_def)
  qed (subst cstr_end.simps, simp)
qed

lemma uleb_loop_progress: "uleb_loop msg bs res sh p = Ok (v, p') \<Longrightarrow> p < p' \<and> p' \<le> p + length bs"
  by (induction msg bs res sh p rule: uleb_loop.induct) (force simp: Let_def split: if_splits)+

lemma sleb_loop_progress: "sleb_loop bs res sh p = Ok (v, p') \<Longrightarrow> p < p' \<and> p' \<le> p + length bs"
  by (induction bs res sh p rule: sleb_loop.induct) (force simp: Let_def split: if_splits)+

lemma leb_progress:
  "bind_read_uleb buf p = Ok (v, p') \<Longrightarrow> p < p'"
  "rebase_read_uleb buf p = Ok (v, p') \<Longrightarrow> p < p'"
  "read_sleb buf p = Ok (w, p') \<Longrightarrow> p < p'"
  "bind_read_cstr buf p = Ok (s, p') \<Longrightarrow> p < p'"
  using uleb_loop_progress sleb_loop_progress
  by (auto simp: bind_read_uleb_def rebase_read_uleb_def read_sleb_def bind_read_cstr_def cstr_end_scan result_simps
      split: if_splits dest!: uleb_loop_progress sleb_loop_progress)

lemma bind_p [simp]:
  "bs_p (bind_emit st) = bs_p st" "bs_p (bind_advance n st) = bs_p st" "bs_p (bind_repeat k skip st) = bs_p st"
  by (simp add: bind_emit_def, simp add: bind_advance_def)
    (induction k arbitrary: st; simp add: bind_emit_def bind_advance_def)

lemma bind_step_progress: "bind_step stream st = Ok st' \<Longrightarrow> bs_p st < bs_p st' \<and> bs_p st < length stream"
  unfolding bind_step_def Let_def
  by (auto simp: result_simps split: if_splits dest!: leb_progress)

function (sequential) bind_loop :: "u8 list \<Rightarrow> bind_state \<Rightarrow> bind_record list emu_result" where
  "bind_loop stream st =
     (if bs_p st < length stream then and_then (bind_step stream st) (bind_loop stream)
      else Ok (bs_records st))"
  by pat_completeness auto
termination
  by (relation "measure (\<lambda>(stream, st). length stream - bs_p st)") (auto dest: bind_step_progress)

declare bind_loop.simps [simp del]

definition bind_init :: bind_state where
  "bind_init =
     \<lparr>bc_seg_index = 0, bc_seg_offset = 0, bc_symbol = '''', bc_lib_ordinal = 0, bc_addend = 0,
      bc_kind = Pointer, bc_weak = False, bs_p = 0, bs_records = []\<rparr>"

definition parse_bind_info :: "u8 list \<Rightarrow> bind_record list emu_result" where
  "parse_bind_info stream = bind_loop stream bind_init"

section \<open>The lazy stream\<close>

record lazy_bind =
  lb_offset :: u64
  lb_seg_index :: u8
  lb_seg_offset :: u64
  lb_symbol :: string

record lazy_state =
  lz_p :: nat
  lz_seq_start :: u64
  lz_seg_index :: u8
  lz_seg_offset :: u64
  lz_symbol :: string
  lz_out :: "lazy_bind list"

definition lazy_step :: "u8 list \<Rightarrow> lazy_state \<Rightarrow> lazy_state emu_result" where
  "lazy_step stream st =
     and_then (index_at stream (lz_p st)) (\<lambda>byte.
     let p = Suc (lz_p st); st = st\<lparr>lz_p := p\<rparr>;
          opcode = byte AND BIND_OPCODE_MASK; imm = byte AND BIND_IMMEDIATE_MASK
      in if opcode = BIND_OPCODE_DONE then Ok (st\<lparr>lz_seq_start := of_nat p\<rparr>)
         else if opcode = BIND_OPCODE_SET_DYLIB_ORDINAL_IMM \<or> opcode = BIND_OPCODE_SET_DYLIB_SPECIAL_IMM then Ok st
         else if opcode = BIND_OPCODE_SET_DYLIB_ORDINAL_ULEB then
           and_then (bind_read_uleb stream p) (\<lambda>(_, p). Ok (st\<lparr>lz_p := p\<rparr>))
         else if opcode = BIND_OPCODE_SET_SYMBOL_TRAILING_FLAGS_IMM then
           and_then (bind_read_cstr stream p) (\<lambda>(s, p). Ok (st\<lparr>lz_symbol := s, lz_p := p\<rparr>))
         else if opcode = BIND_OPCODE_SET_TYPE_IMM then Ok st
         else if opcode = BIND_OPCODE_SET_ADDEND_SLEB then
           and_then (read_sleb stream p) (\<lambda>(_, p). Ok (st\<lparr>lz_p := p\<rparr>))
         else if opcode = BIND_OPCODE_SET_SEGMENT_AND_OFFSET_ULEB then
           and_then (bind_read_uleb stream p) (\<lambda>(v, p).
             Ok (st\<lparr>lz_seg_index := imm, lz_seg_offset := v, lz_p := p\<rparr>))
         else if opcode = BIND_OPCODE_ADD_ADDR_ULEB then
           and_then (bind_read_uleb stream p) (\<lambda>(v, p).
             Ok (st\<lparr>lz_seg_offset := lz_seg_offset st + v, lz_p := p\<rparr>))
         else if opcode = BIND_OPCODE_DO_BIND then
           Ok (st\<lparr>lz_out := lz_out st @
                 [\<lparr>lb_offset = lz_seq_start st, lb_seg_index = lz_seg_index st,
                   lb_seg_offset = lz_seg_offset st, lb_symbol = lz_symbol st\<rparr>]\<rparr>)
         else Ok st)"

lemma lazy_step_progress: "lazy_step stream st = Ok st' \<Longrightarrow> lz_p st < lz_p st' \<and> lz_p st < length stream"
  unfolding lazy_step_def Let_def
  by (auto simp: result_simps split: if_splits dest!: leb_progress)

function (sequential) lazy_loop :: "u8 list \<Rightarrow> lazy_state \<Rightarrow> lazy_bind list emu_result" where
  "lazy_loop stream st =
     (if lz_p st < length stream then and_then (lazy_step stream st) (lazy_loop stream) else Ok (lz_out st))"
  by pat_completeness auto
termination
  by (relation "measure (\<lambda>(stream, st). length stream - lz_p st)") (auto dest: lazy_step_progress)

declare lazy_loop.simps [simp del]

definition lazy_init :: lazy_state where
  "lazy_init = \<lparr>lz_p = 0, lz_seq_start = 0, lz_seg_index = 0, lz_seg_offset = 0, lz_symbol = '''', lz_out = []\<rparr>"

definition parse_lazy_bind_info :: "u8 list \<Rightarrow> lazy_bind list emu_result" where
  "parse_lazy_bind_info stream = lazy_loop stream lazy_init"

section \<open>Rebase opcodes\<close>

definition REBASE_OPCODE_MASK :: u8 where "REBASE_OPCODE_MASK = 0xF0"
definition REBASE_IMMEDIATE_MASK :: u8 where "REBASE_IMMEDIATE_MASK = 0x0F"
definition REBASE_OPCODE_DONE :: u8 where "REBASE_OPCODE_DONE = 0x00"
definition REBASE_OPCODE_SET_TYPE_IMM :: u8 where "REBASE_OPCODE_SET_TYPE_IMM = 0x10"
definition REBASE_OPCODE_SET_SEGMENT_AND_OFFSET_ULEB :: u8 where "REBASE_OPCODE_SET_SEGMENT_AND_OFFSET_ULEB = 0x20"
definition REBASE_OPCODE_ADD_ADDR_ULEB :: u8 where "REBASE_OPCODE_ADD_ADDR_ULEB = 0x30"
definition REBASE_OPCODE_ADD_ADDR_IMM_SCALED :: u8 where "REBASE_OPCODE_ADD_ADDR_IMM_SCALED = 0x40"
definition REBASE_OPCODE_DO_REBASE_IMM_TIMES :: u8 where "REBASE_OPCODE_DO_REBASE_IMM_TIMES = 0x50"
definition REBASE_OPCODE_DO_REBASE_ULEB_TIMES :: u8 where "REBASE_OPCODE_DO_REBASE_ULEB_TIMES = 0x60"
definition REBASE_OPCODE_DO_REBASE_ADD_ADDR_ULEB :: u8 where "REBASE_OPCODE_DO_REBASE_ADD_ADDR_ULEB = 0x70"
definition REBASE_OPCODE_DO_REBASE_ULEB_TIMES_SKIPPING_ULEB :: u8 where
  "REBASE_OPCODE_DO_REBASE_ULEB_TIMES_SKIPPING_ULEB = 0x80"
definition REBASE_TYPE_POINTER :: u8 where "REBASE_TYPE_POINTER = 1"

lemmas rebase_opcodes = REBASE_OPCODE_MASK_def REBASE_IMMEDIATE_MASK_def REBASE_OPCODE_DONE_def
  REBASE_OPCODE_SET_TYPE_IMM_def REBASE_OPCODE_SET_SEGMENT_AND_OFFSET_ULEB_def
  REBASE_OPCODE_ADD_ADDR_ULEB_def REBASE_OPCODE_ADD_ADDR_IMM_SCALED_def
  REBASE_OPCODE_DO_REBASE_IMM_TIMES_def REBASE_OPCODE_DO_REBASE_ULEB_TIMES_def
  REBASE_OPCODE_DO_REBASE_ADD_ADDR_ULEB_def REBASE_OPCODE_DO_REBASE_ULEB_TIMES_SKIPPING_ULEB_def

record rebase_location =
  rl_seg_index :: u8
  rl_seg_offset :: u64
  rl_rtype :: u8

record rebase_state =
  rb_p :: nat
  rb_seg_index :: u8
  rb_seg_offset :: u64
  rb_rtype :: u8
  rb_out :: "rebase_location list"

definition rebase_emit :: "u64 \<Rightarrow> rebase_state \<Rightarrow> rebase_state" where
  "rebase_emit n st =
     st\<lparr>rb_out := rb_out st @
         [\<lparr>rl_seg_index = rb_seg_index st, rl_seg_offset = rb_seg_offset st, rl_rtype = rb_rtype st\<rparr>],
       rb_seg_offset := rb_seg_offset st + n\<rparr>"

fun rebase_repeat :: "nat \<Rightarrow> u64 \<Rightarrow> rebase_state \<Rightarrow> rebase_state" where
  "rebase_repeat 0 n st = st"
| "rebase_repeat (Suc k) n st = rebase_repeat k n (rebase_emit n st)"

definition rebase_step :: "u8 list \<Rightarrow> rebase_state \<Rightarrow> rebase_state emu_result" where
  "rebase_step stream st =
     and_then (index_at stream (rb_p st)) (\<lambda>byte.
     let p = Suc (rb_p st); st = st\<lparr>rb_p := p\<rparr>;
          opcode = byte AND REBASE_OPCODE_MASK; imm = byte AND REBASE_IMMEDIATE_MASK
      in if opcode = REBASE_OPCODE_DONE then Ok st
         else if opcode = REBASE_OPCODE_SET_TYPE_IMM then Ok (st\<lparr>rb_rtype := imm\<rparr>)
         else if opcode = REBASE_OPCODE_SET_SEGMENT_AND_OFFSET_ULEB then
           and_then (rebase_read_uleb stream p) (\<lambda>(v, p).
             Ok (st\<lparr>rb_seg_index := imm, rb_seg_offset := v, rb_p := p\<rparr>))
         else if opcode = REBASE_OPCODE_ADD_ADDR_ULEB then
           and_then (rebase_read_uleb stream p) (\<lambda>(v, p).
             Ok (st\<lparr>rb_seg_offset := rb_seg_offset st + v, rb_p := p\<rparr>))
         else if opcode = REBASE_OPCODE_ADD_ADDR_IMM_SCALED then
           Ok (st\<lparr>rb_seg_offset := rb_seg_offset st + ucast imm * 8\<rparr>)
         else if opcode = REBASE_OPCODE_DO_REBASE_IMM_TIMES then Ok (rebase_repeat (unat imm) 8 st)
         else if opcode = REBASE_OPCODE_DO_REBASE_ULEB_TIMES then
           and_then (rebase_read_uleb stream p) (\<lambda>(count, p).
             Ok (rebase_repeat (unat count) 8 (st\<lparr>rb_p := p\<rparr>)))
         else if opcode = REBASE_OPCODE_DO_REBASE_ADD_ADDR_ULEB then
           and_then (rebase_read_uleb stream p) (\<lambda>(v, p). Ok (rebase_emit (8 + v) (st\<lparr>rb_p := p\<rparr>)))
         else if opcode = REBASE_OPCODE_DO_REBASE_ULEB_TIMES_SKIPPING_ULEB then
           and_then (rebase_read_uleb stream p) (\<lambda>(count, p).
           and_then (rebase_read_uleb stream p) (\<lambda>(skip, p).
             Ok (rebase_repeat (unat count) (8 + skip) (st\<lparr>rb_p := p\<rparr>))))
         else Err (Dyld (''unknown rebase opcode '' @ fmt_hex (unat opcode))))"

lemma rebase_p [simp]: "rb_p (rebase_emit n st) = rb_p st" "rb_p (rebase_repeat k n st) = rb_p st"
  by (simp add: rebase_emit_def) (induction k arbitrary: st; simp add: rebase_emit_def)

lemma rebase_step_progress: "rebase_step stream st = Ok st' \<Longrightarrow> rb_p st < rb_p st' \<and> rb_p st < length stream"
  unfolding rebase_step_def Let_def
  by (auto simp: result_simps split: if_splits dest!: leb_progress)

function (sequential) rebase_loop :: "u8 list \<Rightarrow> rebase_state \<Rightarrow> rebase_location list emu_result" where
  "rebase_loop stream st =
     (if rb_p st < length stream then and_then (rebase_step stream st) (rebase_loop stream) else Ok (rb_out st))"
  by pat_completeness auto
termination
  by (relation "measure (\<lambda>(stream, st). length stream - rb_p st)") (auto dest: rebase_step_progress)

declare rebase_loop.simps [simp del]

definition rebase_init :: rebase_state where
  "rebase_init = \<lparr>rb_p = 0, rb_seg_index = 0, rb_seg_offset = 0, rb_rtype = REBASE_TYPE_POINTER, rb_out = []\<rparr>"

definition parse_rebase_info :: "u8 list \<Rightarrow> rebase_location list emu_result" where
  "parse_rebase_info stream = rebase_loop stream rebase_init"

end
