(* ===== verification/Dyld_Roundtrip.thy ===== *)
theory Dyld_Roundtrip
  imports Dyld_Info
begin

text \<open>
  Theorems on the dyld streams.  A reference encoder writes LEB128 numbers and opcodes; parsing what it
  wrote yields what an abstract machine over the opcodes computes.
\<close>

section \<open>Seven-bit groups\<close>

lemma group_byte:
  assumes "k < 128"
  shows "(of_nat k :: u8) AND 0x7f = of_nat k" and "(of_nat (128 + k) :: u8) AND 0x7f = of_nat k"
    and "(of_nat k :: u8) AND 0x80 = 0" and "(of_nat (128 + k) :: u8) AND 0x80 \<noteq> 0"
proof -
  have m7: "(0x7f :: u8) = mask 7" by (simp add: mask_eq_exp_minus_1)
  have "take_bit 7 (of_nat n :: u8) = of_nat (take_bit 7 n)" for n by (simp add: take_bit_of_nat)
  then have low: "(of_nat n :: u8) AND 0x7f = of_nat (n mod 128)" for n
    unfolding m7 by (simp add: take_bit_eq_mask [symmetric] take_bit_eq_mod)
  show "(of_nat k :: u8) AND 0x7f = of_nat k" "(of_nat (128 + k) :: u8) AND 0x7f = of_nat k"
    using assms low [of k] low [of "128 + k"] by (simp_all del: of_nat_add)
  have high: "(w AND 0x80 = 0) \<longleftrightarrow> \<not> bit w 7" for w :: u8
    using and_exp_eq_0_iff_not_bit [of w 7] by simp
  have bits: "bit (of_nat n :: u8) 7 \<longleftrightarrow> odd (n div 128)" for n
    using bit_of_nat_iff [where 'a = "8 word", of n 7] by (simp add: bit_iff_odd [of n])
  have "k div 128 = 0" "(128 + k) div 128 = 1" using assms by simp_all
  then show "(of_nat k :: u8) AND 0x80 = 0" "(of_nat (128 + k) :: u8) AND 0x80 \<noteq> 0"
    using high bits [of k] bits [of "128 + k"] by (simp_all del: of_nat_add)
qed

lemma split_group_nat:
  "push_bit s (of_nat n :: u64) = push_bit s (of_nat (n mod 128)) OR push_bit (s + 7) (of_nat (n div 128))"
proof -
  have "n = (n mod 128) OR push_bit 7 (n div 128)"
  proof (rule bit_eqI)
    fix i
    have "bit (n mod 128) i \<longleftrightarrow> i < 7 \<and> bit n i"
      using bit_take_bit_iff [of 7 n i] by (simp add: take_bit_eq_mod)
    moreover have "bit (n div 128) j \<longleftrightarrow> bit n (7 + j)" for j
      using bit_drop_bit_eq [of 7 n] by (simp add: drop_bit_eq_div fun_eq_iff)
    then have "bit (push_bit 7 (n div 128)) i \<longleftrightarrow> 7 \<le> i \<and> bit n i"
      by (cases "7 \<le> i") (simp_all add: bit_push_bit_iff)
    ultimately show "bit n i \<longleftrightarrow> bit ((n mod 128) OR push_bit 7 (n div 128)) i"
      by (auto simp: bit_or_iff not_le)
  qed
  then have "(of_nat n :: u64) = of_nat (n mod 128) OR push_bit 7 (of_nat (n div 128))"
    by (metis of_nat_or_eq of_nat_push_bit)
  then show ?thesis by (simp add: push_bit_or push_bit_push_bit add.commute)
qed

lemma split_group_int:
  "push_bit s (of_int i :: u64) = push_bit s (of_int (i mod 128)) OR push_bit (s + 7) (of_int (i div 128))"
proof -
  have "i = (i mod 128) OR push_bit 7 (i div 128)"
  proof (rule bit_eqI)
    fix k
    have "bit (i mod 128) k \<longleftrightarrow> k < 7 \<and> bit i k"
      using bit_take_bit_iff [of 7 i k] by (simp add: take_bit_eq_mod)
    moreover have "bit (i div 128) j \<longleftrightarrow> bit i (7 + j)" for j
      using bit_drop_bit_eq [of 7 i] by (simp add: drop_bit_eq_div fun_eq_iff)
    then have "bit (push_bit 7 (i div 128)) k \<longleftrightarrow> 7 \<le> k \<and> bit i k"
      by (cases "7 \<le> k") (simp_all add: bit_push_bit_iff)
    ultimately show "bit i k \<longleftrightarrow> bit ((i mod 128) OR push_bit 7 (i div 128)) k"
      by (auto simp: bit_or_iff not_le)
  qed
  then have "(of_int i :: u64) = of_int (i mod 128) OR push_bit 7 (of_int (i div 128))"
    by (metis of_int_or_eq of_int_push_bit)
  then show ?thesis by (simp add: push_bit_or push_bit_push_bit add.commute)
qed

section \<open>LEB128 round trips\<close>

fun encode_uleb :: "nat \<Rightarrow> u8 list" where
  "encode_uleb n = (if n < 128 then [of_nat n] else of_nat (128 + n mod 128) # encode_uleb (n div 128))"

function encode_sleb :: "int \<Rightarrow> u8 list" where
  "encode_sleb i =
     (if i div 128 = 0 \<and> i mod 128 < 64 \<or> i div 128 = - 1 \<and> 64 \<le> i mod 128 then [of_nat (nat (i mod 128))]
      else of_nat (128 + nat (i mod 128)) # encode_sleb (i div 128))"
  by pat_completeness auto
termination
proof (relation "measure (\<lambda>i. nat \<bar>i\<bar>)")
  fix i :: int
  assume go: "\<not> (i div 128 = 0 \<and> i mod 128 < 64 \<or> i div 128 = - 1 \<and> 64 \<le> i mod 128)"
  have "\<bar>q\<bar> < \<bar>128 * q + m\<bar>" if "0 \<le> m" "m < 128" "q = 0 \<Longrightarrow> 64 \<le> m" "q = - 1 \<Longrightarrow> m < 64" for q m :: int
  proof -
    consider "1 \<le> q" | "q = 0" | "q = - 1" | "q \<le> - 2" by linarith
    then show ?thesis using that by cases auto
  qed
  from this [of "i mod 128" "i div 128"] go have "\<bar>i div 128\<bar> < \<bar>i\<bar>" by auto
  then show "(i div 128, i) \<in> measure (\<lambda>i. nat \<bar>i\<bar>)" by simp
qed simp

declare encode_uleb.simps [simp del] encode_sleb.simps [simp del]

lemma ucast_group: "k < 128 \<Longrightarrow> ucast (of_nat k :: u8) = (of_nat k :: u64)"
  by (simp add: unsigned_of_nat take_bit_nat_eq_self)

lemma next_shift: "unat sh + 7 < 2 ^ 32 \<Longrightarrow> unat (sh + 7 :: u32) = unat sh + 7"
  by (subst unat_add_exact) simp_all

lemma guarded_push:
  "(if (sh :: u32) < 64 then r OR push_bit (unat sh) v else r) = r OR push_bit (unat sh) (v :: u64)"
  by (auto simp: word_less_nat_alt not_less intro!: bit_eqI simp: bit_simps)

lemma uleb_loop_encode:
  assumes "unat sh + 7 * length (encode_uleb n) < 2 ^ 32"
  shows "uleb_loop msg (encode_uleb n @ rest) acc sh p =
    Ok (acc OR push_bit (unat sh) (of_nat n), p + length (encode_uleb n))"
  using assms
proof (induction n arbitrary: acc sh p rule: encode_uleb.induct)
  case (1 n)
  show ?case
  proof (cases "n < 128")
    case True
    then show ?thesis
      using group_byte [OF True]
      by (simp add: encode_uleb.simps [of n] guarded_push ucast_group)
  next
    case False
    have k: "n mod 128 < 128" by simp
    from False have len: "length (encode_uleb n) = Suc (length (encode_uleb (n div 128)))"
      by (simp add: encode_uleb.simps [of n])
    then have sh: "unat (sh + 7) = unat sh + 7" using "1.prems" by (intro next_shift) simp
    have ih: "uleb_loop msg (encode_uleb (n div 128) @ rest) acc' (sh + 7) (Suc p) =
        Ok (acc' OR push_bit (unat sh + 7) (of_nat (n div 128)), Suc p + length (encode_uleb (n div 128)))" for acc'
      using "1.IH" [OF False, of "sh + 7" acc' "Suc p"] "1.prems" len sh by simp
    show ?thesis
      using False group_byte(2,4) [OF k] ih
      by (simp add: encode_uleb.simps [of n] guarded_push ucast_group Let_def split_group_nat [of _ n] or.assoc del: of_nat_add)
  qed
qed

lemma encode_uleb_length: "n < 128 ^ Suc k \<Longrightarrow> length (encode_uleb n) \<le> Suc k"
proof (induction k arbitrary: n)
  case (Suc k)
  have "n div 128 < 128 ^ Suc k" using Suc.prems by (simp add: less_mult_imp_div_less mult.commute)
  with Suc.IH [of "n div 128"] show ?case by (simp add: encode_uleb.simps [of n])
qed (simp add: encode_uleb.simps)

lemma encode_uleb_length_u64: "length (encode_uleb (unat (v :: u64))) \<le> 10"
proof -
  have "unat v < 2 ^ 64" by simp
  then have "unat v < 128 ^ Suc 9" by (rule order_less_trans) simp
  then show ?thesis using encode_uleb_length [of "unat v" 9] by simp
qed

lemma uleb_encode:
  "uleb_loop msg (encode_uleb (unat v) @ rest) 0 0 p = Ok (v, p + length (encode_uleb (unat v)))"
  using uleb_loop_encode [of 0 "unat v"] encode_uleb_length_u64 [of v] by simp

lemma sign_bit_byte:
  assumes "k < 128"
  shows "(of_nat k :: u8) AND 0x40 \<noteq> 0 \<longleftrightarrow> 64 \<le> k"
proof -
  have "(of_nat k :: u8) AND 0x40 \<noteq> 0 \<longleftrightarrow> bit (of_nat k :: u8) 6"
    using and_exp_eq_0_iff_not_bit [of "of_nat k :: u8" 6] by simp
  also have "\<dots> \<longleftrightarrow> odd (k div 64)"
    using bit_of_nat_iff [where 'a = "8 word", of k 6] by (simp add: bit_iff_odd [of k])
  also have "\<dots> \<longleftrightarrow> 64 \<le> k"
  proof (cases "64 \<le> k")
    case True
    then have "k div 64 = 1" using assms by simp
    with True show ?thesis by simp
  qed simp
  finally show ?thesis .
qed

lemma sleb_loop_encode:
  assumes "unat sh + 7 * length (encode_sleb i) \<le> 70"
  shows "sleb_loop (encode_sleb i @ rest) acc sh p =
    Ok (acc OR push_bit (unat sh) (of_int i), p + length (encode_sleb i))"
  using assms
proof (induction i arbitrary: acc sh p rule: encode_sleb.induct)
  case (1 i)
  define k where "k = nat (i mod 128)"
  have k: "k < 128" and ik: "int k = i mod 128" by (simp_all add: k_def nat_less_iff)
  have of_k: "(of_nat k :: u64) = of_int (i mod 128)" by (simp flip: ik)
  have pos: "0 < length (encode_sleb i)" by (simp add: encode_sleb.simps [of i])
  with "1.prems" have small: "unat sh < 64" by linarith
  then have sh: "unat (sh + 7) = unat sh + 7" by (intro next_shift) simp
  show ?case
  proof (cases "i div 128 = 0 \<and> i mod 128 < 64 \<or> i div 128 = - 1 \<and> 64 \<le> i mod 128")
    case last: True
    have "(if sh + 7 < 64 \<and> (of_nat k :: u8) AND 0x40 \<noteq> 0 then r OR push_bit (unat (sh + 7)) (- 1) else r) =
        r OR push_bit (unat sh + 7) (of_int (i div 128) :: u64)" for r
    proof (cases "i div 128 = 0")
      case True
      then have "k < 64" using last ik by auto
      with sign_bit_byte [OF k] True show ?thesis by simp
    next
      case False
      then have "i div 128 = - 1" "64 \<le> k" using last ik by auto
      moreover have "push_bit n (- 1 :: u64) = 0" if "64 \<le> n" for n
        using that by (auto intro!: bit_eqI simp: bit_simps)
      ultimately show ?thesis
        using sign_bit_byte [OF k] sh by (auto simp: word_less_nat_alt)
    qed
    moreover have enc: "encode_sleb i = [of_nat k]"
      unfolding encode_sleb.simps [of i] if_P [OF last] k_def ..
    ultimately show ?thesis
      using group_byte(1,3) [OF k] small of_k
      by (simp add: ucast_group k Let_def split_group_int [of _ i] or.assoc)
  next
    case False
    have enc: "encode_sleb i = of_nat (128 + k) # encode_sleb (i div 128)"
      unfolding encode_sleb.simps [of i] if_not_P [OF False] k_def ..
    then have len: "length (encode_sleb i) = Suc (length (encode_sleb (i div 128)))" by simp
    have ih: "sleb_loop (encode_sleb (i div 128) @ rest) acc' (sh + 7) (Suc p) =
        Ok (acc' OR push_bit (unat sh + 7) (of_int (i div 128)), Suc p + length (encode_sleb (i div 128)))" for acc'
      using "1.IH" [OF False, of "sh + 7" acc' "Suc p"] "1.prems" len sh by simp
    show ?thesis
      using group_byte(2,4) [OF k] ih small of_k
      by (simp add: enc ucast_group k Let_def split_group_int [of _ i] or.assoc del: of_nat_add)
  qed
qed

lemma encode_sleb_length:
  "- (64 * 128 ^ k) \<le> i \<Longrightarrow> i < 64 * 128 ^ k \<Longrightarrow> length (encode_sleb i) \<le> Suc k"
proof (induction k arbitrary: i)
  case 0
  then have "i div 128 = 0 \<and> i mod 128 < 64 \<or> i div 128 = - 1 \<and> 64 \<le> i mod 128" by (simp, presburger)
  then show ?case by (simp add: encode_sleb.simps [of i])
next
  case (Suc k)
  have "- (64 * 128 ^ k) \<le> i div 128" "i div 128 < 64 * 128 ^ k" using Suc.prems by simp_all
  from Suc.IH [OF this] show ?case by (simp add: encode_sleb.simps [of i])
qed

lemma sleb_encode:
  "sleb_loop (encode_sleb (sint (v :: u64)) @ rest) 0 0 p = Ok (v, p + length (encode_sleb (sint v)))"
proof -
  have "- (2 ^ 63) \<le> sint v" "sint v < 2 ^ 63"
    using sint_greater_eq [of v] sint_less [of v] by simp_all
  then have "length (encode_sleb (sint v)) \<le> Suc 9" by (intro encode_sleb_length) simp_all
  then show ?thesis using sleb_loop_encode [of 0 "sint v"] by simp
qed

section \<open>The bind stream as a program\<close>

datatype bind_op =
    BDone
  | BOrdinalImm u8
  | BOrdinalUleb u64
  | BSpecialImm u8
  | BSymbol u8 "u8 list"
  | BType u8
  | BAddend i64
  | BSegmentOffset u8 u64
  | BAddAddr u64
  | BBind
  | BBindAddAddr u64
  | BBindScaled u8
  | BBindTimes u64 u64

definition sym_bytes :: "u8 list \<Rightarrow> bool" where
  "sym_bytes s \<longleftrightarrow> is_ascii s \<and> 0 \<notin> set s"

fun bind_op_ok :: "bind_op \<Rightarrow> bool" where
  "bind_op_ok (BOrdinalImm i) \<longleftrightarrow> i < 16"
| "bind_op_ok (BSpecialImm i) \<longleftrightarrow> i < 16"
| "bind_op_ok (BSymbol i s) \<longleftrightarrow> i < 16 \<and> sym_bytes s"
| "bind_op_ok (BType i) \<longleftrightarrow> i < 16"
| "bind_op_ok (BSegmentOffset i v) \<longleftrightarrow> i < 16"
| "bind_op_ok (BBindScaled i) \<longleftrightarrow> i < 16"
| "bind_op_ok _ \<longleftrightarrow> True"

abbreviation uleb :: "u64 \<Rightarrow> u8 list" where
  "uleb v \<equiv> encode_uleb (unat v)"

fun encode_bind_op :: "bind_op \<Rightarrow> u8 list" where
  "encode_bind_op BDone = [0x00]"
| "encode_bind_op (BOrdinalImm i) = [0x10 OR i]"
| "encode_bind_op (BOrdinalUleb v) = 0x20 # uleb v"
| "encode_bind_op (BSpecialImm i) = [0x30 OR i]"
| "encode_bind_op (BSymbol i s) = (0x40 OR i) # s @ [0]"
| "encode_bind_op (BType i) = [0x50 OR i]"
| "encode_bind_op (BAddend v) = 0x60 # encode_sleb (sint v)"
| "encode_bind_op (BSegmentOffset i v) = (0x70 OR i) # uleb v"
| "encode_bind_op (BAddAddr v) = 0x80 # uleb v"
| "encode_bind_op BBind = [0x90]"
| "encode_bind_op (BBindAddAddr v) = 0xA0 # uleb v"
| "encode_bind_op (BBindScaled i) = [0xB0 OR i]"
| "encode_bind_op (BBindTimes n skip) = 0xC0 # uleb n @ uleb skip"

definition record_at :: "bind_cur \<Rightarrow> u64 \<Rightarrow> bind_record" where
  "record_at c off =
     \<lparr>br_seg_index = bc_seg_index c, br_seg_offset = off, br_symbol = bc_symbol c,
      br_lib_ordinal = bc_lib_ordinal c, br_addend = bc_addend c, br_kind = bc_kind c, br_weak = bc_weak c\<rparr>"

definition move_by :: "u64 \<Rightarrow> bind_cur \<Rightarrow> bind_cur" where
  "move_by n c = c\<lparr>bc_seg_offset := bc_seg_offset c + n\<rparr>"

text \<open>What one opcode does: the new current binding and the pointers it asks for.\<close>

fun exec_bind_op :: "bind_op \<Rightarrow> bind_cur \<Rightarrow> bind_cur \<times> bind_record list" where
  "exec_bind_op BDone c = (c, [])"
| "exec_bind_op (BOrdinalImm i) c = (c\<lparr>bc_lib_ordinal := ucast i\<rparr>, [])"
| "exec_bind_op (BOrdinalUleb v) c = (c\<lparr>bc_lib_ordinal := v\<rparr>, [])"
| "exec_bind_op (BSpecialImm i) c = (c\<lparr>bc_lib_ordinal := (if i = 0 then 0 else ucast i - 16)\<rparr>, [])"
| "exec_bind_op (BSymbol i s) c = (c\<lparr>bc_weak := odd i, bc_symbol := map byte_char s\<rparr>, [])"
| "exec_bind_op (BType i) c = (c\<lparr>bc_kind := bind_kind_from i\<rparr>, [])"
| "exec_bind_op (BAddend v) c = (c\<lparr>bc_addend := v\<rparr>, [])"
| "exec_bind_op (BSegmentOffset i v) c = (c\<lparr>bc_seg_index := i, bc_seg_offset := v\<rparr>, [])"
| "exec_bind_op (BAddAddr v) c = (move_by v c, [])"
| "exec_bind_op BBind c = (move_by 8 c, [record_at c (bc_seg_offset c)])"
| "exec_bind_op (BBindAddAddr v) c = (move_by (8 + v) c, [record_at c (bc_seg_offset c)])"
| "exec_bind_op (BBindScaled i) c = (move_by (8 + 8 * ucast i) c, [record_at c (bc_seg_offset c)])"
| "exec_bind_op (BBindTimes n skip) c =
     (move_by (n * (8 + skip)) c,
      map (\<lambda>k. record_at c (bc_seg_offset c + of_nat k * (8 + skip))) [0..<unat n])"

fun run_bind_ops :: "bind_op list \<Rightarrow> bind_cur \<Rightarrow> bind_record list" where
  "run_bind_ops [] c = []"
| "run_bind_ops (op # ops) c = (let (c', rs) = exec_bind_op op c in rs @ run_bind_ops ops c')"

definition bind_cur_init :: bind_cur where
  "bind_cur_init =
     \<lparr>bc_seg_index = 0, bc_seg_offset = 0, bc_symbol = '''', bc_lib_ordinal = 0, bc_addend = 0,
      bc_kind = Pointer, bc_weak = False\<rparr>"

definition state_of :: "bind_cur \<Rightarrow> nat \<Rightarrow> bind_record list \<Rightarrow> bind_state" where
  "state_of c p rs =
     \<lparr>bc_seg_index = bc_seg_index c, bc_seg_offset = bc_seg_offset c, bc_symbol = bc_symbol c,
      bc_lib_ordinal = bc_lib_ordinal c, bc_addend = bc_addend c, bc_kind = bc_kind c, bc_weak = bc_weak c,
      bs_p = p, bs_records = rs\<rparr>"

lemma state_of_simps [simp]:
  "bs_p (state_of c p rs) = p" "bs_records (state_of c p rs) = rs"
  "(state_of c p rs)\<lparr>bs_p := p'\<rparr> = state_of c p' rs"
  "(state_of c p rs)\<lparr>bc_seg_index := i\<rparr> = state_of (c\<lparr>bc_seg_index := i\<rparr>) p rs"
  "(state_of c p rs)\<lparr>bc_seg_offset := v\<rparr> = state_of (c\<lparr>bc_seg_offset := v\<rparr>) p rs"
  "(state_of c p rs)\<lparr>bc_symbol := s\<rparr> = state_of (c\<lparr>bc_symbol := s\<rparr>) p rs"
  "(state_of c p rs)\<lparr>bc_lib_ordinal := l\<rparr> = state_of (c\<lparr>bc_lib_ordinal := l\<rparr>) p rs"
  "(state_of c p rs)\<lparr>bc_addend := l\<rparr> = state_of (c\<lparr>bc_addend := l\<rparr>) p rs"
  "(state_of c p rs)\<lparr>bc_kind := k\<rparr> = state_of (c\<lparr>bc_kind := k\<rparr>) p rs"
  "(state_of c p rs)\<lparr>bc_weak := w\<rparr> = state_of (c\<lparr>bc_weak := w\<rparr>) p rs"
  "bc_seg_offset (state_of c p rs) = bc_seg_offset c"
  by (simp_all add: state_of_def)

lemma bind_emit_state: "bind_emit (state_of c p rs) = state_of c p (rs @ [record_at c (bc_seg_offset c)])"
  by (simp add: bind_emit_def state_of_def record_at_def)

lemma bind_advance_state: "bind_advance n (state_of c p rs) = state_of (move_by n c) p rs"
  by (simp add: bind_advance_def move_by_def)

lemma record_at_move: "record_at (move_by n c) = record_at c" "bc_seg_offset (move_by n c) = bc_seg_offset c + n"
  "move_by m (move_by n c) = move_by (n + m) c" "move_by 0 c = c"
  by (simp_all add: record_at_def move_by_def fun_eq_iff add.assoc)

lemma bind_repeat_state:
  "bind_repeat n skip (state_of c p rs) =
     state_of (move_by (of_nat n * (8 + skip)) c) p
       (rs @ map (\<lambda>k. record_at c (bc_seg_offset c + of_nat k * (8 + skip))) [0..<n])"
proof (induction n arbitrary: c rs)
  case (Suc n)
  have "[0..<Suc n] = 0 # map Suc [0..<n]" by (simp only: upt_conv_Cons zero_less_Suc map_Suc_upt)
  then show ?case
    by (simp add: Suc.IH bind_emit_state bind_advance_state record_at_move algebra_simps comp_def del: upt_Suc)
qed (simp add: record_at_move)

lemma imm_masks:
  assumes "(i :: u8) < 16"
  shows "i AND 0x0F = i" and "i AND 0xF0 = 0"
proof -
  show low: "i AND 0x0F = i" using less_mask_eq [of i 4] assms by (simp add: mask_eq_exp_minus_1)
  have "i AND 0xF0 = (i AND 0x0F) AND 0xF0" by (simp add: low)
  also have "\<dots> = 0" by (simp add: and.assoc)
  finally show "i AND 0xF0 = 0" .
qed

lemma special_ordinal:
  assumes "(i :: u8) < 16"
  shows "scast (i OR 0xF0) = (ucast i - 16 :: i64)"
proof -
  have "i AND 0xF0 = 0" by (rule imm_masks(2) [OF assms])
  then have "i OR 0xF0 = i + 0xF0" by (simp add: disjunctive_add_eq_or)
  moreover have "(0xF0 :: u8) = - 16" by simp
  ultimately have "sint (i OR 0xF0) = sint (i - 16)" by (metis add_uminus_conv_diff)
  also have "\<dots> = uint i - 16"
  proof -
    have "uint i < 16" using assms by (simp add: word_less_def)
    then have "take_bit 8 (uint i - 16 + 128) = uint i + 112"
      by (simp add: take_bit_eq_mod)
    then show ?thesis by (simp add: sint_uint signed_take_bit_eq_take_bit_shift uint_word_ariths take_bit_eq_mod mod_simps)
  qed
  finally show ?thesis by (simp add: scast_eq)
qed

lemma byte_at:
  assumes "drop p stream = (b :: u8) # ys"
  shows "index_at stream p = (Ok b :: u8 emu_result)" and "drop (Suc p) stream = ys" and "p < length stream"
proof -
  show len: "p < length stream" using assms by (metis drop_all not_less list.distinct(1))
  with assms have "stream ! p = b" by (metis hd_drop_conv_nth list.sel(1))
  with len show "index_at stream p = (Ok b :: u8 emu_result)" by (simp add: index_at_def)
  show "drop (Suc p) stream = ys" using assms by (metis drop_Suc drop_tl list.sel(3))
qed

lemma leb_at:
  assumes "drop p stream = uleb v @ ys"
  shows "bind_read_uleb stream p = Ok (v, p + length (uleb v))"
    and "rebase_read_uleb stream p = Ok (v, p + length (uleb v))"
    and "drop (p + length (uleb v)) stream = ys"
  using uleb_encode [of _ v ys p] assms
  by (simp_all add: bind_read_uleb_def rebase_read_uleb_def) (metis add.commute append_eq_conv_conj drop_drop)

lemma sleb_at: "drop p stream = encode_sleb (sint v) @ ys \<Longrightarrow> read_sleb stream p = Ok (v, p + length (encode_sleb (sint v)))"
  using sleb_encode [of v ys p] by (simp add: read_sleb_def)

lemma cstr_at:
  assumes "drop p stream = s @ 0 # ys" and "sym_bytes s"
  shows "bind_read_cstr stream p = Ok (map byte_char s, Suc (p + length s))"
proof -
  have "takeWhile (\<lambda>b. b \<noteq> 0) (s @ 0 # ys) = s" using assms(2) by (induction s) (auto simp: sym_bytes_def is_ascii_def)
  moreover have "p + length s < length stream"
  proof -
    have "length (drop p stream) = length s + Suc (length ys)" using assms(1) by simp
    then show ?thesis by simp
  qed
  ultimately show ?thesis
    using assms by (simp add: bind_read_cstr_def cstr_end_scan slice_index_def slice_get_def from_utf8_lossy_ascii sym_bytes_def)
qed

lemma odd_imm: "((i :: u8) AND 1 \<noteq> 0) \<longleftrightarrow> odd i"
  by (simp add: and_one_eq mod_2_eq_odd)

lemma imm_byte:
  assumes "(i :: u8) < 16" and "op AND 0xF0 = op" and "op AND 0x0F = 0"
  shows "(op OR i) AND 0xF0 = op" and "(op OR i) AND 0x0F = i"
  using imm_masks [OF assms(1)] assms(2,3) by (simp_all add: bit.conj_disj_distrib2)

lemma bind_step_encoded:
  assumes "drop p stream = encode_bind_op op @ ys" and "bind_op_ok op" and "exec_bind_op op c = (c', out)"
  shows "bind_step stream (state_of c p rs) = Ok (state_of c' (p + length (encode_bind_op op)) (rs @ out))"
proof -
  obtain b bs where enc: "encode_bind_op op = b # bs" by (cases op) auto
  note at = byte_at [of p stream b "bs @ ys"]
  have b: "index_at stream p = (Ok b :: u8 emu_result)" and bs: "drop (Suc p) stream = bs @ ys" using at assms(1) enc by simp_all
  have ul: "bind_read_uleb stream (Suc p) = Ok (v, Suc p + length (uleb v))" if "bs = uleb v" for v
    using leb_at(1) bs that by simp
  note st = bind_step_def bind_opcodes Let_def bind_emit_state bind_advance_state
  show ?thesis
  proof (cases op)
    case (BBindTimes n skip)
    have "drop (Suc p) stream = uleb n @ uleb skip @ ys" using bs enc BBindTimes by simp
    note first = leb_at [OF this]
    note second = leb_at [OF first(3)]
    have "b = 0xC0" "c' = move_by (n * (8 + skip)) c"
      "out = map (\<lambda>k. record_at c (bc_seg_offset c + of_nat k * (8 + skip))) [0..<unat n]"
      using enc BBindTimes assms(3) by simp_all
    with first(1) second(1) b BBindTimes show ?thesis
      by (simp add: bind_step_def bind_opcodes Let_def bind_repeat_state add.assoc)
  next
    case (BSymbol i s)
    then have "bind_read_cstr stream (Suc p) = Ok (map byte_char s, Suc (Suc p + length s))"
      using cstr_at [of "Suc p" stream s ys] bs enc assms(2) by simp
    with BSymbol b enc assms(2,3) imm_byte [of i "0x40"] show ?thesis by (auto simp: st odd_imm)
  next
    case (BAddend v)
    then have "read_sleb stream (Suc p) = Ok (v, Suc p + length (encode_sleb (sint v)))"
      using sleb_at [of "Suc p" stream v ys] bs enc by simp
    with BAddend b enc assms(3) show ?thesis by (auto simp: st)
  next
    case (BOrdinalUleb v)
    with ul [of v] b enc assms(3) show ?thesis by (auto simp: st)
  next
    case (BSegmentOffset i v)
    with ul [of v] b enc assms(2,3) imm_byte [of i "0x70"] show ?thesis by (auto simp: st)
  next
    case (BAddAddr v)
    with ul [of v] b enc assms(3) show ?thesis by (auto simp: st move_by_def)
  next
    case (BBindAddAddr v)
    with ul [of v] b enc assms(3) show ?thesis by (auto simp: st)
  next
    case (BOrdinalImm i)
    with b enc assms(2,3) imm_byte [of i "0x10"] show ?thesis by (auto simp: st)
  next
    case (BSpecialImm i)
    with b enc assms(2,3) imm_byte [of i "0x30"] special_ordinal [of i] show ?thesis by (auto simp: st)
  next
    case (BType i)
    with b enc assms(2,3) imm_byte [of i "0x50"] show ?thesis by (auto simp: st)
  next
    case (BBindScaled i)
    with b enc assms(2,3) imm_byte [of i "0xB0"] show ?thesis by (auto simp: st mult.commute)
  qed (use b enc assms(3) in \<open>auto simp: st\<close>)
qed

lemma encode_bind_op_nonempty: "encode_bind_op op \<noteq> []"
  by (cases op) simp_all

lemma bind_loop_encoded:
  assumes "drop p stream = concat (map encode_bind_op ops)" and "list_all bind_op_ok ops"
  shows "bind_loop stream (state_of c p rs) = Ok (rs @ run_bind_ops ops c)"
  using assms
proof (induction ops arbitrary: p c rs)
  case Nil
  then have "length stream \<le> p" by simp
  then show ?case by (simp add: bind_loop.simps [of stream])
next
  case (Cons op ops)
  let ?n = "length (encode_bind_op op)"
  obtain c' out where ex: "exec_bind_op op c = (c', out)" by force
  have here: "drop p stream = encode_bind_op op @ concat (map encode_bind_op ops)" using Cons.prems(1) by simp
  have "drop (p + ?n) stream = drop ?n (drop p stream)" by (simp add: add.commute)
  also have "\<dots> = concat (map encode_bind_op ops)" unfolding here by simp
  finally have rest: "drop (p + ?n) stream = concat (map encode_bind_op ops)" .
  have "bind_step stream (state_of c p rs) = Ok (state_of c' (p + ?n) (rs @ out))"
    using bind_step_encoded [OF here _ ex] Cons.prems(2) by simp
  moreover have "p < length stream"
    using here encode_bind_op_nonempty [of op] by (metis append_is_Nil_conv drop_all not_less)
  ultimately show ?case
    using Cons.IH [OF rest] Cons.prems(2) ex by (simp add: bind_loop.simps [of stream "state_of c p rs"])
qed

section \<open>The lazy stream as a table of entries\<close>

text \<open>An entry as the static linker writes it: where the pointer lives, and the symbol.\<close>

record lazy_entry =
  le_seg :: u8
  le_off :: u64
  le_ordinal :: u8
  le_sym :: "u8 list"

definition lazy_entry_ok :: "lazy_entry \<Rightarrow> bool" where
  "lazy_entry_ok e \<longleftrightarrow> le_seg e < 16 \<and> le_ordinal e < 16 \<and> sym_bytes (le_sym e)"

definition encode_lazy_entry :: "lazy_entry \<Rightarrow> u8 list" where
  "encode_lazy_entry e =
     (0x70 OR le_seg e) # uleb (le_off e) @ (0x10 OR le_ordinal e) # 0x40 # le_sym e @ [0, 0x90, 0x00]"

fun lazy_table :: "nat \<Rightarrow> lazy_entry list \<Rightarrow> lazy_bind list" where
  "lazy_table p [] = []"
| "lazy_table p (e # es) =
     \<lparr>lb_offset = of_nat p, lb_seg_index = le_seg e, lb_seg_offset = le_off e,
      lb_symbol = map byte_char (le_sym e)\<rparr> # lazy_table (p + length (encode_lazy_entry e)) es"

lemma lazy_loop_step:
  assumes "lz_p st < length stream" and "lazy_step stream st = Ok st'"
  shows "lazy_loop stream st = lazy_loop stream st'"
  using assms by (simp add: lazy_loop.simps [of stream st])

lemma lazy_entry_run:
  assumes "drop p stream = encode_lazy_entry e @ ys" and "lazy_entry_ok e"
  shows "lazy_loop stream \<lparr>lz_p = p, lz_seq_start = s, lz_seg_index = g, lz_seg_offset = o1, lz_symbol = n, lz_out = out\<rparr> =
    lazy_loop stream
      \<lparr>lz_p = p + length (encode_lazy_entry e), lz_seq_start = of_nat (p + length (encode_lazy_entry e)),
       lz_seg_index = le_seg e, lz_seg_offset = le_off e, lz_symbol = map byte_char (le_sym e),
       lz_out = out @ [\<lparr>lb_offset = s, lb_seg_index = le_seg e, lb_seg_offset = le_off e,
                        lb_symbol = map byte_char (le_sym e)\<rparr>]\<rparr>"
proof -
  let ?sy = "le_sym e" and ?u = "uleb (le_off e)"
  define q1 where "q1 = Suc p + length ?u"
  define q2 where "q2 = Suc (Suc (Suc q1) + length ?sy)"
  note ok = assms(2) [unfolded lazy_entry_ok_def]
  have d0: "drop p stream = (0x70 OR le_seg e) # ?u @ (0x10 OR le_ordinal e) # 0x40 # ?sy @ [0, 0x90, 0x00] @ ys"
    using assms(1) by (simp add: encode_lazy_entry_def)
  note a0 = byte_at [OF d0]
  note u = leb_at [OF a0(2)]
  note a1 = byte_at [OF u(3)]
  note a2 = byte_at [OF a1(2)]
  have d3: "drop (Suc (Suc q1)) stream = ?sy @ 0 # 0x90 # 0x00 # ys" using a2(2) by (simp add: q1_def)
  note sym = cstr_at [OF d3, OF conjunct2 [OF conjunct2 [OF ok]]]
  have "drop q2 stream = drop (Suc (length ?sy)) (drop (Suc (Suc q1)) stream)" by (simp add: q2_def add_ac)
  then have d4: "drop q2 stream = 0x90 # 0x00 # ys" by (simp add: d3)
  note a4 = byte_at [OF d4]
  note a5 = byte_at [OF a4(2)]
  have len: "p + length (encode_lazy_entry e) = Suc (Suc q2)" by (simp add: encode_lazy_entry_def q1_def q2_def)
  note st = lazy_step_def bind_opcodes Let_def
  let ?st = "\<lambda>pp. \<lparr>lz_p = pp, lz_seq_start = s, lz_seg_index = le_seg e, lz_seg_offset = le_off e, lz_symbol = n, lz_out = out\<rparr>"
  have "lazy_loop stream \<lparr>lz_p = p, lz_seq_start = s, lz_seg_index = g, lz_seg_offset = o1, lz_symbol = n, lz_out = out\<rparr> =
      lazy_loop stream (?st q1)"
    using a0(1,3) u(1) imm_byte [of "le_seg e" "0x70"] ok by (intro lazy_loop_step) (simp_all add: st q1_def)
  also have "\<dots> = lazy_loop stream (?st (Suc q1))"
    using a1(1,3) imm_byte [of "le_ordinal e" "0x10"] ok by (intro lazy_loop_step) (simp_all add: st q1_def)
  also have "\<dots> = lazy_loop stream ((?st q2)\<lparr>lz_symbol := map byte_char ?sy\<rparr>)"
    using a2(1,3) sym by (intro lazy_loop_step) (simp_all add: st q1_def q2_def)
  also have "\<dots> = lazy_loop stream ((?st (Suc q2))\<lparr>lz_symbol := map byte_char ?sy, lz_out := out @
      [\<lparr>lb_offset = s, lb_seg_index = le_seg e, lb_seg_offset = le_off e, lb_symbol = map byte_char ?sy\<rparr>]\<rparr>)"
    using a4(1,3) by (intro lazy_loop_step) (simp_all add: st)
  also have "\<dots> = lazy_loop stream
      \<lparr>lz_p = Suc (Suc q2), lz_seq_start = of_nat (Suc (Suc q2)),
       lz_seg_index = le_seg e, lz_seg_offset = le_off e, lz_symbol = map byte_char ?sy,
       lz_out = out @ [\<lparr>lb_offset = s, lb_seg_index = le_seg e, lb_seg_offset = le_off e,
                        lb_symbol = map byte_char ?sy\<rparr>]\<rparr>"
    using a5(1,3) by (intro lazy_loop_step) (simp_all add: st)
  finally show ?thesis by (simp add: len)
qed

lemma lazy_loop_encoded:
  assumes "drop p stream = concat (map encode_lazy_entry es)" and "list_all lazy_entry_ok es"
  shows "lazy_loop stream \<lparr>lz_p = p, lz_seq_start = of_nat p, lz_seg_index = g, lz_seg_offset = o1, lz_symbol = n, lz_out = out\<rparr> =
    Ok (out @ lazy_table p es)"
  using assms
proof (induction es arbitrary: p g o1 n out)
  case Nil
  then show ?case by (simp add: lazy_loop.simps [of stream])
next
  case (Cons e es)
  have here: "drop p stream = encode_lazy_entry e @ concat (map encode_lazy_entry es)" using Cons.prems(1) by simp
  have "drop (p + length (encode_lazy_entry e)) stream = drop (length (encode_lazy_entry e)) (drop p stream)"
    by (simp add: add.commute)
  also have "\<dots> = concat (map encode_lazy_entry es)" unfolding here by simp
  finally have rest: "drop (p + length (encode_lazy_entry e)) stream = concat (map encode_lazy_entry es)" .
  show ?case using lazy_entry_run [OF here] Cons.IH [OF rest] Cons.prems(2) by simp
qed

section \<open>The rebase stream as a program\<close>

datatype rebase_op =
    RDone
  | RType u8
  | RSegmentOffset u8 u64
  | RAddAddr u64
  | RAddScaled u8
  | RTimesImm u8
  | RTimes u64
  | RRebaseAddAddr u64
  | RTimesSkip u64 u64

fun rebase_op_ok :: "rebase_op \<Rightarrow> bool" where
  "rebase_op_ok (RType i) \<longleftrightarrow> i < 16"
| "rebase_op_ok (RSegmentOffset i v) \<longleftrightarrow> i < 16"
| "rebase_op_ok (RAddScaled i) \<longleftrightarrow> i < 16"
| "rebase_op_ok (RTimesImm i) \<longleftrightarrow> i < 16"
| "rebase_op_ok _ \<longleftrightarrow> True"

fun encode_rebase_op :: "rebase_op \<Rightarrow> u8 list" where
  "encode_rebase_op RDone = [0x00]"
| "encode_rebase_op (RType i) = [0x10 OR i]"
| "encode_rebase_op (RSegmentOffset i v) = (0x20 OR i) # uleb v"
| "encode_rebase_op (RAddAddr v) = 0x30 # uleb v"
| "encode_rebase_op (RAddScaled i) = [0x40 OR i]"
| "encode_rebase_op (RTimesImm i) = [0x50 OR i]"
| "encode_rebase_op (RTimes n) = 0x60 # uleb n"
| "encode_rebase_op (RRebaseAddAddr v) = 0x70 # uleb v"
| "encode_rebase_op (RTimesSkip n skip) = 0x80 # uleb n @ uleb skip"

text \<open>A run of \<open>n\<close> slots, \<open>stride\<close> bytes apart.\<close>

definition slots :: "u8 \<Rightarrow> u8 \<Rightarrow> u64 \<Rightarrow> nat \<Rightarrow> u64 \<Rightarrow> rebase_location list" where
  "slots g t off n stride =
     map (\<lambda>k. \<lparr>rl_seg_index = g, rl_seg_offset = off + of_nat k * stride, rl_rtype = t\<rparr>) [0..<n]"

text \<open>The machine's registers: segment, offset, type.\<close>

fun exec_rebase_op :: "rebase_op \<Rightarrow> u8 \<times> u64 \<times> u8 \<Rightarrow> (u8 \<times> u64 \<times> u8) \<times> rebase_location list" where
  "exec_rebase_op RDone (g, off, t) = ((g, off, t), [])"
| "exec_rebase_op (RType i) (g, off, t) = ((g, off, i), [])"
| "exec_rebase_op (RSegmentOffset i v) (g, off, t) = ((i, v, t), [])"
| "exec_rebase_op (RAddAddr v) (g, off, t) = ((g, off + v, t), [])"
| "exec_rebase_op (RAddScaled i) (g, off, t) = ((g, off + 8 * ucast i, t), [])"
| "exec_rebase_op (RTimesImm i) (g, off, t) = ((g, off + 8 * of_nat (unat i), t), slots g t off (unat i) 8)"
| "exec_rebase_op (RTimes n) (g, off, t) = ((g, off + 8 * n, t), slots g t off (unat n) 8)"
| "exec_rebase_op (RRebaseAddAddr v) (g, off, t) = ((g, off + (8 + v), t), slots g t off 1 (8 + v))"
| "exec_rebase_op (RTimesSkip n skip) (g, off, t) =
     ((g, off + n * (8 + skip), t), slots g t off (unat n) (8 + skip))"

fun run_rebase_ops :: "rebase_op list \<Rightarrow> u8 \<times> u64 \<times> u8 \<Rightarrow> rebase_location list" where
  "run_rebase_ops [] c = []"
| "run_rebase_ops (op # ops) c = (let (c', ls) = exec_rebase_op op c in ls @ run_rebase_ops ops c')"

definition rebase_state_of :: "u8 \<times> u64 \<times> u8 \<Rightarrow> nat \<Rightarrow> rebase_location list \<Rightarrow> rebase_state" where
  "rebase_state_of c p out =
     \<lparr>rb_p = p, rb_seg_index = fst c, rb_seg_offset = fst (snd c), rb_rtype = snd (snd c), rb_out = out\<rparr>"

lemma rebase_repeat_state:
  "rebase_repeat n stride (rebase_state_of (g, off, t) p out) =
     rebase_state_of (g, off + of_nat n * stride, t) p (out @ slots g t off n stride)"
proof (induction n arbitrary: off out)
  case (Suc n)
  have "[0..<Suc n] = 0 # map Suc [0..<n]" by (simp only: upt_conv_Cons zero_less_Suc map_Suc_upt)
  then show ?case
    using Suc.IH [of "off + stride"]
    by (simp add: rebase_emit_def rebase_state_of_def slots_def algebra_simps comp_def del: upt_Suc)
qed (simp add: slots_def)

lemma rebase_emit_state:
  "rebase_emit n (rebase_state_of (g, off, t) p out) =
     rebase_state_of (g, off + n, t) p (out @ slots g t off 1 n)"
  by (simp add: rebase_emit_def rebase_state_of_def slots_def)

lemma rebase_state_of_simps [simp]:
  "rb_p (rebase_state_of c p out) = p" "rb_out (rebase_state_of c p out) = out"
  "(rebase_state_of c p out)\<lparr>rb_p := q\<rparr> = rebase_state_of c q out"
  "(rebase_state_of c p out)\<lparr>rb_rtype := t\<rparr> = rebase_state_of (fst c, fst (snd c), t) p out"
  "(rebase_state_of c p out)\<lparr>rb_seg_offset := v\<rparr> = rebase_state_of (fst c, v, snd (snd c)) p out"
  "(rebase_state_of c p out)\<lparr>rb_seg_index := g\<rparr> = rebase_state_of (g, snd c) p out"
  "rb_seg_offset (rebase_state_of c p out) = fst (snd c)"
  by (simp_all add: rebase_state_of_def)

lemma rebase_step_encoded:
  assumes "drop p stream = encode_rebase_op op @ ys" and "rebase_op_ok op" and "exec_rebase_op op (g, off, t) = (c', out)"
  shows "rebase_step stream (rebase_state_of (g, off, t) p ls) =
    Ok (rebase_state_of c' (p + length (encode_rebase_op op)) (ls @ out))"
proof -
  obtain b bs where enc: "encode_rebase_op op = b # bs" by (cases op) auto
  have b: "index_at stream p = (Ok b :: u8 emu_result)" and bs: "drop (Suc p) stream = bs @ ys" using byte_at [of p stream b "bs @ ys"] assms(1) enc by simp_all
  have ul: "rebase_read_uleb stream (Suc p) = Ok (v, Suc p + length (uleb v))" if "bs = uleb v" for v
    using leb_at(2) bs that by simp
  note st = rebase_step_def rebase_opcodes Let_def rebase_emit_state rebase_repeat_state
  show ?thesis
  proof (cases op)
    case (RTimesSkip n skip)
    have "drop (Suc p) stream = uleb n @ uleb skip @ ys" using bs enc RTimesSkip by simp
    note first = leb_at [OF this]
    note second = leb_at [OF first(3)]
    have "b = 0x80" "c' = (g, off + n * (8 + skip), t)" "out = slots g t off (unat n) (8 + skip)"
      using enc RTimesSkip assms(3) by simp_all
    with first(2) second(2) b RTimesSkip show ?thesis by (simp add: st add.assoc)
  next
    case (RType i)
    with b enc assms(2,3) imm_byte [of i "0x10"] show ?thesis by (auto simp: st)
  next
    case (RSegmentOffset i v)
    with ul [of v] b enc assms(2,3) imm_byte [of i "0x20"] show ?thesis by (auto simp: st)
  next
    case (RAddAddr v)
    with ul [of v] b enc assms(3) show ?thesis by (auto simp: st)
  next
    case (RAddScaled i)
    with b enc assms(2,3) imm_byte [of i "0x40"] show ?thesis by (auto simp: st mult.commute)
  next
    case (RTimesImm i)
    with b enc assms(2,3) imm_byte [of i "0x50"] show ?thesis by (auto simp: st mult.commute)
  next
    case (RTimes n)
    with ul [of n] b enc assms(3) show ?thesis by (auto simp: st mult.commute)
  next
    case (RRebaseAddAddr v)
    with ul [of v] b enc assms(3) show ?thesis by (auto simp: st)
  qed (use b enc assms(3) in \<open>auto simp: st\<close>)
qed

lemma rebase_loop_encoded:
  assumes "drop p stream = concat (map encode_rebase_op ops)" and "list_all rebase_op_ok ops"
  shows "rebase_loop stream (rebase_state_of c p ls) = Ok (ls @ run_rebase_ops ops c)"
  using assms
proof (induction ops arbitrary: p c ls)
  case Nil
  then show ?case by (simp add: rebase_loop.simps [of stream])
next
  case (Cons op ops)
  let ?n = "length (encode_rebase_op op)"
  obtain g off t where c: "c = (g, off, t)" by (cases c)
  obtain c' out where ex: "exec_rebase_op op c = (c', out)" by (cases "exec_rebase_op op c")
  have here: "drop p stream = encode_rebase_op op @ concat (map encode_rebase_op ops)" using Cons.prems(1) by simp
  have "drop (p + ?n) stream = drop ?n (drop p stream)" by (simp add: add.commute)
  also have "\<dots> = concat (map encode_rebase_op ops)" unfolding here by simp
  finally have rest: "drop (p + ?n) stream = concat (map encode_rebase_op ops)" .
  have "rebase_step stream (rebase_state_of c p ls) = Ok (rebase_state_of c' (p + ?n) (ls @ out))"
    using rebase_step_encoded [OF here] ex c Cons.prems(2) by simp
  moreover have "encode_rebase_op op \<noteq> []" by (cases op) simp_all
  then have "p < length stream" using here by (metis append_is_Nil_conv drop_all not_less)
  ultimately show ?case
    using Cons.IH [OF rest] Cons.prems(2) ex by (simp add: rebase_loop.simps [of stream "rebase_state_of c p ls"])
qed

section \<open>No panics\<close>

lemma leb_no_panic [simp]:
  "bind_read_uleb buf p \<noteq> Panic" "rebase_read_uleb buf p \<noteq> Panic" "read_sleb buf p \<noteq> Panic"
  "bind_read_cstr buf p \<noteq> Panic"
proof -
  have "uleb_loop msg bs r s p \<noteq> Panic" for msg bs r s p
    by (induction msg bs r s p rule: uleb_loop.induct) (simp_all add: Let_def)
  then show "bind_read_uleb buf p \<noteq> Panic" "rebase_read_uleb buf p \<noteq> Panic"
    by (simp_all add: bind_read_uleb_def rebase_read_uleb_def)
  have "sleb_loop bs r s p \<noteq> Panic" for bs r s p
    by (induction bs r s p rule: sleb_loop.induct) (simp_all add: Let_def)
  then show "read_sleb buf p \<noteq> Panic" by (simp add: read_sleb_def)
  have "length (takeWhile (\<lambda>b. b \<noteq> 0) (drop p buf)) \<le> length buf - p"
    using length_takeWhile_le [of "\<lambda>b. b \<noteq> 0" "drop p buf"] by simp
  then show "bind_read_cstr buf p \<noteq> Panic"
    by (auto simp: bind_read_cstr_def cstr_end_scan result_simps)
qed

lemma step_no_panic:
  "bs_p st < length stream \<Longrightarrow> bind_step stream st \<noteq> Panic"
  "lz_p ls < length stream \<Longrightarrow> lazy_step stream ls \<noteq> Panic"
  "rb_p rs < length stream \<Longrightarrow> rebase_step stream rs \<noteq> Panic"
  unfolding bind_step_def lazy_step_def rebase_step_def Let_def by (auto simp: result_simps split: prod.split)

lemma bind_loop_no_panic: "bind_loop stream st \<noteq> Panic"
proof (induction stream st rule: bind_loop.induct)
  case (1 stream st)
  then show ?case using step_no_panic(1) [of st stream] by (subst bind_loop.simps) (auto simp: result_simps)
qed

lemma lazy_loop_no_panic: "lazy_loop stream st \<noteq> Panic"
proof (induction stream st rule: lazy_loop.induct)
  case (1 stream st)
  then show ?case using step_no_panic(2) [of st stream] by (subst lazy_loop.simps) (auto simp: result_simps)
qed

lemma rebase_loop_no_panic: "rebase_loop stream st \<noteq> Panic"
proof (induction stream st rule: rebase_loop.induct)
  case (1 stream st)
  then show ?case using step_no_panic(3) [of st stream] by (subst rebase_loop.simps) (auto simp: result_simps)
qed

section \<open>Properties\<close>

text \<open>
  C31. The LEB128 decoders invert the standard encoding of every 64-bit number, unsigned and signed, and
  leave the position just behind it.
\<close>

theorem leb128_roundtrip:
  "bind_read_uleb (pre @ encode_uleb (unat v) @ rest) (length pre) =
     Ok (v, length pre + length (encode_uleb (unat v))) \<and>
   rebase_read_uleb (pre @ encode_uleb (unat v) @ rest) (length pre) =
     Ok (v, length pre + length (encode_uleb (unat v))) \<and>
   read_sleb (pre @ encode_sleb (sint w) @ rest) (length pre) =
     Ok (w, length pre + length (encode_sleb (sint w)))"
  using uleb_encode sleb_encode by (simp add: bind_read_uleb_def rebase_read_uleb_def read_sleb_def)

text \<open>
  C13. Parsing an encoded bind program yields exactly the pointers the program asks for, in order: the
  opcode loop of the source agrees with the abstract machine, in which a repeated bind is a closed-form
  arithmetic progression of slots.
\<close>

theorem parse_bind_info_encoded:
  assumes "list_all bind_op_ok ops"
  shows "parse_bind_info (concat (map encode_bind_op ops)) = Ok (run_bind_ops ops bind_cur_init)"
proof -
  have "bind_init = state_of bind_cur_init 0 []"
    by (simp add: bind_init_def state_of_def bind_cur_init_def)
  then show ?thesis
    using bind_loop_encoded [of 0 "concat (map encode_bind_op ops)" ops bind_cur_init "[]"] assms
    by (simp add: parse_bind_info_def)
qed

theorem parse_bind_info_encoded_witness:
  "map br_seg_offset (the_ok (parse_bind_info (concat (map encode_bind_op
     [BSegmentOffset 2 0x10, BSymbol 0 [0x5F, 0x78], BBind, BBindTimes 2 8, BDone])))) = [0x10, 0x18, 0x28]"
proof -
  have "list_all bind_op_ok [BSegmentOffset 2 0x10, BSymbol 0 [0x5F, 0x78], BBind, BBindTimes 2 8, BDone]"
    by (simp add: sym_bytes_def is_ascii_def)
  moreover have "[0..<2] = [0, 1 :: nat]" by (simp add: upt_rec)
  ultimately show ?thesis
    using parse_bind_info_encoded [OF \<open>list_all _ _\<close>]
    by (simp only: the_ok.simps) (simp add: bind_cur_init_def record_at_def move_by_def)
qed

text \<open>
  C14. Parsing an encoded rebase program yields exactly the slots the program names, in order.
\<close>

theorem parse_rebase_info_encoded:
  assumes "list_all rebase_op_ok ops"
  shows "parse_rebase_info (concat (map encode_rebase_op ops)) =
    Ok (run_rebase_ops ops (0, 0, REBASE_TYPE_POINTER))"
proof -
  have "rebase_init = rebase_state_of (0, 0, REBASE_TYPE_POINTER) 0 []"
    by (simp add: rebase_init_def rebase_state_of_def)
  then show ?thesis
    using rebase_loop_encoded [of 0 "concat (map encode_rebase_op ops)" ops "(0, 0, REBASE_TYPE_POINTER)" "[]"] assms
    by (simp add: parse_rebase_info_def)
qed

theorem parse_rebase_info_encoded_witness:
  "map rl_seg_offset (the_ok (parse_rebase_info (concat (map encode_rebase_op
     [RSegmentOffset 1 0x20, RTimesImm 2, RAddScaled 1, RTimes 1])))) = [0x20, 0x28, 0x38]"
proof -
  have "list_all rebase_op_ok [RSegmentOffset 1 0x20, RTimesImm 2, RAddScaled 1, RTimes 1]" by simp
  moreover have "[0..<2] = [0, 1 :: nat]" by (simp add: upt_rec)
  ultimately show ?thesis
    using parse_rebase_info_encoded [OF \<open>list_all _ _\<close>]
    by (simp only: the_ok.simps) (simp add: slots_def)
qed

text \<open>
  C30. Every lazy entry is recorded under the byte offset at which its opcode sequence starts, the number
  the stub helper of the application passes to the binder.
\<close>

theorem parse_lazy_bind_info_encoded:
  assumes "list_all lazy_entry_ok es"
  shows "parse_lazy_bind_info (concat (map encode_lazy_entry es)) = Ok (lazy_table 0 es)"
  using lazy_loop_encoded [of 0 "concat (map encode_lazy_entry es)" es 0 0 "''''" "[]"] assms
  by (simp add: parse_lazy_bind_info_def lazy_init_def)

theorem parse_lazy_bind_info_encoded_witness:
  "map lb_offset (the_ok (parse_lazy_bind_info (concat (map encode_lazy_entry
     [\<lparr>le_seg = 2, le_off = 0, le_ordinal = 1, le_sym = [0x61]\<rparr>,
      \<lparr>le_seg = 2, le_off = 8, le_ordinal = 1, le_sym = [0x62]\<rparr>])))) = [0, 8]"
proof -
  have "list_all lazy_entry_ok [\<lparr>le_seg = 2, le_off = 0, le_ordinal = 1, le_sym = [0x61]\<rparr>,
      \<lparr>le_seg = 2, le_off = 8, le_ordinal = 1, le_sym = [0x62]\<rparr>]"
    by (simp add: lazy_entry_ok_def sym_bytes_def is_ascii_def word_less_nat_alt)
  from parse_lazy_bind_info_encoded [OF this] show ?thesis
    by (simp only: the_ok.simps) (simp add: encode_lazy_entry_def encode_uleb.simps)
qed

text \<open>
  C32. The three parsers do not crash: on every stream, well formed or not, each index and each slice they take is in
  bounds, so they return a table or an error.  (The memory for the table is the host's: a repeat count is
  not bounded by the stream, which a finding reports.)
\<close>

theorem dyld_streams_no_panic:
  "parse_bind_info stream \<noteq> Panic \<and> parse_lazy_bind_info stream \<noteq> Panic \<and> parse_rebase_info stream \<noteq> Panic"
  by (simp add: parse_bind_info_def parse_lazy_bind_info_def parse_rebase_info_def bind_loop_no_panic
      lazy_loop_no_panic rebase_loop_no_panic)

end
