(* ===== verification/Linker.thy ===== *)
theory Linker
  imports Common
begin

text \<open>
  \<open>loader/src/dyld/linker.rs\<close>: the trait \<open>SymbolResolver\<close> and the default resolver, which gives every
  distinct imported symbol its own trampoline.  The trait is the locale \<open>symbol_resolver\<close>: the laws a
  client of the trait relies on, and what follows from them for a sequence of lookups; \<open>StubResolver\<close> is
  shown to provide them.  A \<open>HashMap\<close> is a map.
\<close>

section \<open>The default resolver\<close>

type_synonym trampoline_table = "u64 \<rightharpoonup> string"

record stub_resolver =
  sr_base :: u64
  sr_stride :: u64
  sr_next :: u64
  sr_forward :: "string \<rightharpoonup> guest_addr"
  sr_reverse :: trampoline_table

definition stub_new :: "guest_addr \<Rightarrow> u64 \<Rightarrow> stub_resolver" where
  "stub_new base stride =
     \<lparr>sr_base = base, sr_stride = stride, sr_next = base, sr_forward = Map.empty, sr_reverse = Map.empty\<rparr>"

definition stub_used :: "stub_resolver \<Rightarrow> u64" where
  "stub_used r = sr_next r - sr_base r"

definition stub_into_table :: "stub_resolver \<Rightarrow> trampoline_table" where
  "stub_into_table r = sr_reverse r"

definition stub_forward :: "stub_resolver \<Rightarrow> (string \<rightharpoonup> u64)" where
  "stub_forward r = sr_forward r"

definition stub_resolve :: "stub_resolver \<Rightarrow> string \<Rightarrow> i64 \<Rightarrow> bool \<Rightarrow> stub_resolver \<times> guest_addr option" where
  "stub_resolve r symbol lib_ordinal weak =
     (case sr_forward r symbol of
        Some addr \<Rightarrow> (r, Some addr)
      | None \<Rightarrow>
          (let addr = sr_next r
           in (r\<lparr>sr_next := sr_next r + sr_stride r,
                 sr_forward := (sr_forward r)(symbol \<mapsto> addr),
                 sr_reverse := (sr_reverse r)(addr \<mapsto> symbol)\<rparr>, Some addr)))"

section \<open>The contract of a resolver\<close>

text \<open>
  \<open>addr_of\<close> is the abstract table of a resolver; \<open>room\<close> says that one more symbol can be given an
  address.  A lookup may extend the table, but never changes an entry, and no two symbols share one.
\<close>

text \<open>The answers to a sequence of lookups, the resolver being threaded through.\<close>

primrec resolve_all ::
  "('r \<Rightarrow> string \<Rightarrow> i64 \<Rightarrow> bool \<Rightarrow> 'r \<times> guest_addr option) \<Rightarrow> 'r \<Rightarrow> (string \<times> i64 \<times> bool) list \<Rightarrow>
     'r \<times> guest_addr option list" where
  "resolve_all resolve r [] = (r, [])"
| "resolve_all resolve r (q # qs) =
     (let (r1, a) = resolve r (fst q) (fst (snd q)) (snd (snd q)); (r2, as) = resolve_all resolve r1 qs
      in (r2, a # as))"

locale symbol_resolver =
  fixes resolve :: "'r \<Rightarrow> string \<Rightarrow> i64 \<Rightarrow> bool \<Rightarrow> 'r \<times> guest_addr option"
    and addr_of :: "'r \<Rightarrow> string \<Rightarrow> guest_addr option"
    and inv :: "'r \<Rightarrow> bool"
    and room :: "nat \<Rightarrow> 'r \<Rightarrow> bool"
  assumes resolve_inv: "inv r \<Longrightarrow> room (Suc n) r \<Longrightarrow> resolve r s l w = (r', res) \<Longrightarrow> inv r'"
    and resolve_room: "inv r \<Longrightarrow> room (Suc n) r \<Longrightarrow> resolve r s l w = (r', res) \<Longrightarrow> room n r'"
    and resolve_records: "inv r \<Longrightarrow> resolve r s l w = (r', res) \<Longrightarrow> addr_of r' s = res"
    and resolve_keeps: "inv r \<Longrightarrow> resolve r s l w = (r', res) \<Longrightarrow> addr_of r t = Some b \<Longrightarrow> addr_of r' t = Some b"
    and addr_inj: "inv r \<Longrightarrow> addr_of r s = Some b \<Longrightarrow> addr_of r t = Some b \<Longrightarrow> s = t"
begin

lemma resolve_all_inv: "inv r \<Longrightarrow> room (length qs) r \<Longrightarrow> resolve_all resolve r qs = (r', as) \<Longrightarrow> inv r'"
proof (induction qs arbitrary: r r' as)
  case (Cons q qs)
  obtain r1 a where r1: "resolve r (fst q) (fst (snd q)) (snd (snd q)) = (r1, a)" by force
  obtain r2 as2 where r2: "resolve_all resolve r1 qs = (r2, as2)" by force
  have "inv r1" "room (length qs) r1"
    using resolve_inv [OF Cons.prems(1) _ r1] resolve_room [OF Cons.prems(1) _ r1] Cons.prems(2) by simp_all
  from Cons.IH [OF this r2] Cons.prems(3) r1 r2 show ?case by simp
qed simp

lemma resolve_all_keeps:
  "inv r \<Longrightarrow> room (length qs) r \<Longrightarrow> resolve_all resolve r qs = (r', as) \<Longrightarrow> addr_of r t = Some b \<Longrightarrow> addr_of r' t = Some b"
proof (induction qs arbitrary: r r' as)
  case (Cons q qs)
  obtain r1 a where r1: "resolve r (fst q) (fst (snd q)) (snd (snd q)) = (r1, a)" by force
  obtain r2 as2 where r2: "resolve_all resolve r1 qs = (r2, as2)" by force
  have "inv r1" "room (length qs) r1"
    using resolve_inv [OF Cons.prems(1) _ r1] resolve_room [OF Cons.prems(1) _ r1] Cons.prems(2) by simp_all
  from Cons.IH [OF this r2 resolve_keeps [OF Cons.prems(1) r1 Cons.prems(4)]] Cons.prems(3) r1 r2
  show ?case by simp
qed simp

text \<open>The answers of a run are the final table: equal symbols get equal answers, and an answer names its symbol.\<close>

lemma resolve_all_table:
  assumes "inv r" and "room (length qs) r" and "resolve_all resolve r qs = (r', as)"
  shows "length as = length qs \<and>
    (\<forall>i < length qs. \<forall>a. as ! i = Some a \<longrightarrow> addr_of r' (fst (qs ! i)) = Some a)"
  using assms
proof (induction qs arbitrary: r r' as)
  case (Cons q qs)
  obtain r1 a where r1: "resolve r (fst q) (fst (snd q)) (snd (snd q)) = (r1, a)" by force
  obtain r2 as2 where r2: "resolve_all resolve r1 qs = (r2, as2)" by force
  have inv1: "inv r1" and room1: "room (length qs) r1"
    using resolve_inv [OF Cons.prems(1) _ r1] resolve_room [OF Cons.prems(1) _ r1] Cons.prems(2) by simp_all
  have eqs: "r' = r2" "as = a # as2" using Cons.prems(3) r1 r2 by simp_all
  have head: "addr_of r' (fst q) = Some b" if "a = Some b" for b
    using resolve_all_keeps [OF inv1 room1 r2] resolve_records [OF Cons.prems(1) r1] that eqs by simp
  note ih = Cons.IH [OF inv1 room1 r2]
  show ?case
  proof (intro conjI allI impI)
    show "length as = length (q # qs)" using ih eqs by simp
    fix i b
    assume "i < length (q # qs)" "as ! i = Some b"
    then show "addr_of r' (fst ((q # qs) ! i)) = Some b" using ih head eqs by (cases i) auto
  qed
qed simp

lemma resolve_all_same_iff:
  assumes "inv r" and "room (length qs) r" and "resolve_all resolve r qs = (r', as)"
    and "i < length qs" and "j < length qs" and "as ! i = Some a" and "as ! j = Some b"
  shows "a = b \<longleftrightarrow> fst (qs ! i) = fst (qs ! j)"
  using resolve_all_table [OF assms(1-3)] addr_inj [OF resolve_all_inv [OF assms(1-3)]] assms(4-7)
  by (metis option.inject)

end

section \<open>The default resolver provides it\<close>

text \<open>\<open>n\<close> trampolines have been given out, one per symbol, without wrapping around.\<close>

definition stub_wf :: "stub_resolver \<Rightarrow> bool" where
  "stub_wf r \<longleftrightarrow> sr_stride r \<noteq> 0 \<and>
     (\<exists>n. unat (sr_next r) = unat (sr_base r) + n * unat (sr_stride r) \<and>
       (\<forall>s a. sr_forward r s = Some a \<longrightarrow> (\<exists>k < n. unat a = unat (sr_base r) + k * unat (sr_stride r)))) \<and>
     (\<forall>s a. sr_forward r s = Some a \<longleftrightarrow> sr_reverse r a = Some s)"

definition stub_room :: "nat \<Rightarrow> stub_resolver \<Rightarrow> bool" where
  "stub_room n r \<longleftrightarrow> unat (sr_next r) + n * unat (sr_stride r) < 2 ^ 64"

lemma stub_wf_new: "stride \<noteq> 0 \<Longrightarrow> stub_wf (stub_new base stride)"
  by (auto simp: stub_wf_def stub_new_def)

lemma stub_fresh:
  assumes "stub_wf r"
  shows "sr_forward r s \<noteq> Some (sr_next r)"
proof
  assume "sr_forward r s = Some (sr_next r)"
  with assms obtain n k where "unat (sr_next r) = unat (sr_base r) + n * unat (sr_stride r)" "k < n"
    "unat (sr_next r) = unat (sr_base r) + k * unat (sr_stride r)" "sr_stride r \<noteq> 0"
    unfolding stub_wf_def by blast
  then show False by (simp add: unsigned_eq_0_iff)
qed

lemma stub_resolve_wf:
  assumes wf: "stub_wf r" and room: "stub_room (Suc n) r" and res: "stub_resolve r s l w = (r', a)"
  shows "stub_wf r'"
proof (cases "sr_forward r s")
  case None
  obtain m where m: "unat (sr_next r) = unat (sr_base r) + m * unat (sr_stride r)"
    "\<And>t b. sr_forward r t = Some b \<Longrightarrow> \<exists>k < m. unat b = unat (sr_base r) + k * unat (sr_stride r)"
    using wf unfolding stub_wf_def by blast
  have r': "r' = r\<lparr>sr_next := sr_next r + sr_stride r, sr_forward := (sr_forward r)(s \<mapsto> sr_next r),
      sr_reverse := (sr_reverse r)(sr_next r \<mapsto> s)\<rparr>"
    using res None by (auto simp: stub_resolve_def Let_def)
  have "unat (sr_next r) + unat (sr_stride r) < 2 ^ 64" using room by (simp add: stub_room_def)
  then have nxt: "unat (sr_next r + sr_stride r) = unat (sr_base r) + Suc m * unat (sr_stride r)"
    using m(1) by (simp add: unat_add_u64)
  have "sr_reverse r (sr_next r) = None"
    using stub_fresh [OF wf] wf unfolding stub_wf_def by (metis not_None_eq)
  have both: "(\<forall>t b. sr_forward r' t = Some b \<longleftrightarrow> sr_reverse r' b = Some t)"
  proof (intro allI)
    fix t b
    have old: "sr_forward r t = Some b \<longleftrightarrow> sr_reverse r b = Some t" using wf by (simp add: stub_wf_def)
    show "sr_forward r' t = Some b \<longleftrightarrow> sr_reverse r' b = Some t"
      using old None \<open>sr_reverse r (sr_next r) = None\<close> stub_fresh [OF wf, of t] by (auto simp: r')
  qed
  have "\<exists>k < Suc m. unat b = unat (sr_base r) + k * unat (sr_stride r)" if "sr_forward r' t = Some b" for t b
  proof (cases "t = s")
    case True
    then have "b = sr_next r" using that by (simp add: r')
    with m(1) show ?thesis by blast
  next
    case False
    then show ?thesis using that m(2) [of t b] by (auto simp: r' less_Suc_eq)
  qed
  then have "\<forall>t b. sr_forward r' t = Some b \<longrightarrow> (\<exists>k < Suc m. unat b = unat (sr_base r') + k * unat (sr_stride r'))"
    by (simp add: r')
  moreover have "unat (sr_next r') = unat (sr_base r') + Suc m * unat (sr_stride r')" "sr_stride r' \<noteq> 0"
    using nxt wf by (simp_all add: r' stub_wf_def)
  ultimately show ?thesis using both unfolding stub_wf_def by blast
next
  case (Some b)
  then show ?thesis using res wf by (simp add: stub_resolve_def)
qed

lemma stub_resolve_room: "stub_room (Suc n) r \<Longrightarrow> stub_resolve r s l w = (r', a) \<Longrightarrow> stub_room n r'"
  by (auto simp: stub_room_def stub_resolve_def Let_def unat_add_u64 split: option.splits)

interpretation stub: symbol_resolver stub_resolve sr_forward stub_wf stub_room
proof unfold_locales
  fix r r' :: stub_resolver and s t l w a b n
  assume wf: "stub_wf r"
  show "sr_forward r s = Some a' \<Longrightarrow> sr_forward r t = Some a' \<Longrightarrow> s = t" for a'
    using wf by (auto simp: stub_wf_def)
  assume res: "stub_resolve r s l w = (r', a)"
  show "sr_forward r' s = a" using res by (auto simp: stub_resolve_def Let_def split: option.splits)
  show "sr_forward r t = Some b \<Longrightarrow> sr_forward r' t = Some b"
    using res by (auto simp: stub_resolve_def Let_def split: option.splits)
  assume room: "stub_room (Suc n) r"
  show "stub_wf r'" by (rule stub_resolve_wf [OF wf room res])
  show "stub_room n r'" by (rule stub_resolve_room [OF room res])
qed

lemma stub_resolve_same_base:
  assumes "stub_resolve r s l w = (r', res)"
  shows "sr_base r' = sr_base r \<and> sr_stride r' = sr_stride r \<and> res \<noteq> None"
proof (cases "sr_forward r s")
  case (Some a)
  with assms have "r' = r" "res = Some a" by (simp_all add: stub_resolve_def)
  then show ?thesis by simp
next
  case None
  with assms show ?thesis by (auto simp: stub_resolve_def Let_def)
qed

lemma stub_resolve_all_same_base:
  "resolve_all stub_resolve r qs = (r', as) \<Longrightarrow>
     sr_base r' = sr_base r \<and> sr_stride r' = sr_stride r \<and> (\<forall>x \<in> set as. x \<noteq> None)"
proof (induction qs arbitrary: r r' as)
  case (Cons q qs)
  obtain r1 res where r1: "stub_resolve r (fst q) (fst (snd q)) (snd (snd q)) = (r1, res)" by force
  obtain r2 as2 where r2: "resolve_all stub_resolve r1 qs = (r2, as2)" by force
  from Cons.IH [OF r2] stub_resolve_same_base [OF r1] Cons.prems r1 r2 show ?case by auto
qed simp

lemma stub_wf_range:
  assumes "stub_wf r" and "sr_forward r s = Some a"
  shows "unat (sr_base r) \<le> unat a \<and> unat a + unat (sr_stride r) \<le> unat (sr_next r)"
proof -
  obtain n k where "unat (sr_next r) = unat (sr_base r) + n * unat (sr_stride r)" "k < n"
    "unat a = unat (sr_base r) + k * unat (sr_stride r)"
    using assms unfolding stub_wf_def by blast
  moreover have "Suc k * unat (sr_stride r) \<le> n * unat (sr_stride r)" using \<open>k < n\<close> by (intro mult_le_mono1) simp
  ultimately show ?thesis by simp
qed

section \<open>Properties\<close>

text \<open>
  C33. A fresh resolver asked for any sequence of symbols (as many as fit above its base) answers every
  one, gives two requests the same address exactly when they name the same symbol, and its reverse table
  leads from every answer back to the symbol.
\<close>

theorem stub_resolver_bijection:
  assumes "stride \<noteq> 0" and "unat base + length qs * unat stride < 2 ^ 64"
    and "resolve_all stub_resolve (stub_new base stride) qs = (r, as)"
    and "i < length qs" and "j < length qs"
  shows "\<exists>a b. as ! i = Some a \<and> as ! j = Some b \<and> (a = b \<longleftrightarrow> fst (qs ! i) = fst (qs ! j)) \<and>
    stub_into_table r a = Some (fst (qs ! i)) \<and>
    unat base \<le> unat a \<and> unat a + unat stride \<le> unat base + unat (stub_used r)"
proof -
  have wf: "stub_wf (stub_new base stride)" using assms(1) by (rule stub_wf_new)
  have room: "stub_room (length qs) (stub_new base stride)" using assms(2) by (simp add: stub_room_def stub_new_def)
  note table = stub.resolve_all_table [OF wf room assms(3)]
  note same = stub_resolve_all_same_base [OF assms(3)]
  have wf': "stub_wf r" by (rule stub.resolve_all_inv [OF wf room assms(3)])
  have "as ! i \<noteq> None" "as ! j \<noteq> None" using same table assms(4,5) by simp_all
  then obtain a b where ab: "as ! i = Some a" "as ! j = Some b" by blast
  then have fwd: "sr_forward r (fst (qs ! i)) = Some a" using table assms(4) by simp
  have bs: "sr_base r = base" "sr_stride r = stride" using same by (simp_all add: stub_new_def)
  have "stub_into_table r a = Some (fst (qs ! i))" using wf' fwd by (simp add: stub_wf_def stub_into_table_def)
  moreover have "unat base \<le> unat (sr_next r)" using stub_wf_range [OF wf' fwd] bs by simp
  then have "unat base + unat (stub_used r) = unat (sr_next r)"
    by (simp add: stub_used_def bs unat_sub word_le_nat_alt)
  ultimately show ?thesis
    using ab stub.resolve_all_same_iff [OF wf room assms(3-5) ab] stub_wf_range [OF wf' fwd] bs by auto
qed

theorem stub_resolver_bijection_witness:
  "\<exists>a b. snd (resolve_all stub_resolve (stub_new 0x1000 16) [(''_open'', 1, False), (''_close'', 1, True)]) ! 0 = Some a \<and>
    snd (resolve_all stub_resolve (stub_new 0x1000 16) [(''_open'', 1, False), (''_close'', 1, True)]) ! 1 = Some b \<and> a \<noteq> b"
proof -
  define qs :: "(string \<times> i64 \<times> bool) list" where "qs = [(''_open'', 1, False), (''_close'', 1, True)]"
  obtain r as where run: "resolve_all stub_resolve (stub_new 0x1000 16) qs = (r, as)" by force
  have "\<exists>a b. as ! 0 = Some a \<and> as ! 1 = Some b \<and> (a = b \<longleftrightarrow> fst (qs ! 0) = fst (qs ! 1)) \<and>
    stub_into_table r a = Some (fst (qs ! 0)) \<and>
    unat (0x1000 :: u64) \<le> unat a \<and> unat a + unat (16 :: u64) \<le> unat (0x1000 :: u64) + unat (stub_used r)"
    by (rule stub_resolver_bijection [OF _ _ run]) (simp_all add: qs_def)
  then show ?thesis using run by (auto simp: qs_def)
qed

end
