(* ===== verification/Effects.thy ===== *)
theory Effects
  imports Rust_Prelude
begin

text \<open>
  Calls that change a state through a mutable reference.  An action returns the new state together with
  the outcome of the call; the state is kept on the error path as well, since the effects before the
  failing call stay.  \<open>keeps P m\<close> says that the action preserves an invariant on every path; its rules
  are collected in \<open>keeps_rules\<close>, so that the invariant of a handler is proved by applying them along
  its text.
\<close>

type_synonym ('s, 'a, 'e) act = "'s \<Rightarrow> 's \<times> ('a, 'e) rust_result"

named_theorems keeps_rules \<open>composition rules for invariants of actions\<close>

definition act_return :: "'a \<Rightarrow> ('s, 'a, 'e) act" where
  "act_return x s = (s, Ok x)"

definition act_fail :: "'e \<Rightarrow> ('s, 'a, 'e) act" where
  "act_fail e s = (s, Err e)"

text \<open>A call that only reads the state.\<close>

definition act_query :: "('s \<Rightarrow> ('a, 'e) rust_result) \<Rightarrow> ('s, 'a, 'e) act" where
  "act_query f s = (s, f s)"

definition act_update :: "('s \<Rightarrow> 's) \<Rightarrow> ('s, unit, 'e) act" where
  "act_update f s = (f s, Ok ())"

text \<open>The operator \<open>?\<close>: the next call runs on the state the previous one left.\<close>

definition act_then :: "('s, 'a, 'e) act \<Rightarrow> ('a \<Rightarrow> ('s, 'b, 'e) act) \<Rightarrow> ('s, 'b, 'e) act" where
  "act_then m f s =
     (case m s of
        (s', Ok x) \<Rightarrow> f x s'
      | (s', Err e) \<Rightarrow> (s', Err e)
      | (s', Panic) \<Rightarrow> (s', Panic))"

text \<open>A \<open>match\<close> on the outcome of a call, and \<open>map_err\<close> before the operator \<open>?\<close>.\<close>

definition act_match ::
    "('s, 'a, 'e) act \<Rightarrow> ('a \<Rightarrow> ('s, 'b, 'd) act) \<Rightarrow> ('e \<Rightarrow> ('s, 'b, 'd) act) \<Rightarrow> ('s, 'b, 'd) act" where
  "act_match m f g s =
     (case m s of
        (s', Ok x) \<Rightarrow> f x s'
      | (s', Err e) \<Rightarrow> g e s'
      | (s', Panic) \<Rightarrow> (s', Panic))"

definition act_map_err :: "('e \<Rightarrow> 'd) \<Rightarrow> ('s, 'a, 'e) act \<Rightarrow> ('s, 'a, 'd) act" where
  "act_map_err f m s = (case m s of (s', r) \<Rightarrow> (s', map_err f r))"

lemma act_simps [simp]:
  "act_return x s = (s, Ok x)"
  "act_fail e s = (s, Err e)"
  "act_query f s = (s, f s)"
  "act_update g s = (g s, Ok ())"
  by (simp_all add: act_return_def act_fail_def act_query_def act_update_def)

lemma act_then_cong [fundef_cong]:
  assumes "m = m'" and "\<And>x. f x = g x"
  shows "act_then m f = act_then m' g"
proof -
  have "f = g" using assms(2) by (rule ext)
  with assms(1) show ?thesis by simp
qed

lemma act_then_simps [simp]:
  "m s = (s', Ok x) \<Longrightarrow> act_then m f s = f x s'"
  "m s = (s', Err e) \<Longrightarrow> act_then m f s = (s', Err e)"
  "m s = (s', Panic) \<Longrightarrow> act_then m f s = (s', Panic)"
  by (simp_all add: act_then_def)

lemma act_then_query [simp]:
  "act_then (act_query q) f s =
     (case q s of Ok x \<Rightarrow> f x s | Err e \<Rightarrow> (s, Err e) | Panic \<Rightarrow> (s, Panic))"
  by (simp add: act_then_def)

lemma act_then_eq_Ok [result_simps]:
  "act_then m f s = (t, Ok y) \<longleftrightarrow> (\<exists>s' x. m s = (s', Ok x) \<and> f x s' = (t, Ok y))"
  by (auto simp: act_then_def split: prod.splits rust_result.splits)

lemma act_then_no_panic:
  assumes "snd (m s) \<noteq> Panic" and "\<And>s' x. m s = (s', Ok x) \<Longrightarrow> snd (f x s') \<noteq> Panic"
  shows "snd (act_then m f s) \<noteq> Panic"
  using assms by (auto simp: act_then_def split: prod.splits rust_result.splits)

section \<open>Invariants of actions\<close>

definition keeps :: "('s \<Rightarrow> bool) \<Rightarrow> ('s, 'a, 'e) act \<Rightarrow> bool" where
  "keeps P m \<longleftrightarrow> (\<forall>s. P s \<longrightarrow> P (fst (m s)))"

lemma keepsD: "keeps P m \<Longrightarrow> P s \<Longrightarrow> m s = (s', r) \<Longrightarrow> P s'"
  unfolding keeps_def by (metis fst_conv)

lemma keepsI: "(\<And>s. P s \<Longrightarrow> P (fst (m s))) \<Longrightarrow> keeps P m"
  by (simp add: keeps_def)

lemma keeps_then [keeps_rules]:
  assumes "keeps P m" and "\<And>x. keeps P (f x)"
  shows "keeps P (act_then m f)"
  using assms unfolding keeps_def act_then_def
  by (force split: prod.splits rust_result.splits)

text \<open>The second call may rely on what the first one returned.\<close>

lemma keeps_then_when:
  assumes "keeps P m" and "\<And>s s' x. m s = (s', Ok x) \<Longrightarrow> keeps P (f x)"
  shows "keeps P (act_then m f)"
proof (rule keepsI)
  fix s
  assume "P s"
  obtain s' r where run: "m s = (s', r)" by (cases "m s")
  then have "P s'" using keepsD [OF assms(1) \<open>P s\<close>] by blast
  with assms(2) [of s s'] run show "P (fst (act_then m f s))" by (cases r) (simp_all add: keeps_def)
qed

lemma keeps_match [keeps_rules]:
  assumes "keeps P m" and "\<And>x. keeps P (f x)" and "\<And>e. keeps P (g e)"
  shows "keeps P (act_match m f g)"
proof (rule keepsI)
  fix s
  assume "P s"
  obtain s' r where run: "m s = (s', r)" by (cases "m s")
  then have "P s'" using keepsD [OF assms(1) \<open>P s\<close>] by blast
  with assms(2,3) run show "P (fst (act_match m f g s))" by (cases r) (simp_all add: act_match_def keeps_def)
qed

lemma keeps_map_err [keeps_rules]: "keeps P m \<Longrightarrow> keeps P (act_map_err f m)"
  by (auto simp: keeps_def act_map_err_def split: prod.splits)

lemma keeps_basic [keeps_rules]:
  "keeps P (act_return x)" "keeps P (act_fail e)" "keeps P (act_query q)"
  by (simp_all add: keeps_def)

lemma keeps_update: "(\<And>s. P s \<Longrightarrow> P (f s)) \<Longrightarrow> keeps P (act_update f)"
  by (simp add: keeps_def)

lemma keeps_if [keeps_rules]: "keeps P m \<Longrightarrow> keeps P n \<Longrightarrow> keeps P (if b then m else n)"
  by simp

lemma keeps_case_option [keeps_rules]:
  "keeps P m \<Longrightarrow> (\<And>x. keeps P (f x)) \<Longrightarrow> keeps P (case u of None \<Rightarrow> m | Some x \<Rightarrow> f x)"
  by (cases u) simp_all

lemma keeps_case_prod [keeps_rules]: "(\<And>x y. keeps P (f x y)) \<Longrightarrow> keeps P (case u of (x, y) \<Rightarrow> f x y)"
  by (cases u) simp

lemma keeps_let [keeps_rules]: "(\<And>x. keeps P (f x)) \<Longrightarrow> keeps P (Let u f)"
  by (simp add: Let_def)

end
