(* ===== verification/Cpu.thy ===== *)
theory Cpu
  imports Common
begin

text \<open>
  \<open>core/src/cpu.rs\<close>: the AArch64 register file, the events an executor reports, and the executors.  The
  native executor is modelled for both targets: on the host it always faults; on the device the call into
  the C backend is the parameter \<open>backend\<close>.
\<close>

section \<open>The register file\<close>

record cpu_context =
  cpu_x :: "u64 list"
  cpu_fp :: u64
  cpu_lr :: u64
  cpu_sp :: u64
  cpu_pc :: u64
  cpu_nzcv :: u64
  cpu_tpidrro_el0 :: u64

definition cpu_default :: cpu_context where
  "cpu_default =
     \<lparr>cpu_x = replicate 29 0, cpu_fp = 0, cpu_lr = 0, cpu_sp = 0, cpu_pc = 0, cpu_nzcv = 0, cpu_tpidrro_el0 = 0\<rparr>"

text \<open>The array \<open>[u64; 29]\<close> of the source has its length in its type; \<open>args\<close> is a \<open>[u64; 4]\<close>.\<close>

definition cpu_wf :: "cpu_context \<Rightarrow> bool" where
  "cpu_wf c \<longleftrightarrow> length (cpu_x c) = 29"

definition cpu_entry :: "u64 \<Rightarrow> u64 \<Rightarrow> u64 \<times> u64 \<times> u64 \<times> u64 \<Rightarrow> cpu_context" where
  "cpu_entry pc sp args =
     (case args of (a, b, c, d) \<Rightarrow>
        cpu_default\<lparr>cpu_x := splice (replicate 29 0) 0 [a, b, c, d], cpu_sp := sp, cpu_pc := pc\<rparr>)"

definition cpu_arg :: "cpu_context \<Rightarrow> nat \<Rightarrow> (u64, 'e) rust_result" where
  "cpu_arg c n = (if n < 8 then Ok (cpu_x c ! n) else Panic)"

definition cpu_set_ret :: "u64 \<Rightarrow> cpu_context \<Rightarrow> cpu_context" where
  "cpu_set_ret v c = c\<lparr>cpu_x := (cpu_x c)[0 := v]\<rparr>"

definition CARRY :: u64 where
  "CARRY = push_bit 29 1"

fun set_syscall_result :: "(u64, u32) rust_result \<Rightarrow> cpu_context \<Rightarrow> cpu_context" where
  "set_syscall_result (Ok v) c = c\<lparr>cpu_x := (cpu_x c)[0 := v], cpu_nzcv := cpu_nzcv c AND NOT CARRY\<rparr>"
| "set_syscall_result (Err errno) c = c\<lparr>cpu_x := (cpu_x c)[0 := ucast errno], cpu_nzcv := cpu_nzcv c OR CARRY\<rparr>"
| "set_syscall_result Panic c = c"

definition cpu_pc_addr :: "cpu_context \<Rightarrow> guest_addr" where
  "cpu_pc_addr c = cpu_pc c"

section \<open>Executors\<close>

datatype exec_event =
    Syscall (event_imm: u16)
  | TrampolineCall (event_addr: guest_addr)
  | Breakpoint (event_brk: u16)
  | Exited (event_code: i32)
  | Fault (fault_pc: guest_addr) (fault_reason: string)

definition native_resume_host :: "unit \<Rightarrow> cpu_context \<Rightarrow> unit \<times> cpu_context \<times> exec_event" where
  "native_resume_host u cpu = (u, cpu, Fault (cpu_pc_addr cpu) ''native executor unavailable on host'')"

text \<open>The backend leaves the registers, and the discriminant with the three out-parameters.\<close>

definition native_resume_device ::
    "('n \<Rightarrow> cpu_context \<Rightarrow> 'n \<times> cpu_context \<times> u32 \<times> u16 \<times> u64 \<times> i32) \<Rightarrow> 'n \<Rightarrow> cpu_context \<Rightarrow>
     'n \<times> cpu_context \<times> exec_event" where
  "native_resume_device backend n cpu =
     (let (n, cpu, disc, imm, addr, code) = backend n cpu
      in (n, cpu,
          if disc = 0 then Syscall imm
          else if disc = 1 then TrampolineCall addr
          else if disc = 2 then Breakpoint imm
          else if disc = 3 then Exited code
          else Fault (cpu_pc_addr cpu) ''native backend fault''))"

definition scripted_resume :: "exec_event list \<Rightarrow> cpu_context \<Rightarrow> exec_event list \<times> cpu_context \<times> exec_event" where
  "scripted_resume events cpu =
     (case events of
        [] \<Rightarrow> ([], cpu, Fault (cpu_pc_addr cpu) ''script exhausted'')
      | e # es \<Rightarrow> (es, cpu, e))"

section \<open>Lemmas\<close>

lemma cpu_arg_ok [simp]: "n < 8 \<Longrightarrow> cpu_arg c n = Ok (cpu_x c ! n)"
  by (simp add: cpu_arg_def)

lemma cpu_wf_simps [simp]:
  "cpu_wf cpu_default"
  "cpu_wf (cpu_entry pc sp args)"
  "cpu_wf (cpu_set_ret v c) = cpu_wf c"
  "cpu_wf (set_syscall_result r c) = cpu_wf c"
  "cpu_wf (c\<lparr>cpu_pc := a\<rparr>) = cpu_wf c"
  "cpu_wf (c\<lparr>cpu_sp := a\<rparr>) = cpu_wf c"
  by (simp_all add: cpu_wf_def cpu_default_def cpu_entry_def cpu_set_ret_def split: prod.splits)
    (cases r; simp)

text \<open>The carry bit and the other condition flags after a system call.\<close>

lemma bit_CARRY: "bit CARRY n \<longleftrightarrow> n = 29"
proof -
  have "CARRY = 2 ^ 29" by (simp add: CARRY_def push_bit_eq_mult)
  moreover have "bit (2 ^ 29 :: u64) n \<longleftrightarrow> n = 29" by (simp only: bit_exp_iff) auto
  ultimately show ?thesis by (simp only:)
qed

lemma set_syscall_result_flags:
  assumes "r \<noteq> Panic"
  shows "bit (cpu_nzcv (set_syscall_result r c)) n = (if n = 29 then (\<exists>e. r = Err e) else bit (cpu_nzcv c) n)"
proof (cases "n < 64")
  case True
  with assms show ?thesis
    by (cases r) (auto simp: bit_CARRY bit_and_iff bit_or_iff bit_not_iff)
next
  case False
  then have "\<not> bit w n" for w :: u64 using bit_imp_le_length [of w n] by auto
  with False show ?thesis by auto
qed

lemma set_syscall_result_x:
  assumes "cpu_wf c"
  shows "i \<noteq> 0 \<Longrightarrow> cpu_x (set_syscall_result r c) ! i = cpu_x c ! i"
    and "cpu_x (set_syscall_result (Ok v) c) ! 0 = v"
    and "cpu_x (set_syscall_result (Err e) c) ! 0 = ucast e"
  using assms by (cases r; simp add: cpu_wf_def)+

section \<open>The executor as an interface\<close>

text \<open>
  What the run loop needs of an executor: it hands back a register file of the right shape.
\<close>

locale executor =
  fixes resume :: "'e \<Rightarrow> cpu_context \<Rightarrow> 'e \<times> cpu_context \<times> exec_event"
    and exec_ok :: "'e \<Rightarrow> bool"
  assumes resume_wf: "exec_ok e \<Longrightarrow> cpu_wf c \<Longrightarrow> resume e c = (e', c', ev) \<Longrightarrow> cpu_wf c' \<and> exec_ok e'"

interpretation scripted: executor scripted_resume "\<lambda>_. True"
  by unfold_locales (auto simp: scripted_resume_def split: list.splits)

interpretation native_host: executor native_resume_host "\<lambda>_. True"
  by unfold_locales (auto simp: native_resume_host_def)

end
