(* ===== verification/Fd_Table.thy ===== *)
theory Fd_Table
  imports Common
begin

text \<open>
  \<open>core/src/fd.rs\<close>: the table of guest file descriptors.  A descriptor is an \<open>i32\<close>; a host file or
  directory handle is a value of type \<open>'f\<close>.  The probing loop of \<open>insert\<close> is a partial function: with
  every one of the \<open>2 ^ 32\<close> descriptors taken it would not return, and the value is then \<open>None\<close>.
\<close>

section \<open>The table\<close>

datatype 'f fd_object = FdStdout | FdStderr | FdStdin | FdFile 'f | FdDir 'f

record 'f fd_table =
  fd_slots :: "i32 \<rightharpoonup> 'f fd_object"
  fd_next :: i32

definition fd_default :: "'f fd_table" where
  "fd_default = \<lparr>fd_slots = [0 \<mapsto> FdStdin, 1 \<mapsto> FdStdout, 2 \<mapsto> FdStderr], fd_next = 3\<rparr>"

partial_function (option) fd_probe :: "(i32 \<rightharpoonup> 'f fd_object) \<Rightarrow> i32 \<Rightarrow> i32 option" where
  "fd_probe slots fd = (if slots fd \<noteq> None then fd_probe slots (fd + 1) else Some fd)"

text \<open>\<open>i32::max\<close> compares as signed numbers.\<close>

definition i32_max :: "i32 \<Rightarrow> i32 \<Rightarrow> i32" where
  "i32_max a b = (if a <s b then b else a)"

definition fd_insert :: "'f fd_object \<Rightarrow> 'f fd_table \<Rightarrow> (i32 \<times> 'f fd_table) option" where
  "fd_insert obj t =
     (case fd_probe (fd_slots t) 3 of
        None \<Rightarrow> None
      | Some fd \<Rightarrow>
          Some (fd, t\<lparr>fd_next := i32_max (fd_next t) (fd + 1), fd_slots := (fd_slots t)(fd \<mapsto> obj)\<rparr>))"

definition fd_get :: "'f fd_table \<Rightarrow> i32 \<Rightarrow> 'f fd_object option" where
  "fd_get t fd = fd_slots t fd"

definition fd_contains :: "'f fd_table \<Rightarrow> i32 \<Rightarrow> bool" where
  "fd_contains t fd \<longleftrightarrow> fd_slots t fd \<noteq> None"

definition is_std_fd :: "i32 \<Rightarrow> bool" where
  "is_std_fd fd \<longleftrightarrow> 0 \<le>s fd \<and> fd \<le>s 2"

text \<open>The removed object is returned as well: dropping it closes the host file.\<close>

definition fd_close :: "i32 \<Rightarrow> 'f fd_table \<Rightarrow> bool \<times> 'f fd_object option \<times> 'f fd_table" where
  "fd_close fd t =
     (if is_std_fd fd then (True, None, t)
      else (fd_slots t fd \<noteq> None, fd_slots t fd, t\<lparr>fd_slots := (fd_slots t)(fd := None)\<rparr>))"

section \<open>Lowest free descriptor\<close>

lemma is_std_fd_iff: "is_std_fd fd \<longleftrightarrow> fd = 0 \<or> fd = 1 \<or> fd = 2"
proof -
  have "is_std_fd fd \<longleftrightarrow> 0 \<le> sint fd \<and> sint fd \<le> 2" by (simp add: is_std_fd_def word_sle_eq)
  also have "\<dots> \<longleftrightarrow> sint fd = 0 \<or> sint fd = 1 \<or> sint fd = 2" by linarith
  also have "\<dots> \<longleftrightarrow> sint fd = sint (0 :: i32) \<or> sint fd = sint (1 :: i32) \<or> sint fd = sint (2 :: i32)" by simp
  finally show ?thesis by (simp only: word_eq_iff_signed [symmetric])
qed

lemma fd_probe_free [simp]: "slots fd = None \<Longrightarrow> fd_probe slots fd = Some fd"
  by (subst fd_probe.simps) simp

lemma fd_probe_taken: "slots fd = Some x \<Longrightarrow> fd_probe slots fd = fd_probe slots (fd + 1)"
  by (subst fd_probe.simps) simp

lemma fd_probe_reaches:
  assumes "slots (fd + of_nat n) = None" and "\<forall>i < n. slots (fd + of_nat i) \<noteq> None"
  shows "fd_probe slots fd = Some (fd + of_nat n)"
  using assms
proof (induction n arbitrary: fd)
  case (Suc n)
  from Suc.prems(2) obtain x where "slots fd = Some x" by fastforce
  moreover have "\<forall>i < n. slots (fd + 1 + of_nat i) \<noteq> None"
    using Suc.prems(2) by (metis Suc_less_eq add.assoc of_nat_Suc)
  ultimately show ?case using Suc.IH [of "fd + 1"] Suc.prems(1) by (simp add: fd_probe_taken add.assoc)
qed simp

text \<open>A table with a free descriptor gives out one.\<close>

lemma fd_probe_least:
  assumes "\<exists>n. slots (fd + of_nat n) = None"
  obtains n where "fd_probe slots fd = Some (fd + of_nat n)" and "slots (fd + of_nat n) = None"
    and "\<forall>i < n. slots (fd + of_nat i) \<noteq> None"
proof
  let ?n = "LEAST n. slots (fd + of_nat n) = None"
  show free: "slots (fd + of_nat ?n) = None" using assms by (rule LeastI_ex)
  show taken: "\<forall>i < ?n. slots (fd + of_nat i) \<noteq> None" using not_less_Least by blast
  show "fd_probe slots fd = Some (fd + of_nat ?n)" by (rule fd_probe_reaches [OF free taken])
qed

lemma sint_small_i32:
  assumes "n < 2 ^ 31"
  shows "sint (of_nat n :: i32) = int n"
proof -
  have "sint (word_of_int (int n) :: i32) = signed_take_bit 31 (int n)" by (simp only: sint_sbintrunc') simp
  also have "\<dots> = int n" using assms by (intro signed_take_bit_int_eq_self) simp_all
  finally show ?thesis by simp
qed

lemma nonneg_i32_of_nat:
  assumes "0 \<le> sint (fd :: i32)"
  shows "fd = of_nat (nat (sint fd))" and "nat (sint fd) < 2 ^ 31"
proof -
  have "of_nat (nat (sint fd)) = (word_of_int (sint fd) :: i32)" using assms by simp
  then show "fd = of_nat (nat (sint fd))" by simp
  show "nat (sint fd) < 2 ^ 31" using sint_lt [of fd] by simp
qed

lemma fd_insert_lowest:
  assumes "2 < sint free" and "fd_slots t free = None"
  obtains fd t' where "fd_insert obj t = Some (fd, t')" and "fd_slots t fd = None" and "2 < sint fd" and "sint fd \<le> sint free"
    and "\<And>i. 2 < sint i \<Longrightarrow> sint i < sint fd \<Longrightarrow> fd_slots t i \<noteq> None"
    and "fd_slots t' = (fd_slots t)(fd \<mapsto> obj)"
proof -
  have shift: "3 + of_nat (k - 3) = (of_nat k :: i32)" if "3 \<le> k" for k :: nat
    using that by (simp add: of_nat_diff)
  define k where "k = nat (sint free) - 3"
  have k: "free = 3 + of_nat k" "k + 3 < 2 ^ 31"
    using nonneg_i32_of_nat [of free] assms(1) shift [of "nat (sint free)"] by (simp_all add: k_def)
  then obtain n where n: "fd_probe (fd_slots t) 3 = Some (3 + of_nat n)" "fd_slots t (3 + of_nat n) = None"
    "\<forall>i < n. fd_slots t (3 + of_nat i) \<noteq> None"
    using fd_probe_least [of "fd_slots t" 3] assms(2) by metis
  have "n \<le> k" using n(3) k(1) assms(2) by (metis not_le)
  have at: "sint (3 + of_nat j :: i32) = int j + 3" if "j \<le> k" for j
    using sint_small_i32 [of "j + 3"] that k(2) by (simp add: add.commute)
  show thesis
  proof (rule that)
    show "fd_insert obj t = Some (3 + of_nat n, t\<lparr>fd_next := i32_max (fd_next t) (3 + of_nat n + 1),
        fd_slots := (fd_slots t)(3 + of_nat n \<mapsto> obj)\<rparr>)"
      by (simp add: fd_insert_def n(1))
    show "fd_slots t (3 + of_nat n) = None" by (rule n(2))
    show "2 < sint (3 + of_nat n :: i32)" "sint (3 + of_nat n :: i32) \<le> sint free"
      using at [of n] at [of k] \<open>n \<le> k\<close> k(1) by simp_all
    fix i :: i32
    assume i: "2 < sint i" "sint i < sint (3 + of_nat n :: i32)"
    have "i = 3 + of_nat (nat (sint i) - 3)"
      using nonneg_i32_of_nat(1) [of i] shift [of "nat (sint i)"] i(1) by simp
    moreover have "nat (sint i) - 3 < n" using i at [of n] \<open>n \<le> k\<close> by simp
    ultimately show "fd_slots t i \<noteq> None" using n(3) by metis
  qed simp
qed

section \<open>Well-formed tables\<close>

text \<open>The three standard streams are where they were put at the start.\<close>

definition fd_wf :: "'f fd_table \<Rightarrow> bool" where
  "fd_wf t \<longleftrightarrow> fd_slots t 0 = Some FdStdin \<and> fd_slots t 1 = Some FdStdout \<and> fd_slots t 2 = Some FdStderr"

lemma fd_wf_default: "fd_wf fd_default"
  by (simp add: fd_wf_def fd_default_def)

lemma fd_probe_result: "fd_probe slots fd = Some fd' \<Longrightarrow> slots fd' = None"
  by (rule fd_probe.raw_induct [where P = "\<lambda>slots fd fd'. slots fd' = None"]) (auto split: if_splits)

lemma fd_wf_insert: "fd_wf t \<Longrightarrow> fd_insert obj t = Some (fd, t') \<Longrightarrow> fd_wf t'"
  by (auto simp: fd_insert_def fd_wf_def split: option.splits dest!: fd_probe_result)

lemma fd_wf_close: "fd_wf t \<Longrightarrow> fd_wf (snd (snd (fd_close fd t)))"
  by (auto simp: fd_close_def fd_wf_def is_std_fd_iff)

section \<open>The table as an interface\<close>

text \<open>
  POSIX allocation: \<open>put\<close> takes the lowest free descriptor above the standard streams, \<open>remove\<close> frees
  one unless it is a standard stream.  \<open>room n\<close> says that \<open>n\<close> more objects fit.
\<close>

primrec insert_all :: "('o \<Rightarrow> 't \<Rightarrow> (i32 \<times> 't) option) \<Rightarrow> 'o list \<Rightarrow> 't \<Rightarrow> (i32 list \<times> 't) option" where
  "insert_all put [] t = Some ([], t)"
| "insert_all put (x # xs) t =
     (case put x t of
        None \<Rightarrow> None
      | Some (fd, t1) \<Rightarrow>
          (case insert_all put xs t1 of None \<Rightarrow> None | Some (fds, t2) \<Rightarrow> Some (fd # fds, t2)))"

locale descriptor_table =
  fixes lookup :: "'t \<Rightarrow> i32 \<Rightarrow> 'o option"
    and put :: "'o \<Rightarrow> 't \<Rightarrow> (i32 \<times> 't) option"
    and remove :: "i32 \<Rightarrow> 't \<Rightarrow> 't"
    and room :: "nat \<Rightarrow> 't \<Rightarrow> bool"
  assumes insert_lowest: "2 < sint free \<Longrightarrow> lookup t free = None \<Longrightarrow>
      \<exists>fd t'. put x t = Some (fd, t') \<and> 2 < sint fd \<and> lookup t fd = None \<and>
        (\<forall>i. 2 < sint i \<longrightarrow> sint i < sint fd \<longrightarrow> lookup t i \<noteq> None)"
    and insert_lookup: "put x t = Some (fd, t') \<Longrightarrow> lookup t' i = (if i = fd then Some x else lookup t i)"
    and remove_lookup: "2 < sint fd \<Longrightarrow> lookup (remove fd t) i = (if i = fd then None else lookup t i)"
    and room_free: "room (Suc n) t \<Longrightarrow> \<exists>free. 2 < sint free \<and> lookup t free = None"
    and insert_room: "room (Suc n) t \<Longrightarrow> put x t = Some (fd, t') \<Longrightarrow> room n t'"
begin

lemma insert_next:
  assumes "room (Suc n) t"
  obtains fd t' where "put x t = Some (fd, t')" and "2 < sint fd" and "lookup t fd = None"
    and "\<forall>i. 2 < sint i \<longrightarrow> sint i < sint fd \<longrightarrow> lookup t i \<noteq> None" and "room n t'"
  using room_free [OF assms] insert_lowest insert_room [OF assms] by metis

text \<open>While nothing is removed, descriptors increase and keep naming their objects.\<close>

lemma insert_all_increasing:
  assumes "room (length xs) t"
  shows "\<exists>fds t'. insert_all put xs t = Some (fds, t') \<and> length fds = length xs \<and>
    sorted_wrt (\<lambda>a b. sint a < sint b) fds \<and> (\<forall>fd \<in> set fds. 2 < sint fd \<and> lookup t fd = None) \<and>
    (\<forall>i < length xs. lookup t' (fds ! i) = Some (xs ! i)) \<and>
    (\<forall>i x. lookup t i = Some x \<longrightarrow> lookup t' i = Some x)"
  using assms
proof (induction xs arbitrary: t)
  case (Cons x xs)
  then have "room (Suc (length xs)) t" by simp
  then obtain fd t1 where step: "put x t = Some (fd, t1)" "2 < sint fd"
    "lookup t fd = None" "\<forall>i. 2 < sint i \<longrightarrow> sint i < sint fd \<longrightarrow> lookup t i \<noteq> None" "room (length xs) t1"
    using insert_next by blast
  from Cons.IH [OF step(5)] obtain fds t2 where rest: "insert_all put xs t1 = Some (fds, t2)"
    "length fds = length xs" "sorted_wrt (\<lambda>a b. sint a < sint b) fds"
    "\<forall>fd \<in> set fds. 2 < sint fd \<and> lookup t1 fd = None" "\<forall>i < length xs. lookup t2 (fds ! i) = Some (xs ! i)"
    "\<forall>i x. lookup t1 i = Some x \<longrightarrow> lookup t2 i = Some x"
    by (elim exE conjE)
  note t1 = insert_lookup [OF step(1)]
  have above: "sint fd < sint b" if "b \<in> set fds" for b
  proof -
    have "lookup t1 b = None" "2 < sint b" using rest(4) that by auto
    then have "b \<noteq> fd" "lookup t b = None" using t1 by (auto split: if_splits)
    with step(4) \<open>2 < sint b\<close> show ?thesis by (metis linorder_cases word_eq_iff_signed)
  qed
  have head: "lookup t2 fd = Some x" using rest(6) t1 by simp
  have old: "lookup t2 i = Some y" if "lookup t i = Some y" for i y
    using that rest(6) t1 step(3) by (metis option.distinct(1))
  have fresh: "\<forall>b \<in> set fds. lookup t b = None" using rest(4) t1 by (auto split: if_splits)
  have found: "lookup t2 ((fd # fds) ! i) = Some ((x # xs) ! i)" if "i < length (x # xs)" for i
    using that head rest(5) by (cases i) auto
  have run: "insert_all put (x # xs) t = Some (fd # fds, t2)" using step(1) rest(1) by simp
  show ?case
    by (intro exI [of _ "fd # fds"] exI [of _ t2] conjI)
      (use run rest(2-4) step(2,3) above fresh found old in auto)
qed simp

text \<open>A removed descriptor is the next one given out, if it was the lowest when it was given out.\<close>

lemma remove_insert:
  assumes "room (Suc n) t" and "put x t = Some (fd, t1)"
  shows "\<exists>t2. put y (remove fd t1) = Some (fd, t2) \<and> (\<forall>i. lookup t2 i = (if i = fd then Some y else lookup t i))"
proof -
  obtain f u where "put x t = Some (f, u)" "2 < sint f" "lookup t f = None"
    "\<forall>i. 2 < sint i \<longrightarrow> sint i < sint f \<longrightarrow> lookup t i \<noteq> None"
    by (rule insert_next [OF assms(1), of x]) (rule that)
  with assms(2) have fd: "2 < sint fd" "lookup t fd = None"
    "\<forall>i. 2 < sint i \<longrightarrow> sint i < sint fd \<longrightarrow> lookup t i \<noteq> None"
    by simp_all
  have undone: "lookup (remove fd t1) i = lookup t i" for i
    using remove_lookup [OF fd(1), of t1 i] insert_lookup [OF assms(2), of i] fd(2) by simp
  obtain fd' t2 where ins: "put y (remove fd t1) = Some (fd', t2)" "2 < sint fd'" "lookup t fd' = None"
    "\<forall>i. 2 < sint i \<longrightarrow> sint i < sint fd' \<longrightarrow> lookup t i \<noteq> None"
    using insert_lowest [of fd "remove fd t1" y] fd undone by auto
  have "fd' = fd" using fd ins(2-4) by (metis linorder_cases word_eq_iff_signed)
  then show ?thesis using ins(1) insert_lookup [OF ins(1)] undone by auto
qed

end

definition fd_room :: "nat \<Rightarrow> 'f fd_table \<Rightarrow> bool" where
  "fd_room n t \<longleftrightarrow> card (dom (fd_slots t)) + n \<le> 2 ^ 31 - 3"

lemma card_positive_fds: "card {fd :: i32. 2 < sint fd} = 2 ^ 31 - 3"
proof -
  have "{fd :: i32. 2 < sint fd} = of_nat ` {3 ..< 2 ^ 31}"
  proof (intro equalityI subsetI)
    fix fd :: i32
    assume "fd \<in> {fd. 2 < sint fd}"
    then show "fd \<in> of_nat ` {3 ..< 2 ^ 31}"
      using nonneg_i32_of_nat [of fd] by (intro image_eqI [of _ _ "nat (sint fd)"]) auto
  next
    fix fd :: i32
    assume "fd \<in> of_nat ` {3 ..< 2 ^ 31}"
    then obtain n where "fd = of_nat n" "3 \<le> n" "n < 2 ^ 31" by auto
    then show "fd \<in> {fd. 2 < sint fd}" using sint_small_i32 [of n] by simp
  qed
  moreover have "inj_on (of_nat :: nat \<Rightarrow> i32) {3 ..< 2 ^ 31}"
  proof (rule inj_onI)
    fix m n :: nat
    assume "m \<in> {3 ..< 2 ^ 31}" "n \<in> {3 ..< 2 ^ 31}" "(of_nat m :: i32) = of_nat n"
    then show "m = n" using sint_small_i32 [of m] sint_small_i32 [of n] by (simp del: of_nat_eq_iff)
  qed
  ultimately show ?thesis by (simp add: card_image)
qed

interpretation fdt: descriptor_table fd_get fd_insert "\<lambda>fd t. snd (snd (fd_close fd t))" fd_room
proof unfold_locales
  fix free :: i32 and t t' :: "'f fd_table" and x fd i n
  show "2 < sint free \<Longrightarrow> fd_get t free = None \<Longrightarrow> \<exists>fd t'. fd_insert x t = Some (fd, t') \<and> 2 < sint fd \<and>
      fd_get t fd = None \<and> (\<forall>i. 2 < sint i \<longrightarrow> sint i < sint fd \<longrightarrow> fd_get t i \<noteq> None)"
    unfolding fd_get_def by (metis fd_insert_lowest)
  show "2 < sint fd \<Longrightarrow> fd_get (snd (snd (fd_close fd t))) i = (if i = fd then None else fd_get t i)"
    by (auto simp: fd_close_def fd_get_def is_std_fd_def word_sle_eq)
  show "fd_insert x t = Some (fd, t') \<Longrightarrow> fd_get t' i = (if i = fd then Some x else fd_get t i)"
    by (auto simp: fd_insert_def fd_get_def split: option.splits)
  assume room: "fd_room (Suc n) t"
  show "\<exists>free. 2 < sint free \<and> fd_get t free = None"
  proof (rule ccontr)
    assume "\<nexists>free. 2 < sint free \<and> fd_get t free = None"
    then have "{fd. 2 < sint fd} \<subseteq> dom (fd_slots t)" by (auto simp: fd_get_def dom_def)
    then have "card {fd :: i32. 2 < sint fd} \<le> card (dom (fd_slots t))" by (intro card_mono) simp_all
    with room show False by (simp add: fd_room_def card_positive_fds)
  qed
  assume "fd_insert x t = Some (fd, t')"
  then have "dom (fd_slots t') = Set.insert fd (dom (fd_slots t))" by (auto simp: fd_insert_def split: option.splits)
  then have "card (dom (fd_slots t')) \<le> Suc (card (dom (fd_slots t)))" by (simp add: card_insert_le_m1 card_insert_if)
  with room show "fd_room n t'" by (simp add: fd_room_def)
qed

section \<open>Properties\<close>

text \<open>
  C34. Opening any number of objects (up to the number of descriptors) succeeds and gives strictly
  increasing descriptors above the standard streams, unused before, each of which refers to its own object
  afterwards; every descriptor in use before still refers to what it did.
\<close>

theorem fd_inserts_increasing:
  assumes "card (dom (fd_slots t)) + length objs \<le> 2 ^ 31 - 3"
  shows "\<exists>fds t'. insert_all fd_insert objs t = Some (fds, t') \<and> length fds = length objs \<and>
    sorted_wrt (\<lambda>a b. sint a < sint b) fds \<and> (\<forall>fd \<in> set fds. 2 < sint fd \<and> fd_get t fd = None) \<and>
    (\<forall>i < length objs. fd_get t' (fds ! i) = Some (objs ! i)) \<and>
    (\<forall>i x. fd_get t i = Some x \<longrightarrow> fd_get t' i = Some x)"
  using fdt.insert_all_increasing [of objs t] assms by (simp add: fd_room_def)

lemma dom_fd_default: "dom (fd_slots (fd_default :: 'f fd_table)) = {0, 1, 2}"
  by (auto simp: fd_default_def)

theorem fd_inserts_increasing_witness:
  "\<exists>a b t. insert_all fd_insert [FdFile ''x'', FdFile ''y''] fd_default = Some ([a, b], t) \<and> sint a < sint b \<and>
     fd_get t b = Some (FdFile ''y'') \<and> fd_get t 1 = Some FdStdout"
proof -
  have "card (dom (fd_slots fd_default)) + length [FdFile ''x'', FdFile ''y''] \<le> 2 ^ 31 - 3"
    by (simp add: dom_fd_default)
  from fd_inserts_increasing [OF this] obtain fds t where
    run: "insert_all fd_insert [FdFile ''x'', FdFile ''y''] fd_default = Some (fds, t)" "length fds = 2"
    "sorted_wrt (\<lambda>a b. sint a < sint b) fds"
    "\<forall>i < 2. fd_get t (fds ! i) = Some ([FdFile ''x'', FdFile ''y''] ! i)"
    "\<forall>i x. fd_get fd_default i = Some x \<longrightarrow> fd_get t i = Some x"
    by auto
  then obtain a b where "fds = [a, b]" by (auto simp: length_Suc_conv numeral_2_eq_2)
  moreover have "fd_get fd_default 1 = Some (FdStdout :: string fd_object)" by (simp add: fd_get_def fd_default_def)
  ultimately show ?thesis using run by (auto simp: less_Suc_eq numeral_2_eq_2)
qed

text \<open>
  A closed descriptor is reused first: opening, closing and opening again gives the same descriptor,
  and the table then differs from the first one only there.  The standard streams cannot be closed.
\<close>

theorem fd_close_reuses:
  assumes "card (dom (fd_slots t)) < 2 ^ 31 - 3" and "fd_insert a t = Some (fd, t1)" and "is_std_fd s"
  shows "(\<exists>t2. fd_insert b (snd (snd (fd_close fd t1))) = Some (fd, t2) \<and>
      (\<forall>i. fd_get t2 i = (if i = fd then Some b else fd_get t i))) \<and> fd_close s t1 = (True, None, t1)"
  using fdt.remove_insert [of 0 t a fd t1 b] assms by (simp add: fd_room_def fd_close_def)

theorem fd_close_reuses_witness:
  "\<exists>fd t1 t2. fd_insert (FdFile ''x'') fd_default = Some (fd, t1) \<and>
     fd_insert (FdFile ''y'') (snd (snd (fd_close fd t1))) = Some (fd, t2) \<and> fd_close 1 t1 = (True, None, t1)"
proof -
  have card: "card (dom (fd_slots (fd_default :: string fd_table))) < 2 ^ 31 - 3" by (simp add: dom_fd_default)
  obtain fd t1 where ins: "fd_insert (FdFile ''x'') fd_default = Some (fd, t1)"
    by (simp add: fd_insert_def fd_default_def)
  have "is_std_fd 1" by (simp add: is_std_fd_iff)
  from fd_close_reuses [OF card ins this, of "FdFile ''y''"] ins show ?thesis by auto
qed

end
