(* ===== verification/Syscall_Defs.thy ===== *)
theory Syscall_Defs
  imports Effects Cpu Fd_Table Guest_Memory Vfs
begin

text \<open>
  \<open>core/src/syscall/\<close>: decoding a system call, the BSD and Mach handlers, and the dispatcher.  A handler
  is an action on the call context (\<open>SyscallCtx\<close>), so what it changed before failing stays changed.

  The host operating system is a parameter, the record \<open>host\<close> of the calls the handlers make, over a host
  state \<open>'w\<close> and host file handles \<open>'f\<close>.  What \<open>std::fs::OpenOptions\<close> makes of its switches before it
  calls the system is modelled.  Guest output on the standard streams goes to the logger, so that call
  is kept; purely diagnostic log lines are left out.
\<close>

section \<open>Error numbers and system call numbers\<close>

definition ENOENT :: u32 where "ENOENT = 2"
definition EIO :: u32 where "EIO = 5"
definition EBADF :: u32 where "EBADF = 9"
definition ENOMEM :: u32 where "ENOMEM = 12"
definition EACCES :: u32 where "EACCES = 13"
definition EFAULT :: u32 where "EFAULT = 14"
definition EEXIST :: u32 where "EEXIST = 17"
definition EINVAL :: u32 where "EINVAL = 22"
definition ESPIPE :: u32 where "ESPIPE = 29"
definition EROFS :: u32 where "EROFS = 30"
definition EAGAIN :: u32 where "EAGAIN = 35"
definition ENOSYS :: u32 where "ENOSYS = 78"

fun from_io :: "io_kind \<Rightarrow> u32" where
  "from_io NotFound = ENOENT"
| "from_io PermissionDenied = EACCES"
| "from_io AlreadyExists = EEXIST"
| "from_io WouldBlock = EAGAIN"
| "from_io InvalidInput = EINVAL"
| "from_io BrokenPipe = ESPIPE"
| "from_io (OtherKind s) = EIO"

definition SYS_EXIT :: u32 where "SYS_EXIT = 1"
definition SYS_READ :: u32 where "SYS_READ = 3"
definition SYS_WRITE :: u32 where "SYS_WRITE = 4"
definition SYS_OPEN :: u32 where "SYS_OPEN = 5"
definition SYS_CLOSE :: u32 where "SYS_CLOSE = 6"
definition SYS_GETPID :: u32 where "SYS_GETPID = 20"
definition SYS_GETUID :: u32 where "SYS_GETUID = 24"
definition SYS_GETEUID :: u32 where "SYS_GETEUID = 25"
definition SYS_ACCESS :: u32 where "SYS_ACCESS = 33"
definition SYS_GETEGID :: u32 where "SYS_GETEGID = 43"
definition SYS_GETGID :: u32 where "SYS_GETGID = 47"
definition SYS_MUNMAP :: u32 where "SYS_MUNMAP = 73"
definition SYS_MPROTECT :: u32 where "SYS_MPROTECT = 74"
definition SYS_MADVISE :: u32 where "SYS_MADVISE = 75"
definition SYS_FCNTL :: u32 where "SYS_FCNTL = 92"
definition SYS_GETTIMEOFDAY :: u32 where "SYS_GETTIMEOFDAY = 116"
definition SYS_WRITEV :: u32 where "SYS_WRITEV = 121"
definition SYS_MMAP :: u32 where "SYS_MMAP = 197"
definition SYS_LSEEK :: u32 where "SYS_LSEEK = 199"
definition SYS_ISSETUGID :: u32 where "SYS_ISSETUGID = 327"
definition SYS_READ_NOCANCEL :: u32 where "SYS_READ_NOCANCEL = 396"
definition SYS_WRITE_NOCANCEL :: u32 where "SYS_WRITE_NOCANCEL = 397"
definition SYS_OPEN_NOCANCEL :: u32 where "SYS_OPEN_NOCANCEL = 398"
definition SYS_CLOSE_NOCANCEL :: u32 where "SYS_CLOSE_NOCANCEL = 399"
definition SYS_GETENTROPY :: u32 where "SYS_GETENTROPY = 500"

definition O_RDONLY :: u64 where "O_RDONLY = 0x0000"
definition O_WRONLY :: u64 where "O_WRONLY = 0x0001"
definition O_ACCMODE :: u64 where "O_ACCMODE = 0x0003"
definition O_APPEND :: u64 where "O_APPEND = 0x0008"
definition O_CREAT :: u64 where "O_CREAT = 0x0200"
definition O_TRUNC :: u64 where "O_TRUNC = 0x0400"
definition O_EXCL :: u64 where "O_EXCL = 0x0800"
definition MAP_ANON :: u64 where "MAP_ANON = 0x1000"

lemmas errno_defs = ENOENT_def EIO_def EBADF_def ENOMEM_def EACCES_def EFAULT_def EEXIST_def EINVAL_def
  ESPIPE_def EROFS_def EAGAIN_def ENOSYS_def

lemmas sys_defs = SYS_EXIT_def SYS_READ_def SYS_WRITE_def SYS_OPEN_def SYS_CLOSE_def SYS_GETPID_def
  SYS_GETUID_def SYS_GETEUID_def SYS_ACCESS_def SYS_GETEGID_def SYS_GETGID_def SYS_MUNMAP_def SYS_MPROTECT_def
  SYS_MADVISE_def SYS_FCNTL_def SYS_GETTIMEOFDAY_def SYS_WRITEV_def SYS_MMAP_def SYS_LSEEK_def
  SYS_ISSETUGID_def SYS_READ_NOCANCEL_def SYS_WRITE_NOCANCEL_def SYS_OPEN_NOCANCEL_def
  SYS_CLOSE_NOCANCEL_def SYS_GETENTROPY_def

lemmas open_flag_defs = O_RDONLY_def O_WRONLY_def O_ACCMODE_def O_APPEND_def O_CREAT_def O_TRUNC_def O_EXCL_def

section \<open>Decoding the selector\<close>

definition SYSCALL_CLASS_MASK :: u32 where "SYSCALL_CLASS_MASK = push_bit 24 0xff"
definition SYSCALL_NUMBER_MASK :: u32 where "SYSCALL_NUMBER_MASK = NOT SYSCALL_CLASS_MASK"

definition decode :: "u64 \<Rightarrow> syscall_class \<times> u32" where
  "decode x16 =
     (if sint x16 < 0 then (Mach, ucast (- x16))
      else
        (let raw = ucast x16 :: u32
         in if raw AND SYSCALL_CLASS_MASK \<noteq> 0 then
              (let cls = drop_bit 24 (raw AND SYSCALL_CLASS_MASK); number = raw AND SYSCALL_NUMBER_MASK
               in (if cls = 1 then Mach else if cls = 2 then Unix else if cls = 3 then MachDep
                   else if cls = 4 then Diag else Unix, number))
            else (Unix, raw)))"

section \<open>The host\<close>

text \<open>The switches of \<open>OpenOptions\<close>, and the flags the standard library passes to \<open>open(2)\<close>.\<close>

record open_options =
  oo_read :: bool
  oo_write :: bool
  oo_append :: bool
  oo_truncate :: bool
  oo_create :: bool
  oo_create_new :: bool

record host_open =
  ho_read :: bool
  ho_write :: bool
  ho_append :: bool
  ho_creat :: bool
  ho_trunc :: bool
  ho_excl :: bool

definition open_options_flags :: "open_options \<Rightarrow> (host_open, io_kind) rust_result" where
  "open_options_flags opts =
     (if \<not> oo_read opts \<and> \<not> oo_write opts \<and> \<not> oo_append opts then Err InvalidInput
      else if \<not> oo_append opts \<and> \<not> oo_write opts \<and> (oo_truncate opts \<or> oo_create opts \<or> oo_create_new opts)
      then Err InvalidInput
      else if oo_append opts \<and> oo_truncate opts \<and> \<not> oo_create_new opts then Err InvalidInput
      else Ok \<lparr>ho_read = oo_read opts, ho_write = (oo_write opts \<or> oo_append opts), ho_append = oo_append opts,
               ho_creat = (oo_create opts \<or> oo_create_new opts),
               ho_trunc = (oo_truncate opts \<and> \<not> oo_create_new opts), ho_excl = oo_create_new opts\<rparr>)"

datatype seek_from = SeekStart u64 | SeekCurrent i64 | SeekEnd i64

text \<open>
  \<open>h_now\<close> is the time since the epoch in nanoseconds (\<open>None\<close> for a clock set before it); \<open>h_read\<close>
  delivers the bytes read, at most as many as asked for.
\<close>

record ('w, 'f) host =
  h_open :: "string \<Rightarrow> host_open \<Rightarrow> 'w \<Rightarrow> 'w \<times> ('f, io_kind) rust_result"
  h_read :: "'f \<Rightarrow> nat \<Rightarrow> 'w \<Rightarrow> 'w \<times> (u8 list, io_kind) rust_result"
  h_write_all :: "'f \<Rightarrow> u8 list \<Rightarrow> 'w \<Rightarrow> 'w \<times> (unit, io_kind) rust_result"
  h_seek :: "'f \<Rightarrow> seek_from \<Rightarrow> 'w \<Rightarrow> 'w \<times> (u64, io_kind) rust_result"
  h_close :: "'f \<Rightarrow> 'w \<Rightarrow> 'w"
  h_exists :: "string \<Rightarrow> 'w \<Rightarrow> bool"
  h_now :: "'w \<Rightarrow> 'w \<times> nat option"
  h_log :: "string \<Rightarrow> 'w \<Rightarrow> 'w"

section \<open>The call context\<close>

record ('w, 'f) syscall_ctx =
  sc_cpu :: cpu_context
  sc_mem :: guest_memory
  sc_vfs :: sandbox
  sc_fds :: "'f fd_table"
  sc_exit :: "i32 option"
  sc_world :: 'w

type_synonym ('w, 'f, 'a) sys_act = "(('w, 'f) syscall_ctx, 'a, u32) act"

definition ctx_arg :: "nat \<Rightarrow> ('w, 'f, u64) sys_act" where
  "ctx_arg n = act_query (\<lambda>c. cpu_arg (sc_cpu c) n)"

definition ctx_mem :: "u32 \<Rightarrow> (guest_memory \<Rightarrow> 'a emu_result) \<Rightarrow> ('w, 'f, 'a) sys_act" where
  "ctx_mem errno f = act_query (\<lambda>c. map_err (\<lambda>_. errno) (f (sc_mem c)))"

definition ctx_mem_mut :: "u32 \<Rightarrow> (guest_memory \<Rightarrow> ('a \<times> guest_memory) emu_result) \<Rightarrow> ('w, 'f, 'a) sys_act" where
  "ctx_mem_mut errno f c =
     (case f (sc_mem c) of
        Ok (x, m) \<Rightarrow> (c\<lparr>sc_mem := m\<rparr>, Ok x)
      | Err _ \<Rightarrow> (c, Err errno)
      | Panic \<Rightarrow> (c, Panic))"

definition ctx_fd :: "i32 \<Rightarrow> ('w, 'f, 'f fd_object option) sys_act" where
  "ctx_fd fd = act_query (\<lambda>c. Ok (fd_get (sc_fds c) fd))"

definition ctx_io :: "('w \<Rightarrow> 'w \<times> ('a, io_kind) rust_result) \<Rightarrow> ('w, 'f, 'a) sys_act" where
  "ctx_io call c = (let (w, r) = call (sc_world c) in (c\<lparr>sc_world := w\<rparr>, map_err from_io r))"

definition no_value :: "guest_memory emu_result \<Rightarrow> (unit \<times> guest_memory) emu_result" where
  "no_value r = and_then r (\<lambda>m. Ok ((), m))"

section \<open>BSD system calls\<close>

definition sys_exit :: "('w, 'f, u64) sys_act" where
  "sys_exit =
     act_then (ctx_arg 0) (\<lambda>a0.
     act_then (act_update (\<lambda>c. c\<lparr>sc_exit := Some (ucast a0)\<rparr>)) (\<lambda>_.
     act_return 0))"

definition read_source :: "('w, 'f) host \<Rightarrow> i32 \<Rightarrow> nat \<Rightarrow> ('w, 'f, u8 list) sys_act" where
  "read_source h fd count =
     act_then (ctx_fd fd) (\<lambda>obj.
       case obj of
         Some (FdFile f) \<Rightarrow>
           act_then (ctx_io (h_read h f count)) (\<lambda>bytes.
             act_query (\<lambda>_. if length bytes \<le> count then Ok bytes else Panic))
       | Some FdStdin \<Rightarrow> act_return []
       | Some _ \<Rightarrow> act_fail EINVAL
       | None \<Rightarrow> act_fail EBADF)"

definition sys_read :: "('w, 'f) host \<Rightarrow> ('w, 'f, u64) sys_act" where
  "sys_read h =
     act_then (ctx_arg 0) (\<lambda>fd.
     act_then (ctx_arg 1) (\<lambda>buf.
     act_then (ctx_arg 2) (\<lambda>count.
     act_then (act_query (\<lambda>_. vec_zeroed (unat count))) (\<lambda>_.
     act_then (read_source h (ucast fd) (unat count)) (\<lambda>bytes.
     act_then (ctx_mem_mut EFAULT (\<lambda>m. no_value (mem_write m buf bytes))) (\<lambda>_.
     act_return (of_nat (length bytes))))))))"

definition write_bytes :: "('w, 'f) host \<Rightarrow> i32 \<Rightarrow> u8 list \<Rightarrow> ('w, 'f, u64) sys_act" where
  "write_bytes h fd data =
     act_then (ctx_fd fd) (\<lambda>obj.
       case obj of
         Some FdStdin \<Rightarrow> act_fail EINVAL
       | Some (FdDir d) \<Rightarrow> act_fail EINVAL
       | Some (FdFile f) \<Rightarrow>
           act_then (ctx_io (h_write_all h f data)) (\<lambda>_. act_return (of_nat (length data)))
       | Some _ \<Rightarrow>
           act_then (act_update (\<lambda>c. c\<lparr>sc_world := h_log h (trim_end (from_utf8_lossy data)) (sc_world c)\<rparr>)) (\<lambda>_.
             act_return (of_nat (length data)))
       | None \<Rightarrow> act_fail EBADF)"

definition sys_write :: "('w, 'f) host \<Rightarrow> ('w, 'f, u64) sys_act" where
  "sys_write h =
     act_then (ctx_arg 0) (\<lambda>fd.
     act_then (ctx_arg 1) (\<lambda>buf.
     act_then (ctx_arg 2) (\<lambda>count.
     act_then (act_query (\<lambda>_. vec_zeroed (unat count))) (\<lambda>_.
     act_then (ctx_mem EFAULT (\<lambda>m. mem_read m buf (unat count))) (\<lambda>tmp.
     write_bytes h (ucast fd) tmp)))))"

text \<open>The loop of \<open>writev\<close>: \<open>n\<close> vectors left, \<open>i\<close> done.\<close>

primrec writev_loop :: "('w, 'f) host \<Rightarrow> i32 \<Rightarrow> guest_addr \<Rightarrow> nat \<Rightarrow> u64 \<Rightarrow> u64 \<Rightarrow> ('w, 'f, u64) sys_act" where
  "writev_loop h fd iov 0 i written = act_return written"
| "writev_loop h fd iov (Suc n) i written =
     (let base_addr = addr_add iov (i * 16)
      in act_then (ctx_mem EFAULT (\<lambda>m. read_u64 m base_addr)) (\<lambda>base.
         act_then (ctx_mem EFAULT (\<lambda>m. read_u64 m (addr_add base_addr 8))) (\<lambda>len.
         act_then (act_query (\<lambda>_. vec_zeroed (unat len))) (\<lambda>_.
         act_then (ctx_mem EFAULT (\<lambda>m. mem_read m base (unat len))) (\<lambda>tmp.
         act_then (write_bytes h fd tmp) (\<lambda>k.
         writev_loop h fd iov n (i + 1) (written + k)))))))"

definition sys_writev :: "('w, 'f) host \<Rightarrow> ('w, 'f, u64) sys_act" where
  "sys_writev h =
     act_then (ctx_arg 0) (\<lambda>fd.
     act_then (ctx_arg 1) (\<lambda>iov.
     act_then (ctx_arg 2) (\<lambda>iovcnt.
     writev_loop h (ucast fd) iov (unat iovcnt) 0 0)))"

definition sys_open_options :: "u64 \<Rightarrow> open_options" where
  "sys_open_options flags =
     (let acc = flags AND O_ACCMODE
      in \<lparr>oo_read = (acc \<noteq> O_WRONLY), oo_write = (acc \<noteq> O_RDONLY), oo_append = (flags AND O_APPEND \<noteq> 0),
          oo_truncate = (flags AND O_TRUNC \<noteq> 0), oo_create = (flags AND O_CREAT \<noteq> 0),
          oo_create_new = (flags AND O_EXCL \<noteq> 0 \<and> flags AND O_CREAT \<noteq> 0)\<rparr>)"

text \<open>
  With all \<open>2 ^ 32\<close> descriptors taken the probe of \<open>FdTable::insert\<close> never returns (\<open>fd_insert\<close> is \<open>None\<close>).  A
  handler is a total function, so that case, too, is given the outcome \<open>Panic\<close> here: the guest does not go on.
\<close>

definition ctx_fd_insert :: "'f fd_object \<Rightarrow> ('w, 'f, i32) sys_act" where
  "ctx_fd_insert obj c =
     (case fd_insert obj (sc_fds c) of
        None \<Rightarrow> (c, Panic)
      | Some (fd, t) \<Rightarrow> (c\<lparr>sc_fds := t\<rparr>, Ok fd))"

definition sys_open :: "('w, 'f) host \<Rightarrow> ('w, 'f, u64) sys_act" where
  "sys_open h =
     act_then (ctx_arg 0) (\<lambda>path_ptr.
     act_then (ctx_arg 1) (\<lambda>flags.
     act_then (ctx_mem EFAULT (\<lambda>m. read_cstr m path_ptr 1024)) (\<lambda>ios_path.
     act_then (act_query (\<lambda>c. map_err (\<lambda>_. ENOENT) (translate (sc_vfs c) ios_path))) (\<lambda>(host, read_only).
       if read_only \<and> flags AND O_ACCMODE \<noteq> O_RDONLY then act_fail EROFS
       else
         act_then (act_query (\<lambda>_. map_err from_io (open_options_flags (sys_open_options flags)))) (\<lambda>how.
         act_then (ctx_io (h_open h host how)) (\<lambda>file.
         act_then (ctx_fd_insert (FdFile file)) (\<lambda>fd.
         act_return (scast fd))))))))"

text \<open>Removing the slot drops the object, and dropping a file closes it on the host.\<close>

fun drop_object :: "('w, 'f) host \<Rightarrow> 'f fd_object option \<Rightarrow> 'w \<Rightarrow> 'w" where
  "drop_object h (Some (FdFile f)) w = h_close h f w"
| "drop_object h (Some (FdDir d)) w = h_close h d w"
| "drop_object h (Some FdStdin) w = w"
| "drop_object h (Some FdStdout) w = w"
| "drop_object h (Some FdStderr) w = w"
| "drop_object h None w = w"

definition ctx_fd_close :: "('w, 'f) host \<Rightarrow> i32 \<Rightarrow> ('w, 'f, bool) sys_act" where
  "ctx_fd_close h fd c =
     (let (existed, obj, t) = fd_close fd (sc_fds c)
      in (c\<lparr>sc_fds := t, sc_world := drop_object h obj (sc_world c)\<rparr>, Ok existed))"

definition sys_close :: "('w, 'f) host \<Rightarrow> ('w, 'f, u64) sys_act" where
  "sys_close h =
     act_then (ctx_arg 0) (\<lambda>fd.
     act_then (ctx_fd_close h (ucast fd)) (\<lambda>existed.
       if existed then act_return 0 else act_fail EBADF))"

definition sys_lseek :: "('w, 'f) host \<Rightarrow> ('w, 'f, u64) sys_act" where
  "sys_lseek h =
     act_then (ctx_arg 0) (\<lambda>fd.
     act_then (ctx_arg 1) (\<lambda>offset.
     act_then (ctx_arg 2) (\<lambda>whence.
     act_then (ctx_fd (ucast fd)) (\<lambda>obj.
       case obj of
         Some (FdFile f) \<Rightarrow>
           if whence = 0 then ctx_io (h_seek h f (SeekStart offset))
           else if whence = 1 then ctx_io (h_seek h f (SeekCurrent offset))
           else if whence = 2 then ctx_io (h_seek h f (SeekEnd offset))
           else act_fail EINVAL
       | Some _ \<Rightarrow> act_fail ESPIPE
       | None \<Rightarrow> act_fail EBADF))))"

definition sys_access :: "('w, 'f) host \<Rightarrow> ('w, 'f, u64) sys_act" where
  "sys_access h =
     act_then (ctx_arg 0) (\<lambda>path_ptr.
     act_then (ctx_mem EFAULT (\<lambda>m. read_cstr m path_ptr 1024)) (\<lambda>ios_path.
     act_then (act_query (\<lambda>c. map_err (\<lambda>_. ENOENT) (translate (sc_vfs c) ios_path))) (\<lambda>(host, _).
     act_query (\<lambda>c. if h_exists h host (sc_world c) then Ok 0 else Err ENOENT))))"

definition sys_mmap :: "('w, 'f, u64) sys_act" where
  "sys_mmap =
     act_then (ctx_arg 1) (\<lambda>len.
     act_then (ctx_arg 2) (\<lambda>prot.
     act_then (ctx_arg 3) (\<lambda>flags.
       if flags AND MAP_ANON = 0 then act_fail ENOSYS
       else ctx_mem_mut ENOMEM (\<lambda>m. mmap_anon m len (ucast (prot AND 7))))))"

definition sys_mprotect :: "('w, 'f, u64) sys_act" where
  "sys_mprotect =
     act_then (ctx_arg 0) (\<lambda>addr.
     act_then (ctx_arg 2) (\<lambda>prot.
     act_then (ctx_mem_mut EINVAL (\<lambda>m. no_value (mem_protect m addr (ucast (prot AND 7))))) (\<lambda>_.
     act_return 0)))"

definition ctx_now :: "('w, 'f) host \<Rightarrow> ('w, 'f, nat option) sys_act" where
  "ctx_now h c = (let (w, t) = h_now h (sc_world c) in (c\<lparr>sc_world := w\<rparr>, Ok t))"

definition sys_gettimeofday :: "('w, 'f) host \<Rightarrow> ('w, 'f, u64) sys_act" where
  "sys_gettimeofday h =
     act_then (ctx_arg 0) (\<lambda>tv.
       if is_null tv then act_return 0
       else
         act_then (ctx_now h) (\<lambda>now.
         let ns = (case now of None \<Rightarrow> 0 | Some t \<Rightarrow> t) in
         act_then (ctx_mem_mut EFAULT (\<lambda>m. no_value (write_u64 m tv (of_nat (ns div 1000000000))))) (\<lambda>_.
         act_then (ctx_mem_mut EFAULT (\<lambda>m.
           no_value (write_u32 m (addr_add tv 8) (of_nat (ns mod 1000000000 div 1000))))) (\<lambda>_.
         act_return 0))))"

definition xorshift :: "u64 \<Rightarrow> u64" where
  "xorshift s =
     (let s = s XOR push_bit 13 s; s = s XOR drop_bit 7 s
      in s XOR push_bit 17 s)"

function entropy_loop :: "nat \<Rightarrow> u64 \<Rightarrow> u8 list \<Rightarrow> u8 list" where
  "entropy_loop len state bytes =
     (if length bytes < len
      then let state = xorshift state in entropy_loop len state (bytes @ to_le_bytes state)
      else bytes)"
  by pat_completeness auto
termination
  by (relation "measure (\<lambda>(len, state, bytes). len - length bytes)") auto

declare entropy_loop.simps [simp del]

definition sys_getentropy :: "('w, 'f) host \<Rightarrow> ('w, 'f, u64) sys_act" where
  "sys_getentropy h =
     act_then (ctx_arg 0) (\<lambda>buf.
     act_then (ctx_arg 1) (\<lambda>len.
       if 256 < len then act_fail EINVAL
       else
         act_then (ctx_now h) (\<lambda>now.
         let state = (case now of None \<Rightarrow> 0x9e3779b97f4a7c15 | Some ns \<Rightarrow> of_nat ns) OR 1;
             bytes = entropy_loop (unat len) state []
         in act_then (act_query (\<lambda>_. slice_index bytes 0 (unat len))) (\<lambda>out.
            act_then (ctx_mem_mut EFAULT (\<lambda>m. no_value (mem_write m buf out))) (\<lambda>_.
            act_return 0)))))"

definition unix_handle :: "('w, 'f) host \<Rightarrow> u32 \<Rightarrow> ('w, 'f, u64) sys_act option" where
  "unix_handle h number =
     (if number = SYS_EXIT then Some sys_exit
      else if number = SYS_READ \<or> number = SYS_READ_NOCANCEL then Some (sys_read h)
      else if number = SYS_WRITE \<or> number = SYS_WRITE_NOCANCEL then Some (sys_write h)
      else if number = SYS_WRITEV then Some (sys_writev h)
      else if number = SYS_OPEN \<or> number = SYS_OPEN_NOCANCEL then Some (sys_open h)
      else if number = SYS_CLOSE \<or> number = SYS_CLOSE_NOCANCEL then Some (sys_close h)
      else if number = SYS_LSEEK then Some (sys_lseek h)
      else if number = SYS_ACCESS then Some (sys_access h)
      else if number = SYS_MMAP then Some sys_mmap
      else if number = SYS_MUNMAP then Some (act_return 0)
      else if number = SYS_MPROTECT then Some sys_mprotect
      else if number = SYS_MADVISE then Some (act_return 0)
      else if number = SYS_GETPID then Some (act_return 1)
      else if number = SYS_GETUID \<or> number = SYS_GETEUID then Some (act_return 501)
      else if number = SYS_GETGID \<or> number = SYS_GETEGID then Some (act_return 501)
      else if number = SYS_ISSETUGID then Some (act_return 0)
      else if number = SYS_GETTIMEOFDAY then Some (sys_gettimeofday h)
      else if number = SYS_GETENTROPY then Some (sys_getentropy h)
      else if number = SYS_FCNTL then Some (act_return 0)
      else None)"

section \<open>Mach traps\<close>

definition MACH_VM_ALLOCATE_TRAP :: u32 where "MACH_VM_ALLOCATE_TRAP = 10"
definition MACH_VM_DEALLOCATE_TRAP :: u32 where "MACH_VM_DEALLOCATE_TRAP = 12"
definition MACH_REPLY_PORT :: u32 where "MACH_REPLY_PORT = 26"
definition THREAD_SELF_TRAP :: u32 where "THREAD_SELF_TRAP = 27"
definition TASK_SELF_TRAP :: u32 where "TASK_SELF_TRAP = 28"
definition HOST_SELF_TRAP :: u32 where "HOST_SELF_TRAP = 29"
definition MACH_MSG_TRAP :: u32 where "MACH_MSG_TRAP = 31"
definition MACH_MSG_OVERWRITE_TRAP :: u32 where "MACH_MSG_OVERWRITE_TRAP = 32"
definition SEMAPHORE_SIGNAL_TRAP :: u32 where "SEMAPHORE_SIGNAL_TRAP = 33"
definition SEMAPHORE_WAIT_TRAP :: u32 where "SEMAPHORE_WAIT_TRAP = 36"
definition FAKE_TASK_PORT :: u64 where "FAKE_TASK_PORT = 0x103"
definition FAKE_HOST_PORT :: u64 where "FAKE_HOST_PORT = 0x203"
definition FAKE_THREAD_PORT :: u64 where "FAKE_THREAD_PORT = 0x303"
definition FAKE_REPLY_PORT :: u64 where "FAKE_REPLY_PORT = 0x403"
definition KERN_SUCCESS :: u64 where "KERN_SUCCESS = 0"

definition vm_allocate :: "('w, 'f, u64) sys_act" where
  "vm_allocate =
     act_then (ctx_arg 1) (\<lambda>addr_out.
     act_then (ctx_arg 2) (\<lambda>sz c.
       case mmap_anon (sc_mem c) sz prot_rw of
         Ok (base, m) \<Rightarrow>
           (case write_u64 m addr_out base of
              Ok m' \<Rightarrow> (c\<lparr>sc_mem := m'\<rparr>, Ok KERN_SUCCESS)
            | Err _ \<Rightarrow> (c\<lparr>sc_mem := m\<rparr>, Ok 4)
            | Panic \<Rightarrow> (c\<lparr>sc_mem := m\<rparr>, Panic))
       | Err _ \<Rightarrow> (c, Ok 3)
       | Panic \<Rightarrow> (c, Panic)))"

definition mach_handle :: "u32 \<Rightarrow> ('w, 'f, u64) sys_act option" where
  "mach_handle number =
     (if number = TASK_SELF_TRAP then Some (act_return FAKE_TASK_PORT)
      else if number = HOST_SELF_TRAP then Some (act_return FAKE_HOST_PORT)
      else if number = THREAD_SELF_TRAP then Some (act_return FAKE_THREAD_PORT)
      else if number = MACH_REPLY_PORT then Some (act_return FAKE_REPLY_PORT)
      else if number = MACH_MSG_TRAP \<or> number = MACH_MSG_OVERWRITE_TRAP then Some (act_return KERN_SUCCESS)
      else if number = SEMAPHORE_SIGNAL_TRAP \<or> number = SEMAPHORE_WAIT_TRAP then Some (act_return KERN_SUCCESS)
      else if number = MACH_VM_ALLOCATE_TRAP then Some vm_allocate
      else if number = MACH_VM_DEALLOCATE_TRAP then Some (act_return KERN_SUCCESS)
      else None)"

section \<open>The dispatcher\<close>

record dispatcher =
  serviced :: u64
  stubbed :: u64

definition dispatcher_new :: dispatcher where
  "dispatcher_new = \<lparr>serviced = 0, stubbed = 0\<rparr>"

text \<open>What the call does: the handler, if there is one, else the default of its class.\<close>

definition syscall_action :: "('w, 'f) host \<Rightarrow> syscall_class \<Rightarrow> u32 \<Rightarrow> bool \<times> ('w, 'f, u64) sys_act" where
  "syscall_action h cls number =
     (case cls of
        Unix \<Rightarrow> (case unix_handle h number of Some m \<Rightarrow> (False, m) | None \<Rightarrow> (True, act_fail ENOSYS))
      | Mach \<Rightarrow> (case mach_handle number of Some m \<Rightarrow> (False, m) | None \<Rightarrow> (True, act_return 0))
      | MachDep \<Rightarrow> (True, act_return 0)
      | Diag \<Rightarrow> (True, act_return 0))"

definition dispatch ::
    "('w, 'f) host \<Rightarrow> dispatcher \<Rightarrow> ('w, 'f) syscall_ctx \<Rightarrow> (dispatcher \<times> ('w, 'f) syscall_ctx, unit) rust_result" where
  "dispatch h d c =
     (let d = d\<lparr>serviced := serviced d + 1\<rparr>;
          (cls, number) = decode (cpu_x (sc_cpu c) ! 16);
          (stub, action) = syscall_action h cls number;
          d = (if stub then d\<lparr>stubbed := stubbed d + 1\<rparr> else d);
          (c, result) = action c
      in if result = Panic then Panic
         else Ok (d, c\<lparr>sc_cpu := set_syscall_result result (sc_cpu c)\<rparr>))"

end
