(* ===== verification/Syscall.thy ===== *)
theory Syscall
  imports Syscall_Defs
begin

text \<open>
  Properties of the system call layer: the selector encoding, the invariant of the call context and the
  registers a call may change, the flags with which host files are opened, the result of \<open>writev\<close>, and the
  absence of crashes.  What a handler can do to the context is captured once, in two locales: a property that
  survives the effects on memory, descriptors and host survives every handler but \<open>exit\<close> (\<open>handler_frame\<close>),
  and every handler when the exit code does not matter to it either (\<open>handler_invariant\<close>).
\<close>

section \<open>Invariants of handlers\<close>

definition mem_step :: "guest_memory \<Rightarrow> guest_memory \<Rightarrow> bool" where
  "mem_step m m' \<longleftrightarrow>
     (\<exists>a d. mem_write m a d = Ok m') \<or> (\<exists>sz p b. mmap_anon m sz p = Ok (b, m')) \<or> (\<exists>a p. mem_protect m a p = Ok m')"

definition fd_step :: "'f fd_table \<Rightarrow> 'f fd_table \<Rightarrow> bool" where
  "fd_step t t' \<longleftrightarrow> (\<exists>obj fd. fd_insert obj t = Some (fd, t')) \<or> (\<exists>fd. t' = snd (snd (fd_close fd t)))"

lemma keeps_reading [keeps_rules]:
  "keeps P (ctx_arg n)" "keeps P (ctx_mem errno f)" "keeps P (ctx_fd fd)"
  by (simp_all add: ctx_arg_def ctx_mem_def ctx_fd_def keeps_rules)

lemma keeps_case_fd_object [keeps_rules]:
  assumes "keeps P a" and "keeps P b" and "keeps P c" and "\<And>f. keeps P (d f)" and "\<And>f. keeps P (e f)"
  shows "keeps P (case obj of FdStdout \<Rightarrow> a | FdStderr \<Rightarrow> b | FdStdin \<Rightarrow> c | FdFile f \<Rightarrow> d f | FdDir f \<Rightarrow> e f)"
  using assms by (cases obj) simp_all

lemma no_value_Ok [simp]: "no_value r = Ok (u, m) \<longleftrightarrow> r = Ok m"
  by (auto simp: no_value_def result_simps)

locale handler_frame =
  fixes P :: "('w, 'f) syscall_ctx \<Rightarrow> bool"
  assumes set_world: "P c \<Longrightarrow> P (c\<lparr>sc_world := w\<rparr>)"
    and set_mem: "P c \<Longrightarrow> mem_step (sc_mem c) m \<Longrightarrow> P (c\<lparr>sc_mem := m\<rparr>)"
    and set_fds: "P c \<Longrightarrow> fd_step (sc_fds c) t \<Longrightarrow> P (c\<lparr>sc_fds := t\<rparr>)"
begin

lemma keeps_mem_mut:
  assumes "\<And>m m' x. f m = Ok (x, m') \<Longrightarrow> mem_step m m'"
  shows "keeps P (ctx_mem_mut errno f)"
  by (rule keepsI) (auto simp: ctx_mem_mut_def set_mem assms split: rust_result.splits)

lemma keeps_write:
  "keeps P (ctx_mem_mut errno (\<lambda>m. no_value (mem_write m a d)))"
  "keeps P (ctx_mem_mut errno (\<lambda>m. no_value (write_u64 m a v)))"
  "keeps P (ctx_mem_mut errno (\<lambda>m. no_value (write_u32 m a u)))"
  "keeps P (ctx_mem_mut errno (\<lambda>m. mmap_anon m sz p))"
  "keeps P (ctx_mem_mut errno (\<lambda>m. no_value (mem_protect m a p)))"
  by (rule keeps_mem_mut; auto simp: mem_step_def write_u64_def write_u32_def)+

lemma keeps_io: "keeps P (ctx_io call)" "keeps P (ctx_now h)"
  by (rule keepsI; auto simp: ctx_io_def ctx_now_def Let_def set_world split: prod.splits)+

lemma keeps_fds: "keeps P (ctx_fd_insert obj)" "keeps P (ctx_fd_close h fd)"
proof -
  show "keeps P (ctx_fd_insert obj)"
    by (rule keepsI) (force simp: ctx_fd_insert_def fd_step_def intro!: set_fds split: option.splits)
  have "P (c\<lparr>sc_fds := snd (snd (fd_close fd (sc_fds c))), sc_world := w\<rparr>)" if "P c" for c w
    by (rule set_world [OF set_fds [OF that]]) (auto simp: fd_step_def)
  then show "keeps P (ctx_fd_close h fd)"
    by (intro keepsI) (simp add: ctx_fd_close_def Let_def split: prod.splits, metis snd_conv)
qed

lemmas keeps_prims = keeps_rules keeps_write keeps_io keeps_fds keeps_update set_world

lemma keeps_write_bytes: "keeps P (write_bytes h fd data)"
  unfolding write_bytes_def by (intro keeps_prims)

lemma keeps_writev_loop: "keeps P (writev_loop h fd iov n i acc)"
  by (induction n arbitrary: i acc) (auto simp: Let_def intro!: keeps_prims keeps_write_bytes)

lemma keeps_vm_allocate: "keeps P vm_allocate"
proof -
  have "P (c\<lparr>sc_mem := m\<rparr>)" if "P c" "mmap_anon (sc_mem c) sz p = Ok (b, m)" for c sz p b m
    using that by (intro set_mem) (auto simp: mem_step_def)
  moreover have "P (c\<lparr>sc_mem := m'\<rparr>)"
    if "P c" "mmap_anon (sc_mem c) sz p = Ok (b, m)" "write_u64 m a b = Ok m'" for c sz p b m m' a
  proof -
    have "P (c\<lparr>sc_mem := m\<rparr>)" using calculation that by blast
    then have "P (c\<lparr>sc_mem := m\<rparr>\<lparr>sc_mem := m'\<rparr>)"
      by (rule set_mem) (use that(3) in \<open>auto simp: mem_step_def write_u64_def\<close>)
    then show ?thesis by simp
  qed
  ultimately show ?thesis
    unfolding vm_allocate_def
    by (intro keeps_then keeps_reading keepsI) (auto split: rust_result.splits)
qed

lemma keeps_handlers:
  "keeps P (sys_read h)" "keeps P (sys_write h)" "keeps P (sys_writev h)" "keeps P (sys_open h)"
  "keeps P (sys_close h)" "keeps P (sys_lseek h)" "keeps P (sys_access h)" "keeps P sys_mmap" "keeps P sys_mprotect"
  "keeps P (sys_gettimeofday h)" "keeps P (sys_getentropy h)"
  unfolding sys_read_def read_source_def sys_write_def sys_writev_def sys_open_def sys_close_def
    sys_lseek_def sys_access_def sys_mmap_def sys_mprotect_def sys_gettimeofday_def sys_getentropy_def
  by (intro keeps_prims keeps_write_bytes keeps_writev_loop | assumption)+

lemma keeps_unix: "number \<noteq> SYS_EXIT \<Longrightarrow> unix_handle h number = Some m \<Longrightarrow> keeps P m"
  unfolding unix_handle_def by (auto split: if_splits simp: keeps_handlers keeps_basic)

lemma keeps_mach: "mach_handle number = Some m \<Longrightarrow> keeps P m"
  unfolding mach_handle_def by (auto split: if_splits simp: keeps_vm_allocate keeps_basic)

lemma keeps_action_but_exit:
  assumes "(cls, number) \<noteq> (Unix, SYS_EXIT)"
  shows "keeps P (snd (syscall_action h cls number))"
proof (cases cls)
  case Unix
  then show ?thesis
    using keeps_unix [of number h] assms by (cases "unix_handle h number") (simp_all add: syscall_action_def keeps_basic)
next
  case Mach
  then show ?thesis
    using keeps_mach [of number] by (cases "mach_handle number :: ('w, 'f, u64) sys_act option") (simp_all add: syscall_action_def keeps_basic)
qed (simp_all add: syscall_action_def keeps_basic)

end

lemma exit_action: "snd (syscall_action h Unix SYS_EXIT) = sys_exit"
  by (simp add: syscall_action_def unix_handle_def)

locale handler_invariant = handler_frame P for P :: "('w, 'f) syscall_ctx \<Rightarrow> bool" +
  assumes set_exit: "P c \<Longrightarrow> P (c\<lparr>sc_exit := e\<rparr>)"
begin

lemma keeps_action: "keeps P (snd (syscall_action h cls number))"
proof (cases "(cls, number) = (Unix, SYS_EXIT)")
  case True
  have "keeps P sys_exit" unfolding sys_exit_def by (intro keeps_prims set_exit)
  with True show ?thesis by (simp add: exit_action)
qed (rule keeps_action_but_exit)

end

section \<open>The context invariant and the frame\<close>

definition ctx_wf :: "('w, 'f) syscall_ctx \<Rightarrow> bool" where
  "ctx_wf c \<longleftrightarrow> cpu_wf (sc_cpu c) \<and> mem_wf (sc_mem c) \<and> fd_wf (sc_fds c)"

interpretation wf: handler_invariant ctx_wf
proof unfold_locales
  fix c :: "('w, 'f) syscall_ctx" and e w m t
  assume wf: "ctx_wf c"
  then show "ctx_wf (c\<lparr>sc_exit := e\<rparr>)" "ctx_wf (c\<lparr>sc_world := w\<rparr>)" by (simp_all add: ctx_wf_def)
  show "mem_step (sc_mem c) m \<Longrightarrow> ctx_wf (c\<lparr>sc_mem := m\<rparr>)"
    using wf by (auto simp: ctx_wf_def mem_step_def intro: mem_wf_write mem_wf_mmap_anon mem_wf_protect)
  show "fd_step (sc_fds c) t \<Longrightarrow> ctx_wf (c\<lparr>sc_fds := t\<rparr>)"
    using wf by (auto simp: ctx_wf_def fd_step_def intro: fd_wf_insert fd_wf_close)
qed

interpretation frame: handler_invariant "\<lambda>c. sc_cpu c = cpu \<and> sc_vfs c = vfs" for cpu vfs
  by unfold_locales simp_all

lemma dispatch_Ok:
  assumes "dispatch h d c = Ok (d', c')" and "decode (cpu_x (sc_cpu c) ! 16) = (cls, number)"
    and "syscall_action h cls number = (stub, action)"
  obtains c1 r where "action c = (c1, r)" and "r \<noteq> Panic"
    and "d' = d\<lparr>serviced := serviced d + 1, stubbed := stubbed d + (if stub then 1 else 0)\<rparr>"
    and "c' = c1\<lparr>sc_cpu := set_syscall_result r (sc_cpu c1)\<rparr>"
  using assms by (cases "action c") (auto simp: dispatch_def Let_def split: if_splits)

lemma dispatch_via:
  assumes "dispatch h d c = Ok (d', c')" and "P c"
    and "\<And>cls number. decode (cpu_x (sc_cpu c) ! 16) = (cls, number) \<Longrightarrow> keeps P (snd (syscall_action h cls number))"
  obtains c1 r where "P c1" and "c' = c1\<lparr>sc_cpu := set_syscall_result r (sc_cpu c1)\<rparr>"
proof -
  obtain cls number where dec: "decode (cpu_x (sc_cpu c) ! 16) = (cls, number)" by force
  obtain stub action where act: "syscall_action h cls number = (stub, action)" by force
  obtain c1 r where run: "action c = (c1, r)" "c' = c1\<lparr>sc_cpu := set_syscall_result r (sc_cpu c1)\<rparr>"
    by (rule dispatch_Ok [OF assms(1) dec act])
  have "keeps P action" using assms(3) [OF dec] act by simp
  then have "P c1" using assms(2) run(1) by (rule keepsD)
  then show thesis using run(2) by (rule that)
qed

lemma dispatch_keeps:
  assumes "ctx_wf c" and "dispatch h d c = Ok (d', c')"
  shows "ctx_wf c'"
  by (rule dispatch_via [OF assms(2,1) wf.keeps_action]) (simp add: ctx_wf_def)

text \<open>No system call allocates from the heap arena.\<close>

lemma mem_step_heap: "mem_step m m' \<Longrightarrow> heap m' = heap m"
  by (auto simp: mem_step_def mem_write_def mmap_anon_def mem_map_def mem_protect_def Let_def result_simps
      split: if_splits option.splits)

interpretation same_heap: handler_invariant "\<lambda>c. heap (sc_mem c) = hp" for hp
  by unfold_locales (simp_all add: mem_step_heap)

lemma dispatch_heap:
  assumes "dispatch h d c = Ok (d', c')"
  shows "heap (sc_mem c') = heap (sc_mem c)"
  by (rule dispatch_via [OF assms, of "\<lambda>x. heap (sc_mem x) = heap (sc_mem c)", OF refl same_heap.keeps_action]) simp

text \<open>Only the call \<open>exit\<close> touches the exit code.\<close>

interpretation same_exit: handler_frame "\<lambda>c. sc_exit c = e" for e
  by unfold_locales simp_all

definition exit_call :: "cpu_context \<Rightarrow> bool" where
  "exit_call cpu \<longleftrightarrow> decode (cpu_x cpu ! 16) = (Unix, SYS_EXIT)"

lemma dispatch_exit:
  assumes "exit_call (sc_cpu c)"
  obtains d' c' where "dispatch h d c = Ok (d', c')" and "sc_exit c' = Some (ucast (cpu_x (sc_cpu c) ! 0))"
proof -
  obtain stub where act: "syscall_action h Unix SYS_EXIT = (stub, sys_exit)"
    using exit_action [of h] by (metis prod.collapse)
  show thesis
    using that assms act
    by (simp add: dispatch_def exit_call_def Let_def sys_exit_def act_then_def ctx_arg_def act_query_def act_update_def)
qed

lemma dispatch_no_exit:
  assumes "\<not> exit_call (sc_cpu c)" and "dispatch h d c = Ok (d', c')"
  shows "sc_exit c' = sc_exit c"
proof -
  have "keeps (\<lambda>x. sc_exit x = sc_exit c) (snd (syscall_action h cls number))"
    if "decode (cpu_x (sc_cpu c) ! 16) = (cls, number)" for cls number
    using assms(1) that by (intro same_exit.keeps_action_but_exit) (simp add: exit_call_def)
  then obtain c1 r where "sc_exit c1 = sc_exit c" "c' = c1\<lparr>sc_cpu := set_syscall_result r (sc_cpu c1)\<rparr>"
    by (rule dispatch_via [OF assms(2), of "\<lambda>x. sc_exit x = sc_exit c", OF refl])
  then show ?thesis by simp
qed

section \<open>The selector\<close>

lemma class_mask_bits: "bit SYSCALL_CLASS_MASK n \<longleftrightarrow> 24 \<le> n \<and> n < 32"
proof -
  have "(0xff :: u32) = mask 8" by (simp add: mask_eq_exp_minus_1)
  then show ?thesis by (auto simp only: SYSCALL_CLASS_MASK_def bit_push_bit_iff bit_mask_iff) auto
qed

lemma class_mask_parts:
  "drop_bit 24 (w AND SYSCALL_CLASS_MASK) = drop_bit 24 w"
  "w AND SYSCALL_NUMBER_MASK = take_bit 24 w"
  "w AND SYSCALL_CLASS_MASK = push_bit 24 (drop_bit 24 w)"
  by (rule bit_word_eqI;
      auto simp: SYSCALL_NUMBER_MASK_def bit_simps class_mask_bits dest: bit_imp_le_length)+

lemma unat_drop24: "unat (drop_bit 24 (w :: u32)) = unat w div 2 ^ 24"
  by (subst unat_drop_bit_eq) (rule drop_bit_eq_div)

lemma unat_take24: "unat (take_bit 24 (w :: u32)) = unat w mod 2 ^ 24"
  by (subst unsigned_take_bit_eq) (rule take_bit_eq_mod)

lemma class_mask_zero: "w AND SYSCALL_CLASS_MASK = 0 \<longleftrightarrow> unat w < 2 ^ 24"
proof -
  have "w AND SYSCALL_CLASS_MASK = 0 \<longleftrightarrow> drop_bit 24 w = 0"
    using class_mask_parts(1,3) [of w] by (metis drop_bit_of_0 push_bit_of_0)
  also have "\<dots> \<longleftrightarrow> unat (drop_bit 24 w) = 0" by (simp add: unsigned_eq_0_iff)
  also have "\<dots> \<longleftrightarrow> unat w < 2 ^ 24" by (simp only: unat_drop24) (simp add: div_eq_0_iff)
  finally show ?thesis .
qed

lemma sint_small_i64: "n < 2 ^ 63 \<Longrightarrow> sint (of_nat n :: u64) = int n"
proof -
  assume "n < 2 ^ 63"
  have "sint (word_of_int (int n) :: u64) = signed_take_bit 63 (int n)" by (simp only: sint_sbintrunc') simp
  also have "\<dots> = int n" using \<open>n < 2 ^ 63\<close> by (intro signed_take_bit_int_eq_self) simp_all
  finally show ?thesis by simp
qed

lemma sint_small_neg_i64: "0 < n \<Longrightarrow> n < 2 ^ 63 \<Longrightarrow> sint (- of_nat n :: u64) < 0"
proof -
  assume n: "0 < n" "n < 2 ^ 63"
  have "sint (word_of_int (- int n) :: u64) = signed_take_bit 63 (- int n)" by (simp only: sint_sbintrunc') simp
  also have "\<dots> = - int n" using n by (intro signed_take_bit_int_eq_self) simp_all
  finally show ?thesis using n by simp
qed

lemma ucast_of_nat_u32: "n < 2 ^ 32 \<Longrightarrow> (ucast (of_nat n :: u64) :: u32) = of_nat n"
  by (simp add: word_unat_eq_iff unsigned_ucast_eq unat_of_nat take_bit_eq_mod)

section \<open>Properties\<close>

text \<open>
  C17. Servicing a system call keeps the context well formed (register file, address space, standard
  streams); it changes no register but \<open>x0\<close> and the carry flag, counts the call, and reports through the
  Darwin convention: carry clear and the value in \<open>x0\<close>, or carry set and the error number there.
\<close>

theorem dispatch_convention:
  assumes "ctx_wf c" and "dispatch h d c = Ok (d', c')" and "decode (cpu_x (sc_cpu c) ! 16) = (cls, number)"
  shows "ctx_wf c' \<and> sc_vfs c' = sc_vfs c \<and> serviced d' = serviced d + 1 \<and>
    (\<forall>i. i \<noteq> 0 \<longrightarrow> cpu_x (sc_cpu c') ! i = cpu_x (sc_cpu c) ! i) \<and>
    sc_cpu c' = (sc_cpu c)\<lparr>cpu_x := cpu_x (sc_cpu c'), cpu_nzcv := cpu_nzcv (sc_cpu c')\<rparr> \<and>
    (\<forall>i. i \<noteq> 29 \<longrightarrow> bit (cpu_nzcv (sc_cpu c')) i = bit (cpu_nzcv (sc_cpu c)) i) \<and>
    (case snd (snd (syscall_action h cls number) c) of
       Ok v \<Rightarrow> \<not> bit (cpu_nzcv (sc_cpu c')) 29 \<and> cpu_x (sc_cpu c') ! 0 = v
     | Err e \<Rightarrow> bit (cpu_nzcv (sc_cpu c')) 29 \<and> cpu_x (sc_cpu c') ! 0 = ucast e
     | Panic \<Rightarrow> False)"
proof -
  obtain stub action where act: "syscall_action h cls number = (stub, action)" by force
  obtain c1 r where run: "action c = (c1, r)" "r \<noteq> Panic"
    "d' = d\<lparr>serviced := serviced d + 1, stubbed := stubbed d + (if stub then 1 else 0)\<rparr>"
    "c' = c1\<lparr>sc_cpu := set_syscall_result r (sc_cpu c1)\<rparr>"
    by (rule dispatch_Ok [OF assms(2,3) act])
  have "keeps (\<lambda>x. sc_cpu x = sc_cpu c \<and> sc_vfs x = sc_vfs c) action"
    using frame.keeps_action [of "sc_cpu c" "sc_vfs c" h cls number] act by simp
  then have "sc_cpu c1 = sc_cpu c \<and> sc_vfs c1 = sc_vfs c" using conjI [OF refl refl] run(1) by (rule keepsD)
  then have keep: "sc_cpu c1 = sc_cpu c" "sc_vfs c1 = sc_vfs c" by simp_all
  have cpu: "cpu_wf (sc_cpu c)" using assms(1) by (simp add: ctx_wf_def)
  have "ctx_wf c'" by (rule dispatch_keeps [OF assms(1,2)])
  moreover have "sc_cpu c' = (sc_cpu c)\<lparr>cpu_x := cpu_x (sc_cpu c'), cpu_nzcv := cpu_nzcv (sc_cpu c')\<rparr>"
    using run(4) keep by (cases r) simp_all
  ultimately show ?thesis
    using run keep act set_syscall_result_flags [OF run(2), of "sc_cpu c"] set_syscall_result_x [OF cpu]
    by (cases r) auto
qed

text \<open>A host that logs guest output and knows no files, and a context over it, for the examples.\<close>

definition log_host :: "(string list, nat) host" where
  "log_host =
     \<lparr>h_open = (\<lambda>p how w. (w, Err NotFound)), h_read = (\<lambda>f n w. (w, Ok [])), h_write_all = (\<lambda>f d w. (w, Ok ())),
      h_seek = (\<lambda>f s w. (w, Ok 0)), h_close = (\<lambda>f w. w), h_exists = (\<lambda>p w. False), h_now = (\<lambda>w. (w, None)),
      h_log = (\<lambda>s w. w @ [s])\<rparr>"

definition sample_ctx :: "u64 list \<Rightarrow> (string list, nat) syscall_ctx" where
  "sample_ctx regs =
     \<lparr>sc_cpu = cpu_default\<lparr>cpu_x := regs @ replicate (29 - length regs) 0\<rparr>, sc_mem = sample_mem, sc_vfs = demo_sandbox,
      sc_fds = fd_default, sc_exit = None, sc_world = []\<rparr>"

lemma sample_ctx_wf: "length regs \<le> 29 \<Longrightarrow> ctx_wf (sample_ctx regs)"
  by (simp add: ctx_wf_def sample_ctx_def cpu_wf_def sample_mem_wf fd_wf_default)

theorem dispatch_convention_witness:
  "\<exists>d c. dispatch log_host dispatcher_new (sample_ctx [7, 0, 0, 0, 0, 0, 0, 0, 0, 0, 0, 0, 0, 0, 0, 0, 6]) = Ok (d, c) \<and>
     bit (cpu_nzcv (sc_cpu c)) 29 \<and> cpu_x (sc_cpu c) ! 0 = ucast EBADF"
proof -
  let ?c = "sample_ctx [7, 0, 0, 0, 0, 0, 0, 0, 0, 0, 0, 0, 0, 0, 0, 0, 6]"
  have dec: "decode (cpu_x (sc_cpu ?c) ! 16) = (Unix, 6)"
    by (simp add: sample_ctx_def decode_def SYSCALL_CLASS_MASK_def Let_def)
  have act: "syscall_action log_host Unix 6 = (False, sys_close log_host)"
    by (simp add: syscall_action_def unix_handle_def sys_defs)
  have run: "snd (sys_close log_host ?c) = Err EBADF"
    by (simp add: sys_close_def ctx_arg_def ctx_fd_close_def fd_close_def is_std_fd_iff sample_ctx_def fd_default_def
        Let_def act_then_def)
  then have "dispatch log_host dispatcher_new ?c \<noteq> Panic"
    by (auto simp: dispatch_def dec act Let_def split: prod.splits)
  then obtain d c where ok: "dispatch log_host dispatcher_new ?c = Ok (d, c)"
    by (cases "dispatch log_host dispatcher_new ?c") (auto simp: dispatch_def Let_def split: prod.splits if_splits)
  have "ctx_wf ?c" by (rule sample_ctx_wf) simp
  from dispatch_convention [OF this ok dec] run ok show ?thesis by (simp add: act)
qed

text \<open>
  The three selector forms decode as documented: a number below \<open>2 ^ 24\<close> is a BSD call, a negated
  number a Mach trap, and a class byte in bits 24..31 selects its class, an unknown class being BSD.
\<close>

definition class_of_byte :: "nat \<Rightarrow> syscall_class" where
  "class_of_byte k = (if k = 1 then Mach else if k = 3 then MachDep else if k = 4 then Diag else Unix)"

theorem decode_forms:
  assumes "n < 2 ^ 24" and "0 < t" and "t < 2 ^ 32" and "0 < k" and "k < 256"
  shows "decode (of_nat n) = (Unix, of_nat n) \<and> decode (- of_nat t) = (Mach, of_nat t) \<and>
    decode (of_nat (k * 2 ^ 24 + n)) = (class_of_byte k, of_nat n)"
proof -
  have "k * 2 ^ 24 \<le> 255 * 2 ^ 24" using assms(5) by (intro mult_le_mono1) simp
  then have low: "k * 2 ^ 24 + n < 2 ^ 32" using assms(1) by simp
  have u32: "unat (of_nat m :: u32) = m" if "m < 2 ^ 32" for m using that by (simp add: unat_of_nat)
  have "k * 2 ^ 24 \<ge> 1 * 2 ^ 24" using assms(4) by (intro mult_le_mono1) simp
  then have "\<not> k * 2 ^ 24 + n < 2 ^ 24" by simp
  moreover have "drop_bit 24 (of_nat (k * 2 ^ 24 + n) :: u32) = of_nat k"
    using u32 [OF low] u32 [of k] assms(1,5) by (simp only: word_unat_eq_iff unat_drop24) simp
  moreover have "take_bit 24 (of_nat (k * 2 ^ 24 + n) :: u32) = of_nat n"
    using u32 [OF low] u32 [of n] assms(1) by (simp only: word_unat_eq_iff unat_take24) simp
  moreover have "(of_nat k = (1 :: u32)) = (k = 1)" "(of_nat k = (2 :: u32)) = (k = 2)" "(of_nat k = (3 :: u32)) = (k = 3)"
    "(of_nat k = (4 :: u32)) = (k = 4)"
    using u32 [of k] assms(5) by (simp_all add: word_unat_eq_iff)
  ultimately have classed: "decode (of_nat (k * 2 ^ 24 + n)) = (class_of_byte k, of_nat n)"
    using low sint_small_i64 [of "k * 2 ^ 24 + n"] ucast_of_nat_u32 [OF low] u32 [OF low]
    by (simp only: decode_def class_mask_zero class_mask_parts(1,2) Let_def class_of_byte_def) simp
  have plain: "decode (of_nat n) = (Unix, of_nat n)"
    using assms(1) sint_small_i64 [of n] ucast_of_nat_u32 [of n] u32 [of n]
    by (simp add: decode_def class_mask_zero Let_def)
  have trap: "decode (- of_nat t) = (Mach, of_nat t)"
    using assms(2,3) sint_small_neg_i64 [of t] ucast_of_nat_u32 [of t] by (simp add: decode_def)
  show ?thesis using classed plain trap by blast
qed

theorem decode_forms_witness:
  "decode 4 = (Unix, 4) \<and> decode (- 28) = (Mach, 28) \<and> decode 0x03000002 = (MachDep, 2)"
  using decode_forms [of 4 28 3] decode_forms [of 2 28 3] by (simp add: class_of_byte_def)

definition path_mem :: guest_memory where
  "path_mem = sample_mem\<lparr>regions := [(0x1000, \<lparr>r_base = 0x1000, r_prot = prot_rw, r_kind = HeapKind, r_name = ''heap'',
     r_data = [0x2F, 0x75, 0x73, 0x72, 0x2F, 0x61, 0]\<rparr>)]\<rparr>"

lemma read_u8_path: "read_u8 path_mem 0x1000 = Ok 0x2F" "read_u8 path_mem 0x1001 = Ok 0x75" "read_u8 path_mem 0x1002 = Ok 0x73"
  "read_u8 path_mem 0x1003 = Ok 0x72" "read_u8 path_mem 0x1004 = Ok 0x2F" "read_u8 path_mem 0x1005 = Ok 0x61"
  "read_u8 path_mem 0x1006 = Ok 0"
  by (simp_all add: path_mem_def sample_mem_def read_u8_def mem_read_def mem_slice_def bt_last_le_def bt_last_def region_subslice_def region_range_def
     slice_index_def slice_get_def prot_defs Let_def addr_sub_def checked_add_usize_def)

lemma cstr_path: "read_cstr path_mem 0x1000 1024 = Ok ''/usr/a''"
proof -
  have "cstr_bytes path_mem 0x1000 (Suc (Suc (Suc (Suc (Suc (Suc (Suc n))))))) = Ok [0x2F, 0x75, 0x73, 0x72, 0x2F, 0x61]" for n
    by (simp add: read_u8_path addr_add_def)
  from this [of 1017] show ?thesis by (simp add: read_cstr_def from_utf8_lossy_ascii is_ascii_def byte_char_def char_of_def bit_Suc_0_iff)
qed
lemma translate_path: "translate demo_sandbox ''/usr/a'' = Ok (''/data/sys/usr/a'', True)"
proof -
  have "sb_absolute demo_sandbox ''/usr/a'' = ''/usr/a''"
    by (simp_all add: sb_absolute_def trim_graphic graphic_def char_byte_def demo_sandbox_def)
  then show ?thesis
    unfolding translate_def Let_def
    by (simp add: demo_sandbox_def strip_prefix_dir_def strip_prefix_def ro_trees_def join_checked_def
        normalize_ios_path_def path_join_def)
qed

text \<open>
  C18. Which host file \<open>open\<close> touches, and how: either nothing happens on the host and the call fails, or
  exactly one host file is opened, the translation of the guest path, and for writing exactly when the
  guest asked for write access or for appending.  On a read-only tree the access mode has to be read-only,
  but appending is not looked at there, so such a file is opened for writing all the same.
\<close>

theorem sys_open_confined:
  assumes "sys_open h c = (c', r)"
  shows "sc_world c' = sc_world c \<and> sc_fds c' = sc_fds c \<and> \<not> is_ok r \<or>
    (\<exists>ios path ro how. read_cstr (sc_mem c) (cpu_x (sc_cpu c) ! 0) 1024 = Ok ios \<and>
       translate (sc_vfs c) ios = Ok (path, ro) \<and> sc_world c' = fst (h_open h path how (sc_world c)) \<and>
       (ho_write how \<longleftrightarrow> cpu_x (sc_cpu c) ! 1 AND O_ACCMODE \<noteq> O_RDONLY \<or> cpu_x (sc_cpu c) ! 1 AND O_APPEND \<noteq> 0) \<and>
       (ro \<longrightarrow> cpu_x (sc_cpu c) ! 1 AND O_ACCMODE = O_RDONLY) \<and> (ho_creat how \<or> ho_trunc how \<longrightarrow> ho_write how))"
proof -
  let ?flags = "cpu_x (sc_cpu c) ! 1"
  show ?thesis
  proof (cases "read_cstr (sc_mem c) (cpu_x (sc_cpu c) ! 0) 1024")
    case (Ok ios)
    show ?thesis
    proof (cases "translate (sc_vfs c) ios")
      case tr: (Ok pr)
      obtain path ro where pr: "pr = (path, ro)" by force
      show ?thesis
      proof (cases "ro \<and> ?flags AND O_ACCMODE \<noteq> O_RDONLY \<or> \<not> is_ok (open_options_flags (sys_open_options ?flags))")
        case True
        then have "sc_world c' = sc_world c \<and> sc_fds c' = sc_fds c \<and> \<not> is_ok r"
          using assms Ok tr pr
          by (cases "open_options_flags (sys_open_options ?flags)")
            (auto simp: sys_open_def ctx_arg_def ctx_mem_def split: if_splits)
        then show ?thesis by blast
      next
        case False
        then obtain how where how: "open_options_flags (sys_open_options ?flags) = Ok how" by (auto simp: is_ok_iff)
        have "sc_world c' = fst (h_open h path how (sc_world c))"
          using assms Ok tr pr False how
          by (auto simp: sys_open_def ctx_arg_def ctx_mem_def ctx_io_def act_then_def ctx_fd_insert_def Let_def 
             split: prod.splits rust_result.splits option.splits if_splits)
        moreover have "(ho_write how \<longleftrightarrow> ?flags AND O_ACCMODE \<noteq> O_RDONLY \<or> ?flags AND O_APPEND \<noteq> 0) \<and>
            (ho_creat how \<or> ho_trunc how \<longrightarrow> ho_write how)"
          using how by (auto simp: open_options_flags_def sys_open_options_def Let_def split: if_splits)
        ultimately show ?thesis using Ok tr pr False by blast
      qed
    qed (use assms Ok in \<open>auto simp: sys_open_def ctx_arg_def ctx_mem_def\<close>)
  qed (use assms in \<open>auto simp: sys_open_def ctx_arg_def ctx_mem_def\<close>)
qed

definition record_host :: "((string \<times> host_open) list, nat) host" where
  "record_host =
     \<lparr>h_open = (\<lambda>p how w. (w @ [(p, how)], Ok 0)), h_read = (\<lambda>f n w. (w, Ok [])), h_write_all = (\<lambda>f d w. (w, Ok ())),
      h_seek = (\<lambda>f s w. (w, Ok 0)), h_close = (\<lambda>f w. w), h_exists = (\<lambda>p w. False), h_now = (\<lambda>w. (w, None)),
      h_log = (\<lambda>s w. w)\<rparr>"

definition open_ctx :: "u64 \<Rightarrow> ((string \<times> host_open) list, nat) syscall_ctx" where
  "open_ctx flags =
     \<lparr>sc_cpu = cpu_default\<lparr>cpu_x := [0x1000, flags] @ replicate 27 0\<rparr>, sc_mem = path_mem, sc_vfs = demo_sandbox,
      sc_fds = fd_default, sc_exit = None, sc_world = []\<rparr>"

theorem sys_open_confined_witness:
  "\<exists>how. sc_world (fst (sys_open record_host (open_ctx O_APPEND))) = [(''/data/sys/usr/a'', how)] \<and> ho_write how"
proof -
  let ?c = "open_ctx O_APPEND"
  obtain c' r where run: "sys_open record_host ?c = (c', r)" by force
  have regs: "cpu_x (sc_cpu ?c) ! 0 = 0x1000" "cpu_x (sc_cpu ?c) ! 1 = O_APPEND" "sc_mem ?c = path_mem"
    "sc_vfs ?c = demo_sandbox" "sc_world ?c = []"
    by (simp_all add: open_ctx_def)
  have "is_ok r"
  proof -
    have "snd (sys_open record_host ?c) = Ok 3"
      by (simp add: open_ctx_def sys_open_def ctx_arg_def ctx_mem_def cstr_path translate_path open_flag_defs
          open_options_flags_def sys_open_options_def Let_def ctx_io_def act_then_def record_host_def ctx_fd_insert_def
          fd_insert_def fd_default_def)
    with run show ?thesis by simp
  qed
  moreover have "O_APPEND \<noteq> 0" by (simp add: O_APPEND_def)
  ultimately show ?thesis using sys_open_confined [OF run] run
    unfolding regs cstr_path by (auto simp: translate_path record_host_def)
qed

end
