(* ===== verification/Process_Loader.thy ===== *)
theory Process_Loader
  imports Guest_Memory Macho_Image Dyld_Info Linker
begin

text \<open>
  \<open>core/src/loader.rs\<close>: from a parsed image to a process in guest memory.  Each numbered step of
  \<open>build_process\<close> is one definition.  A failing step ends the load and its caller discards the memory, so
  the memory is returned on success only.  The reservation calls of the device build are parameters.
\<close>

section \<open>Configuration and result\<close>

record layout_config =
  lc_slide :: u64
  lc_stack_top :: guest_addr
  lc_stack_size :: u64
  lc_trampoline_base :: guest_addr
  lc_trampoline_stride :: u64
  lc_argv0 :: string

record process_image =
  pi_entry :: guest_addr
  pi_sp :: guest_addr
  pi_arg_regs :: "u64 \<times> u64 \<times> u64 \<times> u64"
  pi_trampolines :: trampoline_table
  pi_trampoline_base :: guest_addr
  pi_trampoline_end :: guest_addr
  pi_init_funcs :: "guest_addr list"
  pi_symbol_stubs :: "string \<rightharpoonup> u64"
  pi_lazy_binds :: "u64 \<rightharpoonup> string \<times> guest_addr"

definition AARCH64_BRK0 :: u32 where
  "AARCH64_BRK0 = 0xD4200000"

section \<open>Step 1: segments\<close>

definition segment_data :: "u8 list \<Rightarrow> macho_segment \<Rightarrow> u8 list emu_result" where
  "segment_data bytes seg =
     (let file_end = unat (seg_fileoff seg + seg_filesize seg)
      in if 0 < seg_filesize seg \<and> file_end \<le> length bytes
         then slice_index bytes (unat (seg_fileoff seg)) file_end
         else Ok [])"

fun map_segments ::
    "u8 list \<Rightarrow> u64 \<Rightarrow> macho_segment list \<Rightarrow> guest_memory \<Rightarrow> (guest_addr option list \<times> guest_memory) emu_result" where
  "map_segments bytes slide [] m = Ok ([], m)"
| "map_segments bytes slide (seg # segs) m =
     (if seg_name seg = ''__PAGEZERO'' then
        and_then (map_segments bytes slide segs m) (\<lambda>(rts, m). Ok (None # rts, m))
      else
        (let base = seg_vmaddr seg + slide
         in and_then (segment_data bytes seg) (\<lambda>data.
            and_then (mem_map_with_data m base (seg_vmsize seg) data prot_rw SegmentKind (seg_name seg)) (\<lambda>m.
            and_then (map_segments bytes slide segs m) (\<lambda>(rts, m). Ok (Some base # rts, m))))))"

definition seg_base :: "guest_addr option list \<Rightarrow> u8 \<Rightarrow> guest_addr option" where
  "seg_base rts i = (if unat i < length rts then rts ! unat i else None)"

text \<open>A stream of the \<open>LC_DYLD_INFO\<close> command; the 32-bit sum of offset and size wraps around.\<close>

definition dyld_stream :: "u8 list \<Rightarrow> u32 \<Rightarrow> u32 \<Rightarrow> string \<Rightarrow> u8 list emu_result" where
  "dyld_stream bytes off sz msg = ok_or (Dyld msg) (slice_get bytes (unat off) (unat (off + sz)))"

section \<open>Step 1.5: rebasing\<close>

definition rebase_one ::
    "u64 \<Rightarrow> guest_addr option list \<Rightarrow> rebase_location \<Rightarrow> guest_memory \<Rightarrow> guest_memory emu_result" where
  "rebase_one slide rts loc m =
     (if rl_rtype loc \<noteq> REBASE_TYPE_POINTER then Ok m
      else
        (case seg_base rts (rl_seg_index loc) of
           None \<Rightarrow> Ok m
         | Some base \<Rightarrow>
             (let target = addr_add base (rl_seg_offset loc)
              in case read_u64 m target of
                   Ok v \<Rightarrow> write_u64 m target (v + slide)
                 | Err _ \<Rightarrow> Ok m
                 | Panic \<Rightarrow> Panic)))"

fun rebase_all ::
    "u64 \<Rightarrow> guest_addr option list \<Rightarrow> rebase_location list \<Rightarrow> guest_memory \<Rightarrow> guest_memory emu_result" where
  "rebase_all slide rts [] m = Ok m"
| "rebase_all slide rts (loc # locs) m = and_then (rebase_one slide rts loc m) (rebase_all slide rts locs)"

definition rebase_pass ::
    "macho_image \<Rightarrow> u8 list \<Rightarrow> u64 \<Rightarrow> guest_addr option list \<Rightarrow> guest_memory \<Rightarrow> guest_memory emu_result" where
  "rebase_pass img bytes slide rts m =
     (if slide \<noteq> 0 then
        (case img_dyld_info img of
           None \<Rightarrow> Ok m
         | Some info \<Rightarrow>
             if rebase_size info \<noteq> 0 then
               and_then (dyld_stream bytes (rebase_off info) (rebase_size info) ''rebase stream out of range'') (\<lambda>stream.
               and_then (parse_rebase_info stream) (\<lambda>locs. rebase_all slide rts locs m))
             else Ok m)
      else Ok m)"

section \<open>Step 2: binding\<close>

definition bind_one ::
    "guest_addr option list \<Rightarrow> bind_record \<Rightarrow> stub_resolver \<times> guest_memory \<Rightarrow> (stub_resolver \<times> guest_memory) emu_result" where
  "bind_one rts rec rm =
     (case seg_base rts (br_seg_index rec) of
        None \<Rightarrow> Ok rm
      | Some base \<Rightarrow>
          (let (r, m) = rm; target = addr_add base (br_seg_offset rec);
               (r, resolved) = stub_resolve r (br_symbol rec) (br_lib_ordinal rec) (br_weak rec)
           in case resolved of
                Some tramp \<Rightarrow>
                  (case write_u64 m target (tramp + br_addend rec) of
                     Ok m \<Rightarrow> Ok (r, m)
                   | Err _ \<Rightarrow> Ok (r, m)
                   | Panic \<Rightarrow> Panic)
              | None \<Rightarrow>
                  if br_weak rec then
                    (case write_u64 m target 0 of Ok m \<Rightarrow> Ok (r, m) | Err _ \<Rightarrow> Ok (r, m) | Panic \<Rightarrow> Panic)
                  else Ok (r, m)))"

fun bind_all ::
    "guest_addr option list \<Rightarrow> bind_record list \<Rightarrow> stub_resolver \<times> guest_memory \<Rightarrow> (stub_resolver \<times> guest_memory) emu_result" where
  "bind_all rts [] rm = Ok rm"
| "bind_all rts (rec # recs) rm = and_then (bind_one rts rec rm) (bind_all rts recs)"

definition bind_stream ::
    "u8 list \<Rightarrow> guest_addr option list \<Rightarrow> u32 \<Rightarrow> u32 \<Rightarrow> stub_resolver \<times> guest_memory \<Rightarrow> (stub_resolver \<times> guest_memory) emu_result" where
  "bind_stream bytes rts off sz rm =
     (if sz = 0 then Ok rm
      else
        and_then (dyld_stream bytes off sz ''bind stream out of range'') (\<lambda>stream.
        and_then (parse_bind_info stream) (\<lambda>recs. bind_all rts recs rm)))"

definition bind_pass ::
    "macho_image \<Rightarrow> u8 list \<Rightarrow> guest_addr option list \<Rightarrow> stub_resolver \<times> guest_memory \<Rightarrow> (stub_resolver \<times> guest_memory) emu_result" where
  "bind_pass img bytes rts rm =
     (case img_dyld_info img of
        None \<Rightarrow> Ok rm
      | Some info \<Rightarrow>
          and_then (bind_stream bytes rts (bind_off info) (bind_size info) rm)
            (bind_stream bytes rts (lazy_bind_off info) (lazy_bind_size info)))"

section \<open>Step 3: the trampoline page\<close>

text \<open>
  The offset is a natural number: the page count is a multiple of the page size, so the 64-bit offset of
  the source stops below \<open>2 ^ 64\<close> and never wraps.
\<close>

function fill_brk :: "guest_addr \<Rightarrow> nat \<Rightarrow> nat \<Rightarrow> guest_memory \<Rightarrow> guest_memory emu_result" where
  "fill_brk base tramp_bytes off m =
     (if off < tramp_bytes
      then and_then (write_u32 m (addr_add base (of_nat off)) AARCH64_BRK0) (fill_brk base tramp_bytes (off + 4))
      else Ok m)"
  by pat_completeness auto
termination
  by (relation "measure (\<lambda>(base, tramp_bytes, off, m). tramp_bytes - off)") auto

declare fill_brk.simps [simp del]

definition publish_trampolines :: "layout_config \<Rightarrow> stub_resolver \<Rightarrow> guest_memory \<Rightarrow> (guest_addr \<times> guest_memory) emu_result" where
  "publish_trampolines cfg r m =
     (let tramp_bytes = align_up (max (stub_used r) PAGE_SIZE) PAGE_SIZE; base = lc_trampoline_base cfg
      in and_then (mem_map m base tramp_bytes prot_rw SegmentKind ''__stubs'') (\<lambda>m.
         and_then (fill_brk base (unat tramp_bytes) 0 m) (\<lambda>m.
         and_then (mem_protect m base prot_rx) (\<lambda>m.
         Ok (addr_add base tramp_bytes, m)))))"

section \<open>Step 4: final protections\<close>

definition final_prot :: "macho_segment \<Rightarrow> protection" where
  "final_prot seg = (if seg_initprot seg = PROT_NONE_BITS then PROT_READ_BIT else seg_initprot seg)"

fun restore_protections :: "(macho_segment \<times> guest_addr option) list \<Rightarrow> guest_memory \<Rightarrow> guest_memory emu_result" where
  "restore_protections [] m = Ok m"
| "restore_protections ((seg, None) # rest) m = restore_protections rest m"
| "restore_protections ((seg, Some base) # rest) m =
     and_then (mem_protect m base (final_prot seg)) (restore_protections rest)"

section \<open>Step 5: initialisers\<close>

definition section_inits :: "guest_memory \<Rightarrow> u64 \<Rightarrow> macho_section \<Rightarrow> guest_addr list" where
  "section_inits m slide sect =
     (if is_mod_init sect then
        List.map_filter
          (\<lambda>i. case read_u64 m (sect_addr sect + slide + of_nat i * 8) of Ok fp \<Rightarrow> Some fp | _ \<Rightarrow> None)
          [0 ..< unat (sect_size sect div 8)]
      else [])"

definition collect_inits :: "guest_memory \<Rightarrow> u64 \<Rightarrow> macho_segment list \<Rightarrow> guest_addr list" where
  "collect_inits m slide segs = concat (map (\<lambda>seg. concat (map (section_inits m slide) (seg_sections seg))) segs)"

section \<open>Step 6: the initial stack\<close>

definition build_stack ::
    "layout_config \<Rightarrow> guest_memory \<Rightarrow> ((guest_addr \<times> (u64 \<times> u64 \<times> u64 \<times> u64)) \<times> guest_memory) emu_result" where
  "build_stack cfg m =
     (let top = lc_stack_top cfg - 16; path = as_bytes (lc_argv0 cfg); n = of_nat (length path) :: u64;
          str_addr = (top - n - 1) AND NOT 0xf
      in and_then (mem_write m str_addr path) (\<lambda>m.
         and_then (mem_write m (addr_add str_addr n) [0]) (\<lambda>m.
         let apple = (str_addr - 16) AND NOT 0xf
         in and_then (write_u64 m apple str_addr) (\<lambda>m.
            and_then (write_u64 m (addr_add apple 8) 0) (\<lambda>m.
            let envp = (apple - 8) AND NOT 0xf
            in and_then (write_u64 m envp 0) (\<lambda>m.
               let argv = (envp - 16) AND NOT 0xf
               in and_then (write_u64 m argv str_addr) (\<lambda>m.
                  and_then (write_u64 m (addr_add argv 8) 0) (\<lambda>m.
                  Ok ((argv AND NOT 0xf, (1, argv, envp, apple)), m)))))))))"

section \<open>Step 7: the entry point\<close>

definition image_span :: "macho_image \<Rightarrow> u64 \<times> u64" where
  "image_span img =
     (let preferred_base = text_vmaddr img;
          high = foldl (\<lambda>high seg. if seg_name seg = ''__PAGEZERO'' then high
                                   else max high (saturating_add (seg_vmaddr seg) (seg_vmsize seg)))
                   preferred_base (img_segments img)
      in (preferred_base, align_up (saturating_sub high preferred_base) PAGE_SIZE))"

definition resolve_entry :: "macho_image \<Rightarrow> u64 \<Rightarrow> guest_addr emu_result" where
  "resolve_entry img slide =
     (let header_addr = text_vmaddr img + slide
      in case img_entry img of
           Some (EntryMain off _) \<Rightarrow> Ok (header_addr + off)
         | Some (EntryThread vmaddr) \<Rightarrow> Ok (vmaddr + slide)
         | None \<Rightarrow> Err (MachO ''image has no entry point''))"

text \<open>The device build: the reservation is made by the C backend.\<close>

definition reserve_native_region :: "('n \<Rightarrow> u64 \<Rightarrow> 'n \<times> u64) \<Rightarrow> 'n \<Rightarrow> u64 \<Rightarrow> 'n \<times> guest_addr emu_result" where
  "reserve_native_region map_region n len =
     (let (n, base) = map_region n len
      in (n, if base = 0 then Err (Memory 0 ''native reservation returned null'') else Ok base))"

definition reserve_image_and_slide ::
    "('n \<Rightarrow> u64 \<Rightarrow> 'n \<times> u64) \<Rightarrow> 'n \<Rightarrow> macho_image \<Rightarrow> 'n \<times> (guest_addr \<times> u64) emu_result" where
  "reserve_image_and_slide map_region n img =
     (let (preferred_base, len) = image_span img; (n, r) = reserve_native_region map_region n len
      in (n, and_then r (\<lambda>base. Ok (base, base - preferred_base))))"

section \<open>Step 8: the lazy-binding table\<close>

fun lazy_entries :: "guest_addr option list \<Rightarrow> lazy_bind list \<Rightarrow> (u64 \<rightharpoonup> string \<times> guest_addr) \<Rightarrow> (u64 \<rightharpoonup> string \<times> guest_addr)" where
  "lazy_entries rts [] tab = tab"
| "lazy_entries rts (lb # lbs) tab =
     lazy_entries rts lbs
       (case seg_base rts (lb_seg_index lb) of
          Some base \<Rightarrow> tab(lb_offset lb \<mapsto> (lb_symbol lb, addr_add base (lb_seg_offset lb)))
        | None \<Rightarrow> tab)"

definition lazy_pass ::
    "macho_image \<Rightarrow> u8 list \<Rightarrow> guest_addr option list \<Rightarrow> (u64 \<rightharpoonup> string \<times> guest_addr) emu_result" where
  "lazy_pass img bytes rts =
     (case img_dyld_info img of
        None \<Rightarrow> Ok Map.empty
      | Some info \<Rightarrow>
          if lazy_bind_size info \<noteq> 0 then
            and_then (dyld_stream bytes (lazy_bind_off info) (lazy_bind_size info) ''lazy bind stream out of range'') (\<lambda>stream.
            and_then (parse_lazy_bind_info stream) (\<lambda>lbs. Ok (lazy_entries rts lbs Map.empty)))
          else Ok Map.empty)"

section \<open>The whole load\<close>

definition build_process ::
    "macho_image \<Rightarrow> u8 list \<Rightarrow> layout_config \<Rightarrow> guest_memory \<Rightarrow> (process_image \<times> guest_memory) emu_result" where
  "build_process img bytes cfg m =
     (if is_encrypted img
      then Err (Dyld ''executable is FairPlay-encrypted; supply a decrypted binary'')
      else
        (let slide = lc_slide cfg
         in and_then (map_segments bytes slide (img_segments img) m) (\<lambda>(rts, m).
            and_then (rebase_pass img bytes slide rts m) (\<lambda>m.
            and_then (bind_pass img bytes rts (stub_new (lc_trampoline_base cfg) (lc_trampoline_stride cfg), m)) (\<lambda>(r, m).
            and_then (publish_trampolines cfg r m) (\<lambda>(trampoline_end, m).
            and_then (restore_protections (zip (img_segments img) rts) m) (\<lambda>m.
            let init_funcs = collect_inits m slide (img_segments img);
                stack_base = lc_stack_top cfg - lc_stack_size cfg
            in and_then (mem_map m stack_base (lc_stack_size cfg) prot_rw StackKind ''stack'') (\<lambda>m.
               and_then (build_stack cfg m) (\<lambda>((sp, arg_regs), m).
               and_then (commit_to_native m stack_base) (\<lambda>_.
               and_then (resolve_entry img slide) (\<lambda>entry.
               and_then (lazy_pass img bytes rts) (\<lambda>lazy_binds.
               Ok (\<lparr>pi_entry = entry, pi_sp = sp, pi_arg_regs = arg_regs, pi_trampolines = stub_into_table r,
                    pi_trampoline_base = lc_trampoline_base cfg, pi_trampoline_end = trampoline_end,
                    pi_init_funcs = init_funcs, pi_symbol_stubs = stub_forward r, pi_lazy_binds = lazy_binds\<rparr>, m)))))))))))))"

end
