(* ===== verification/Memory_Room.thy ===== *)
theory Memory_Room
  imports Guest_Memory
begin

text \<open>
  When an access and when a mapping succeeds.  No access of a buffer shorter than \<open>2 ^ 64\<close> bytes panics.  \<open>room_for m rs\<close> says that the address space is well formed and that the ranges
  \<open>rs\<close> (base and length) are free in it and apart from each other: then each of them can be mapped in turn,
  and neither writing nor changing protections takes the room away.  The loader uses this to show that a
  load of an image that fits succeeds.
\<close>

section \<open>Accesses never panic\<close>

lemma region_range_no_panic [simp]: "region_range r a len \<noteq> Panic"
  by (simp add: region_range_def Let_def result_simps)

lemma region_range_bounds: "region_range r a len = Ok (off, e) \<Longrightarrow> e = off + unat len \<and> e \<le> length (r_data r)"
  by (auto simp: region_range_def Let_def result_simps checked_add_usize_def split: if_splits)

lemma mem_slice_no_panic [simp]: "mem_slice m a len need \<noteq> Panic"
  by (auto simp: mem_slice_def region_subslice_def and_then_eq_Panic slice_index_def slice_get_def
      dest!: region_range_bounds split: option.splits if_splits)

lemma mem_slice_length: "mem_slice m a len need = Ok src \<Longrightarrow> length src = unat len"
  by (auto simp: mem_slice_def region_subslice_def result_simps slice_index_def slice_get_def
      dest!: region_range_bounds split: option.splits if_splits)

lemma mem_slice_mut_no_panic [simp]: "mem_slice_mut m a len need \<noteq> Panic"
  by (auto simp: mem_slice_mut_def region_subslice_mut_def and_then_eq_Panic slice_index_def slice_get_def
      dest!: region_range_bounds split: option.splits if_splits)

lemma mem_slice_mut_length: "mem_slice_mut m a len need = Ok (k, r, off, e) \<Longrightarrow> e - off = unat len"
  by (auto simp: mem_slice_mut_def region_subslice_mut_def result_simps dest!: region_range_bounds split: option.splits if_splits)

lemma mem_read_no_panic: "n < 2 ^ 64 \<Longrightarrow> mem_read m a n \<noteq> Panic"
  by (auto simp: mem_read_def and_then_eq_Panic unat_of_nat_u64 dest!: mem_slice_length)

lemma mem_write_no_panic: "length d < 2 ^ 64 \<Longrightarrow> mem_write m a d \<noteq> Panic"
  by (auto simp: mem_write_def and_then_eq_Panic unat_of_nat_u64 dest!: mem_slice_mut_length)

lemma u64_no_panic [simp]: "write_u64 m a v \<noteq> Panic" "read_u64 m a \<noteq> Panic"
  by (simp_all add: write_u64_def read_u64_def result_simps mem_write_no_panic mem_read_no_panic)

lemma heap_alloc_no_panic [simp]: "heap_alloc m sz al \<noteq> Panic"
  by (auto simp: heap_alloc_def bump_alloc_def Let_def result_simps split: if_splits)

section \<open>Room\<close>

definition free_range :: "guest_memory \<Rightarrow> guest_addr \<Rightarrow> nat \<Rightarrow> bool" where
  "free_range m b n \<longleftrightarrow> unat b + n < 2 ^ 64 \<and>
     (\<forall>k r. bt_get (regions m) k = Some r \<longrightarrow> ranges_apart k (length (r_data r)) b n)"

definition room_for :: "guest_memory \<Rightarrow> (guest_addr \<times> nat) list \<Rightarrow> bool" where
  "room_for m rs \<longleftrightarrow> mem_wf m \<and> (\<forall>(b, n) \<in> set rs. free_range m b n) \<and>
     sorted_wrt (\<lambda>(b, n) (c, k). ranges_apart b n c k) rs"

lemma free_range_insert:
  "free_range (m\<lparr>regions := bt_insert k r (regions m)\<rparr>) b n \<longleftrightarrow>
     ranges_apart k (length (r_data r)) b n \<and> unat b + n < 2 ^ 64 \<and>
     (\<forall>k' r'. k' \<noteq> k \<longrightarrow> bt_get (regions m) k' = Some r' \<longrightarrow> ranges_apart k' (length (r_data r')) b n)"
  by (auto simp: free_range_def bt_get_insert)

lemma check_free_range:
  fixes n :: u64
  assumes "mem_wf m" and "free_range m b (unat n)"
  shows "check_free m b n = Ok ()"
  unfolding check_free_Ok [OF assms(1)]
  using assms mem_wf_region [OF assms(1)] by (fastforce simp: free_range_def overlaps_def ranges_apart_def)

lemma room_for_place:
  fixes n :: u64
  assumes "room_for m ((b, unat n) # rs)" and "r_base r = b" and "length (r_data r) = unat n"
  shows "room_for (m\<lparr>regions := bt_insert b r (regions m)\<rparr>) rs"
proof -
  have wf: "mem_wf m" and fr: "free_range m b (unat n)" using assms(1) by (simp_all add: room_for_def)
  have "free_range (m\<lparr>regions := bt_insert b r (regions m)\<rparr>) c k" if "(c, k) \<in> set rs" for c k
  proof -
    have "free_range m c k" "ranges_apart b (unat n) c k" using assms(1) that by (auto simp: room_for_def)
    then show ?thesis unfolding free_range_insert using assms(3) by (auto simp: free_range_def)
  qed
  then show ?thesis
    using mem_wf_place [OF wf check_free_range [OF wf fr] assms(2,3)] assms(1) by (auto simp: room_for_def)
qed

lemma room_for_map:
  fixes n :: u64
  assumes "room_for m ((b, unat n) # rs)" and "align_up (max sz 1) PAGE_SIZE = n" and "unat n \<le> isize_max"
  obtains m' where "mem_map m b sz p kind name = Ok m'" and "room_for m' rs"
    and "m' = m\<lparr>regions := bt_insert b \<lparr>r_base = b, r_prot = p, r_kind = kind, r_name = name,
           r_data = replicate (unat n) 0\<rparr> (regions m)\<rparr>"
proof -
  have wf: "mem_wf m" and fr: "free_range m b (unat n)" using assms(1) by (simp_all add: room_for_def)
  have "mem_map m b sz p kind name = Ok (m\<lparr>regions := bt_insert b \<lparr>r_base = b, r_prot = p, r_kind = kind, r_name = name,
      r_data = replicate (unat n) 0\<rparr> (regions m)\<rparr>)"
    using check_free_range [OF wf fr] assms(2,3) by (simp add: mem_map_def Let_def result_simps)
  moreover have "room_for (m\<lparr>regions := bt_insert b \<lparr>r_base = b, r_prot = p, r_kind = kind, r_name = name,
      r_data = replicate (unat n) 0\<rparr> (regions m)\<rparr>) rs"
    by (rule room_for_place [OF assms(1)]) simp_all
  ultimately show thesis using that by blast
qed

lemma room_for_map_data:
  fixes n :: u64
  assumes "room_for m ((b, unat n) # rs)" and "align_up (max sz (of_nat (length data))) PAGE_SIZE = n"
    and "unat n \<le> isize_max" and "length data \<le> unat n"
  obtains m' where "mem_map_with_data m b sz data p kind name = Ok m'" and "room_for m' rs"
    and "m' = m\<lparr>regions := bt_insert b \<lparr>r_base = b, r_prot = p, r_kind = kind, r_name = name,
           r_data = data @ replicate (unat n - length data) 0\<rparr> (regions m)\<rparr>"
proof -
  have wf: "mem_wf m" and fr: "free_range m b (unat n)" using assms(1) by (simp_all add: room_for_def)
  let ?r = "\<lparr>r_base = b, r_prot = p, r_kind = kind, r_name = name, r_data = data @ replicate (unat n - length data) 0\<rparr>"
  have "region_new_from b n data p kind name = Ok ?r" using assms(3,4) by (simp add: region_new_from_Ok)
  then have "mem_map_with_data m b sz data p kind name = Ok (m\<lparr>regions := bt_insert b ?r (regions m)\<rparr>)"
    using check_free_range [OF wf fr] assms(2) by (simp add: mem_map_with_data_def Let_def)
  moreover have "room_for (m\<lparr>regions := bt_insert b ?r (regions m)\<rparr>) rs"
    by (rule room_for_place [OF assms(1)]) (use assms(4) in simp_all)
  ultimately show thesis using that by blast
qed

text \<open>Replacing a region by one of the same size keeps the room.\<close>

lemma room_for_replace:
  assumes "room_for m rs" and "bt_get (regions m) k = Some r" and "length (r_data r') = length (r_data r)"
    and "mem_wf (m\<lparr>regions := bt_insert k r' (regions m)\<rparr>)"
  shows "room_for (m\<lparr>regions := bt_insert k r' (regions m)\<rparr>) rs"
  using assms unfolding room_for_def free_range_insert by (auto simp: free_range_def)

lemma room_for_write:
  assumes "room_for m rs" and "mem_write m a d = Ok m'"
  shows "room_for m' rs"
proof -
  have wf: "mem_wf m" using assms(1) by (simp add: room_for_def)
  obtain k r where kr: "bt_last_le (regions m) a = Some (k, r)" "unat a - unat k + length d \<le> length (r_data r)"
    "m' = m\<lparr>regions := bt_insert k (r\<lparr>r_data := splice (r_data r) (unat a - unat k) d\<rparr>) (regions m)\<rparr>"
    using assms(2) by (auto simp: mem_write_Ok [OF wf])
  show ?thesis
    using room_for_replace [OF assms(1) bt_last_le_region(1) [OF wf kr(1)]] mem_wf_write [OF wf assms(2)] kr(2)
    unfolding kr(3) by simp
qed

lemma mem_protect_region:
  assumes "mem_wf m" and "bt_get (regions m) k = Some r" and "0 < length (r_data r)"
  shows "mem_protect m k p = Ok (m\<lparr>regions := bt_insert k (r\<lparr>r_prot := p\<rparr>) (regions m)\<rparr>)"
proof -
  note reg = mem_wf_region [OF assms(1,2)]
  have "bt_last_le (regions m) k = Some (k, r)"
    using rm.nearest_below_contains [of "regions m" k r k] assms by (simp add: mem_wf_iff)
  moreover have "region_contains r k"
    using reg assms(3) by (simp add: region_contains_def word_less_nat_alt unat_region_end)
  ultimately show ?thesis using assms(2) by (simp add: mem_protect_def mem_region_base_def)
qed

lemma room_for_protect:
  assumes "room_for m rs" and "mem_protect m a p = Ok m'"
  shows "room_for m' rs"
proof -
  have wf: "mem_wf m" using assms(1) by (simp add: room_for_def)
  obtain k r where kr: "bt_get (regions m) k = Some r" "m' = m\<lparr>regions := bt_insert k (r\<lparr>r_prot := p\<rparr>) (regions m)\<rparr>"
    using assms(2) by (auto simp: mem_protect_def result_simps split: option.splits)
  show ?thesis
    using room_for_replace [OF assms(1) kr(1)] mem_wf_protect [OF wf assms(2)] unfolding kr(2) by simp
qed

end
