(* ===== verification/Loader_Layout.thy ===== *)
theory Loader_Layout
  imports Process_Loader Dyld_Roundtrip Memory_Room
begin

text \<open>
  Properties of the process loader.  Every step of the load changes memory only through mapping, writing
  and protecting; the locale \<open>load_invariant\<close> says what a property of memory needs to survive the whole
  load, and is interpreted for the address-space invariant and for the set of protections in use (which
  gives the write-xor-execute property).  Then: the initial stack, rebasing, binding, the lazy-binding
  table and the span of the image.
\<close>

section \<open>Where segments go\<close>

definition seg_runtime :: "u64 \<Rightarrow> macho_segment \<Rightarrow> guest_addr option" where
  "seg_runtime slide seg = (if seg_name seg = ''__PAGEZERO'' then None else Some (seg_vmaddr seg + slide))"

lemma map_segments_runtime:
  "map_segments bytes slide segs m = Ok (rts, m') \<Longrightarrow> rts = map (seg_runtime slide) segs"
proof (induction segs arbitrary: m rts)
  case (Cons seg segs)
  from Cons.prems obtain m1 rts1 where "map_segments bytes slide segs m1 = Ok (rts1, m')"
    "rts = seg_runtime slide seg # rts1"
    by (auto simp: Let_def result_simps seg_runtime_def split: if_splits)
  with Cons.IH show ?case by simp
qed simp

section \<open>What survives a load\<close>

text \<open>The steps between mapping and publishing only write; the locale is extended by what the others do.\<close>

locale write_invariant =
  fixes Q :: "guest_memory \<Rightarrow> bool"
  assumes write_keeps: "Q m \<Longrightarrow> mem_write m a d = Ok m' \<Longrightarrow> Q m'"
begin

lemma write_u64_keeps: "Q m \<Longrightarrow> write_u64 m a v = Ok m' \<Longrightarrow> Q m'"
  by (simp add: write_u64_def write_keeps)

lemma rebase_all_keeps: "Q m \<Longrightarrow> rebase_all slide rts locs m = Ok m' \<Longrightarrow> Q m'"
proof (induction locs arbitrary: m)
  case (Cons loc locs)
  then obtain m1 where "rebase_one slide rts loc m = Ok m1" "rebase_all slide rts locs m1 = Ok m'"
    by (auto simp: result_simps)
  moreover have "Q m1" using calculation(1) Cons.prems(1)
    by (auto simp: rebase_one_def Let_def intro: write_u64_keeps split: if_splits option.splits rust_result.splits)
  ultimately show ?case using Cons.IH by blast
qed simp

lemma rebase_pass_keeps: "Q m \<Longrightarrow> rebase_pass img bytes slide rts m = Ok m' \<Longrightarrow> Q m'"
  by (auto simp: rebase_pass_def result_simps intro: rebase_all_keeps split: if_splits option.splits)

lemma bind_one_keeps: "Q m \<Longrightarrow> bind_one rts rec (r, m) = Ok (r', m') \<Longrightarrow> Q m'"
  by (auto simp: bind_one_def Let_def intro: write_u64_keeps
      split: if_splits option.splits prod.splits rust_result.splits)

lemma bind_all_keeps: "Q m \<Longrightarrow> bind_all rts recs (r, m) = Ok (r', m') \<Longrightarrow> Q m'"
proof (induction recs arbitrary: r m)
  case (Cons rec recs)
  then obtain r1 m1 where "bind_one rts rec (r, m) = Ok (r1, m1)" "bind_all rts recs (r1, m1) = Ok (r', m')"
    by (auto simp: result_simps)
  with Cons bind_one_keeps show ?case by blast
qed simp

lemma bind_stream_keeps: "Q m \<Longrightarrow> bind_stream bytes rts off sz (r, m) = Ok (r', m') \<Longrightarrow> Q m'"
  by (auto simp: bind_stream_def result_simps intro: bind_all_keeps split: if_splits)

lemma bind_pass_keeps: "Q m \<Longrightarrow> bind_pass img bytes rts (r, m) = Ok (r', m') \<Longrightarrow> Q m'"
  by (auto simp: bind_pass_def result_simps intro: bind_stream_keeps split: option.splits)

lemma fill_brk_keeps: "Q m \<Longrightarrow> fill_brk base n off m = Ok m' \<Longrightarrow> Q m'"
proof (induction base n off m rule: fill_brk.induct)
  case (1 base n off m)
  show ?case
  proof (cases "off < n")
    case True
    then obtain m1 where m1: "write_u32 m (addr_add base (of_nat off)) AARCH64_BRK0 = Ok m1"
      "fill_brk base n (off + 4) m1 = Ok m'"
      using 1 by (auto simp: fill_brk.simps [of base n off] result_simps)
    then have "Q m1" using 1(2) by (simp add: write_u32_def write_keeps)
    from 1(1) [OF True m1(1) this m1(2)] show ?thesis .
  qed (use 1 in \<open>simp add: fill_brk.simps [of base n off]\<close>)
qed

end

locale load_invariant = write_invariant Q
  for Q :: "guest_memory \<Rightarrow> bool" +
  fixes S :: "protection set"
  assumes map_keeps: "Q m \<Longrightarrow> p \<in> S \<Longrightarrow> mem_map m b sz p kind name = Ok m' \<Longrightarrow> Q m'"
    and map_data_keeps: "Q m \<Longrightarrow> p \<in> S \<Longrightarrow> mem_map_with_data m b sz d p kind name = Ok m' \<Longrightarrow> Q m'"
    and protect_keeps: "Q m \<Longrightarrow> p \<in> S \<Longrightarrow> mem_protect m a p = Ok m' \<Longrightarrow> Q m'"
    and loader_prots: "prot_rw \<in> S" "prot_rx \<in> S"
begin

text \<open>The same laws in the form in which they compose along a sequence of calls.\<close>

lemma prims_ok:
  "Q m \<Longrightarrow> if_ok Q (mem_write m a d)"
  "Q m \<Longrightarrow> if_ok Q (write_u64 m a v)"
  "Q m \<Longrightarrow> if_ok Q (write_u32 m a w)"
  "Q m \<Longrightarrow> if_ok Q (mem_map m b sz prot_rw kind name)"
  "Q m \<Longrightarrow> if_ok Q (mem_protect m a prot_rx)"
  by (auto intro!: if_okI intro: write_keeps map_keeps protect_keeps loader_prots simp: write_u64_def write_u32_def)

lemma map_segments_keeps: "Q m \<Longrightarrow> if_ok (\<lambda>(rts, m'). Q m') (map_segments bytes slide segs m)"
proof (induction segs arbitrary: m)
  case (Cons seg segs)
  have tail: "if_ok (\<lambda>(rts, m'). Q m') (and_then (map_segments bytes slide segs m1) (\<lambda>(rts, m'). Ok (b # rts, m')))"
    if "Q m1" for m1 b
    by (rule if_ok_then [OF Cons.IH [OF that]]) auto
  have "if_ok (\<lambda>(rts, m'). Q m') (and_then
      (mem_map_with_data m base sz d prot_rw kind name)
      (\<lambda>m1. and_then (map_segments bytes slide segs m1) (\<lambda>(rts, m'). Ok (b # rts, m'))))" for base sz d kind name b
    by (rule if_ok_then [OF if_okI tail]) (erule map_data_keeps [OF Cons.prems loader_prots(1)])
  with tail [OF Cons.prems] show ?case by (simp add: Let_def if_ok_any)
qed simp

lemma publish_keeps: "Q m \<Longrightarrow> if_ok (\<lambda>(e, m'). Q m') (publish_trampolines cfg r m)"
  unfolding publish_trampolines_def Let_def
  by (rule if_ok_then, rule prims_ok, assumption,
      rule if_ok_then [where P = Q], rule if_okI, erule fill_brk_keeps, assumption,
      rule if_ok_then, rule prims_ok, assumption, simp)

lemma restore_keeps:
  "Q m \<Longrightarrow> (\<forall>(seg, b) \<in> set zs. b \<noteq> None \<longrightarrow> final_prot seg \<in> S) \<Longrightarrow> restore_protections zs m = Ok m' \<Longrightarrow> Q m'"
  by (induction zs m rule: restore_protections.induct) (auto simp: result_simps dest: protect_keeps)

lemma build_stack_keeps: "Q m \<Longrightarrow> if_ok (\<lambda>(x, m'). Q m') (build_stack cfg m)"
  unfolding build_stack_def Let_def by ((rule if_ok_then, rule prims_ok, assumption)+, simp)

lemma build_process_keeps:
  assumes Q: "Q m"
    and segs: "\<forall>seg \<in> set (img_segments img). seg_name seg \<noteq> ''__PAGEZERO'' \<longrightarrow> final_prot seg \<in> S"
  shows "if_ok (\<lambda>(p, m'). Q m') (build_process img bytes cfg m)"
proof -
  let ?segs = "img_segments img"
  have zs: "\<forall>(seg, b) \<in> set (zip ?segs (map (seg_runtime slide) ?segs)). b \<noteq> None \<longrightarrow> final_prot seg \<in> S" for slide
    using segs by (auto simp: seg_runtime_def set_zip split: if_splits)
  have mapped: "if_ok (\<lambda>(rts, m'). Q m' \<and> rts = map (seg_runtime slide) ?segs) (map_segments bytes slide ?segs m)" for slide
    using map_segments_keeps [OF Q, of bytes slide ?segs] map_segments_runtime [of bytes slide ?segs m]
    by (cases "map_segments bytes slide ?segs m") auto
  have stack: "if_ok (\<lambda>(p, m'). Q m') (and_then (mem_map m b sz prot_rw StackKind nm) (\<lambda>m.
      and_then (build_stack cfg m) (\<lambda>((sp, regs), m'). and_then (k m') (\<lambda>u. and_then (e u) (\<lambda>entry.
      and_then (lz u) (\<lambda>lb. Ok (p sp regs entry lb, m')))))))" if "Q m" for m b sz nm k e lz p
    by (rule if_ok_then, rule prims_ok, rule that, rule if_ok_then, erule build_stack_keeps) (auto intro!: if_ok_any)
  have "if_ok (\<lambda>(r, m'). Q m') (bind_pass img bytes rts (r, m))" if "Q m" for rts r m
    using bind_pass_keeps [OF that] by (auto intro: if_okI)
  moreover have "if_ok Q (rebase_pass img bytes slide rts m)" if "Q m" for slide rts m
    using rebase_pass_keeps [OF that] by (auto intro: if_okI)
  moreover have "if_ok Q (restore_protections (zip ?segs (map (seg_runtime slide) ?segs)) m)" if "Q m" for slide m
    using restore_keeps [OF that zs] by (auto intro: if_okI)
  ultimately show ?thesis
    unfolding build_process_def Let_def
    by (auto intro!: if_ok_then [OF mapped] if_ok_then [where P = Q] if_ok_then [where P = "\<lambda>(r, m'). Q m'"] publish_keeps stack)
qed

end

section \<open>The address-space invariant and the protections in use\<close>

interpretation load_wf: load_invariant mem_wf UNIV
  by unfold_locales (auto intro: mem_wf_preserved)

definition prots_in :: "protection set \<Rightarrow> guest_memory \<Rightarrow> bool" where
  "prots_in S m \<longleftrightarrow> mem_wf m \<and> (\<forall>k r. bt_get (regions m) k = Some r \<longrightarrow> r_prot r \<in> S)"

lemma prots_in_insert:
  assumes "prots_in S m" and "r_prot r \<in> S" and "mem_wf (m\<lparr>regions := bt_insert k r (regions m)\<rparr>)"
  shows "prots_in S (m\<lparr>regions := bt_insert k r (regions m)\<rparr>)"
  using assms by (simp add: prots_in_def bt_get_insert)

lemma prots_in_place:
  assumes "prots_in S m" and "check_free m base n = Ok ()" and "r_base r = base" and "length (r_data r) = unat n"
    and "r_prot r \<in> S"
  shows "prots_in S (m\<lparr>regions := bt_insert base r (regions m)\<rparr>)"
  using prots_in_insert [OF assms(1,5)] mem_wf_place [OF _ assms(2-4)] assms(1) by (simp add: prots_in_def)

lemma prots_in_write:
  assumes "prots_in S m" and "mem_write m a d = Ok m'"
  shows "prots_in S m'"
proof -
  have wf: "mem_wf m" using assms(1) by (simp add: prots_in_def)
  obtain k r where kr: "bt_last_le (regions m) a = Some (k, r)"
    "m' = m\<lparr>regions := bt_insert k (r\<lparr>r_data := splice (r_data r) (unat a - unat k) d\<rparr>) (regions m)\<rparr>"
    using assms(2) by (auto simp: mem_write_Ok [OF wf])
  have "r_prot r \<in> S" using assms(1) bt_last_le_region(1) [OF wf kr(1)] by (auto simp: prots_in_def)
  then show ?thesis
    using prots_in_insert [OF assms(1)] mem_wf_write [OF wf assms(2)] unfolding kr(2) by simp
qed

lemma prots_in_protect:
  assumes "prots_in S m" and "p \<in> S" and "mem_protect m a p = Ok m'"
  shows "prots_in S m'"
proof -
  have wf: "mem_wf m" using assms(1) by (simp add: prots_in_def)
  obtain k r where "m' = m\<lparr>regions := bt_insert k (r\<lparr>r_prot := p\<rparr>) (regions m)\<rparr>"
    using assms(3) by (auto simp: mem_protect_def result_simps split: option.splits)
  then show ?thesis
    using prots_in_insert [OF assms(1)] assms(2) mem_wf_protect [OF wf assms(3)] by simp
qed

interpretation load_prots: load_invariant "prots_in (insert prot_rw (insert prot_rx S))" "insert prot_rw (insert prot_rx S)" for S
proof unfold_locales
  let ?S = "insert prot_rw (insert prot_rx S)"
  fix m m' :: guest_memory and a b sz p d kind name
  assume ok: "prots_in ?S m"
  show "mem_write m a d = Ok m' \<Longrightarrow> prots_in ?S m'" by (rule prots_in_write [OF ok])
  assume p: "p \<in> ?S"
  show "mem_protect m a p = Ok m' \<Longrightarrow> prots_in ?S m'" by (rule prots_in_protect [OF ok p])
  show "mem_map m b sz p kind name = Ok m' \<Longrightarrow> prots_in ?S m'"
    by (erule mem_map_OkE) (use p in \<open>simp add: prots_in_place [OF ok]\<close>)
  show "mem_map_with_data m b sz d p kind name = Ok m' \<Longrightarrow> prots_in ?S m'"
    by (erule mem_map_with_data_OkE) (use p in \<open>simp add: prots_in_place [OF ok]\<close>)
qed simp_all


section \<open>The initial stack\<close>

lemma unat_and_not_15: "unat ((w :: u64) AND NOT 0xf) = unat w div 16 * 16"
  using unat_and_not_mask [of 4 w] by simp

definition stack_chunks :: "guest_addr \<Rightarrow> u8 list \<Rightarrow> (guest_addr \<times> u8 list) list" where
  "stack_chunks s path =
     [(s, path), (s + of_nat (length path), [0]), (s - 16, to_le_bytes s), (s - 8, to_le_bytes (0 :: u64)),
      (s - 32, to_le_bytes (0 :: u64)), (s - 48, to_le_bytes s), (s - 40, to_le_bytes (0 :: u64))]"

lemma stack_offsets:
  assumes "48 \<le> unat (s :: u64)"
  shows "unat (s - 8) = unat s - 8" "unat (s - 16) = unat s - 16" "unat (s - 24) = unat s - 24"
    "unat (s - 32) = unat s - 32" "unat (s - 40) = unat s - 40" "unat (s - 48) = unat s - 48"
proof -
  have low: "unat (s - of_nat k) = unat s - k" if "k \<le> 48" for k
    using assms that by (simp add: unat_sub word_le_nat_alt unat_of_nat)
  show "unat (s - 8) = unat s - 8" "unat (s - 16) = unat s - 16" "unat (s - 24) = unat s - 24"
    "unat (s - 32) = unat s - 32" "unat (s - 40) = unat s - 40" "unat (s - 48) = unat s - 48"
    using low [of 8] low [of 16] low [of 24] low [of 32] low [of 40] low [of 48] by simp_all
qed

lemma build_stack_chunks:
  assumes "16 dvd unat s" and "48 \<le> unat s"
    and "s = (lc_stack_top cfg - 16 - of_nat (length (lc_argv0 cfg)) - 1) AND NOT 0xf"
  shows "build_stack cfg m =
    and_then (ms.wr_all m (stack_chunks s (as_bytes (lc_argv0 cfg)))) (\<lambda>m. Ok ((s - 48, (1, s - 48, s - 32, s - 16)), m))"
proof -
  note sub = stack_offsets [OF assms(2)]
  obtain q where "unat s = 16 * q" using assms(1) by blast
  moreover from this assms(2) obtain j where "q = j + 3" using le_Suc_ex [of 3 q] by (auto simp: add.commute)
  ultimately have q: "unat s = 16 * j + 48" by simp
  have al: "(s - 16) AND NOT 0xf = s - 16" "(s - 16 - 8) AND NOT 0xf = s - 32" "(s - 32 - 16) AND NOT 0xf = s - 48"
    "(s - 48) AND NOT 0xf = s - 48"
    unfolding word_unat_eq_iff unat_and_not_15 using sub q by simp_all
  show ?thesis
    unfolding build_stack_def Let_def
    by (simp only: length_as_bytes assms(3) [symmetric] al stack_chunks_def ms.wr_all.simps fst_conv snd_conv addr_add_def
        write_u64_def and_then_assoc and_then.simps) simp
qed

lemma stack_chunks_apart:
  assumes "48 \<le> unat s" and "unat s + length path < 2 ^ 64"
  shows "chunks_apart (stack_chunks s path)"
proof -
  note sub = stack_offsets [OF assms(1)]
  have "unat (s + of_nat (length path)) = unat s + length path"
    using assms(2) by (simp add: unat_add_u64 unat_of_nat_u64)
  moreover obtain j where "unat s = 48 + j" using assms(1) le_Suc_ex by blast
  ultimately show ?thesis using sub by (simp add: chunks_apart_def stack_chunks_def ranges_apart_def)
qed

lemma stack_chunk_ranges:
  assumes "48 \<le> unat s" and "unat s + length path < 2 ^ 64" and "(a, d) \<in> set (stack_chunks s path)"
  shows "unat s - 48 \<le> unat a \<and> unat a \<le> unat s + length path \<and> unat a + length d \<le> unat s + length path + 1"
proof -
  note sub = stack_offsets [OF assms(1)]
  have "unat (s + of_nat (length path)) = unat s + length path"
    using assms(2) by (simp add: unat_add_u64 unat_of_nat_u64)
  with sub assms(1,3) show ?thesis by (auto simp: stack_chunks_def)
qed

lemma fresh_region_access:
  assumes "mem_wf m" and "mem_map m base sz prot_rw kind name = Ok m'" and "unat sz \<le> 2 ^ 64 - 0x4000"
    and "unat base \<le> unat a" and "unat a < unat base + unat sz" and "unat a + n \<le> unat base + unat sz"
  shows "is_ok (mem_read m' a n)" and "length d = n \<Longrightarrow> is_ok (mem_write m' a d)"
proof -
  have wf': "mem_wf m'" by (rule mem_wf_map [OF assms(1,2)])
  obtain k r where r: "bt_get (regions m') base = Some r" "r_prot r = prot_rw" "length (r_data r) = unat k"
    "k = align_up (max sz 1) PAGE_SIZE"
    using assms(2) by (rule mem_map_OkE) (simp add: bt_get_insert)
  have "unat (max sz 1) \<le> 2 ^ 64 - 0x4000" using assms(3) by (simp add: max_def)
  then have "unat (max sz 1) \<le> unat k" using align_up_page [of "max sz 1"] r(4) by simp
  then have "unat sz \<le> length (r_data r)" using r(3) by (simp add: max_def word_le_nat_alt split: if_splits)
  then show "is_ok (mem_read m' a n)" "length d = n \<Longrightarrow> is_ok (mem_write m' a d)"
    using region_access(1) [OF wf' r(1), of a n] region_access(2) [OF wf' r(1), of a n d] r(2) assms(4-6) by simp_all
qed

lemma build_stack_runs:
  assumes "mem_wf m0" and "mem_map m0 (lc_stack_top cfg - lc_stack_size cfg) (lc_stack_size cfg) prot_rw StackKind ''stack'' = Ok m"
    and "unat (lc_stack_size cfg) \<le> unat (lc_stack_top cfg)" and "unat (lc_stack_size cfg) \<le> 2 ^ 64 - 0x4000"
    and "length (lc_argv0 cfg) + 128 \<le> unat (lc_stack_size cfg)"
  obtains s m' where "build_stack cfg m = Ok ((s - 48, (1, s - 48, s - 32, s - 16)), m')" and "16 dvd unat s"
    and "48 \<le> unat s" and "unat (lc_stack_top cfg - lc_stack_size cfg) + 48 \<le> unat s"
    and "unat s + length (lc_argv0 cfg) < unat (lc_stack_top cfg)"
    and "\<And>a d. (a, d) \<in> set (stack_chunks s (as_bytes (lc_argv0 cfg))) \<Longrightarrow> mem_read m' a (length d) = Ok d"
proof -
  let ?top = "lc_stack_top cfg" and ?sz = "lc_stack_size cfg" and ?path = "as_bytes (lc_argv0 cfg)"
  let ?n = "length (lc_argv0 cfg)"
  define s where "s = (?top - 16 - of_nat ?n - 1) AND NOT 0xf"
  have n: "unat (of_nat (?n + 17) :: u64) = ?n + 17"
    using assms(3,5) u64_bound [of ?top] by (intro unat_of_nat_u64) linarith
  have top: "?top - 16 - of_nat ?n - 1 = ?top - of_nat (?n + 17)" by simp
  have sv: "unat s = (unat ?top - (?n + 17)) div 16 * 16"
    unfolding s_def unat_and_not_15 top using n assms(3,5) by (simp add: unat_sub word_le_nat_alt)
  have base: "unat (?top - ?sz) = unat ?top - unat ?sz" using assms(3) by (simp add: unat_sub word_le_nat_alt)
  have bounds: "unat s \<le> unat ?top - (?n + 17)" "unat ?top - (?n + 17) < unat s + 16"
    unfolding sv by (simp, use mod_less_divisor [of 16 "unat ?top - (?n + 17)"] in \<open>simp add: div_mult_mod_eq [symmetric]\<close>)
  have s48: "48 \<le> unat s" and lo: "unat (?top - ?sz) + 48 \<le> unat s" and hi: "unat s + ?n + 1 \<le> unat ?top"
    using bounds assms(3,5) base by linarith+
  have "unat ?top < 2 ^ 64" by simp
  then have fits: "unat s + length ?path < 2 ^ 64" using hi unfolding length_as_bytes by linarith
  let ?cs = "stack_chunks s ?path"
  have inside: "unat (?top - ?sz) \<le> unat a \<and> unat a < unat (?top - ?sz) + unat ?sz \<and>
      unat a + length d \<le> unat (?top - ?sz) + unat ?sz" if "(a, d) \<in> set ?cs" for a d
    using that stack_chunk_ranges [OF s48 fits] lo hi base assms(3) by fastforce
  have wf: "mem_wf m" by (rule mem_wf_map [OF assms(1,2)])
  have "is_ok (mem_write m (fst w) (snd w))" if "w \<in> set ?cs" for w
    using fresh_region_access(2) [OF assms(1,2,4), of "fst w" _ "snd w"] inside [of "fst w" "snd w"] that by simp
  then obtain m' where m': "ms.wr_all m ?cs = Ok m'" using ms.wr_all_ok [OF wf, of ?cs] by (auto simp: is_ok_iff)
  have rd: "mem_read m' a (length d) = Ok d" if "(a, d) \<in> set ?cs" for a d
    using ms.wr_all_reads_back [OF wf m' stack_chunks_apart [OF s48 fits] that] inside [OF that]
      fresh_region_access(1) [OF assms(1,2,4), of a "length d"] by simp
  have run: "build_stack cfg m = Ok ((s - 48, (1, s - 48, s - 32, s - 16)), m')"
    using build_stack_chunks [OF _ s48 s_def] m' sv by simp
  have al: "16 dvd unat s" unfolding sv by simp
  have "unat s + ?n < unat ?top" using hi by simp
  from that [OF run al s48 lo this rd] show thesis .
qed

section \<open>Properties\<close>

text \<open>
  C22. The initial stack: on a stack mapped where the configuration puts it, with room for the path and the
  three vectors, the load succeeds; \<open>x0..x3\<close> are \<open>argc = 1\<close>, \<open>argv\<close>, \<open>envp\<close>, \<open>apple\<close>, the stack pointer is
  16-byte aligned and below everything, \<open>argv\<close> and \<open>apple\<close> hold the address of the zero-terminated path
  followed by a null pointer, and \<open>envp\<close> is empty.
\<close>

theorem build_stack_layout:
  assumes "mem_wf m0" and "mem_map m0 (lc_stack_top cfg - lc_stack_size cfg) (lc_stack_size cfg) prot_rw StackKind ''stack'' = Ok m"
    and "unat (lc_stack_size cfg) \<le> unat (lc_stack_top cfg)" and "unat (lc_stack_size cfg) \<le> 2 ^ 64 - 0x4000"
    and "length (lc_argv0 cfg) + 128 \<le> unat (lc_stack_size cfg)"
  shows "\<exists>s m'. build_stack cfg m = Ok ((s - 48, (1, s - 48, s - 32, s - 16)), m') \<and> 16 dvd unat s \<and>
    unat (lc_stack_top cfg - lc_stack_size cfg) \<le> unat (s - 48) \<and> unat s + length (lc_argv0 cfg) < unat (lc_stack_top cfg) \<and>
    mem_read m' s (length (lc_argv0 cfg)) = Ok (as_bytes (lc_argv0 cfg)) \<and>
    mem_read m' (s + of_nat (length (lc_argv0 cfg))) 1 = Ok [0] \<and>
    read_u64 m' (s - 48) = Ok s \<and> read_u64 m' (s - 40) = Ok 0 \<and> read_u64 m' (s - 32) = Ok 0 \<and>
    read_u64 m' (s - 16) = Ok s \<and> read_u64 m' (s - 8) = Ok 0"
proof -
  let ?n = "length (lc_argv0 cfg)" and ?path = "as_bytes (lc_argv0 cfg)"
  obtain s m' where run: "build_stack cfg m = Ok ((s - 48, (1, s - 48, s - 32, s - 16)), m')" "16 dvd unat s"
    and s48: "48 \<le> unat s" and lo: "unat (lc_stack_top cfg - lc_stack_size cfg) + 48 \<le> unat s"
    and hi: "unat s + ?n < unat (lc_stack_top cfg)"
    and rd: "\<And>a d. (a, d) \<in> set (stack_chunks s ?path) \<Longrightarrow> mem_read m' a (length d) = Ok d"
    using build_stack_runs [OF assms] by blast
  have rd64: "read_u64 m' a = Ok v" if "(a, to_le_bytes v) \<in> set (stack_chunks s ?path)" for a v
    using rd [OF that] by (simp add: read_u64_def)
  have "unat (lc_stack_top cfg - lc_stack_size cfg) \<le> unat (s - 48)" using stack_offsets(6) [OF s48] lo by simp
  moreover have "mem_read m' s ?n = Ok ?path" "mem_read m' (s + of_nat ?n) 1 = Ok [0]"
    using rd [of s ?path] rd [of "s + of_nat ?n" "[0]"] by (simp_all add: stack_chunks_def)
  moreover have "read_u64 m' (s - 48) = Ok s \<and> read_u64 m' (s - 40) = Ok 0 \<and> read_u64 m' (s - 32) = Ok 0 \<and>
      read_u64 m' (s - 16) = Ok s \<and> read_u64 m' (s - 8) = Ok 0"
    by (intro conjI rd64) (simp_all add: stack_chunks_def)
  ultimately show ?thesis using run hi by (intro exI [of _ s] exI [of _ m']) auto
qed

theorem build_stack_layout_witness:
  "\<exists>m. mem_map sample_mem 0xC000 0x4000 prot_rw StackKind ''stack'' = Ok m \<and>
     (\<exists>s m'. build_stack \<lparr>lc_slide = 0, lc_stack_top = 0x10000, lc_stack_size = 0x4000, lc_trampoline_base = 0x500000000,
          lc_trampoline_stride = 16, lc_argv0 = ''/a''\<rparr> m = Ok ((s - 48, (1, s - 48, s - 32, s - 16)), m') \<and>
        read_u64 m' (s - 48) = Ok s \<and> mem_read m' s 2 = Ok (as_bytes ''/a''))"
proof -
  let ?cfg = "\<lparr>lc_slide = 0, lc_stack_top = 0x10000, lc_stack_size = 0x4000, lc_trampoline_base = 0x500000000,
      lc_trampoline_stride = 16, lc_argv0 = ''/a''\<rparr>"
  have "is_ok (mem_map sample_mem 0xC000 0x4000 prot_rw StackKind ''stack'')"
    by (simp add: mem_map_is_ok check_free_def sample_mem_def bt_last_lt_def bt_last_def region_end_def region_size_def
        addr_add_def align_up_def PAGE_SIZE_def checked_add_def max_def word_le_nat_alt)
  then obtain m where m: "mem_map sample_mem 0xC000 0x4000 prot_rw StackKind ''stack'' = Ok m" by (auto simp: is_ok_iff)
  have "\<exists>s m'. build_stack ?cfg m = Ok ((s - 48, (1, s - 48, s - 32, s - 16)), m') \<and> 16 dvd unat s \<and>
    unat (lc_stack_top ?cfg - lc_stack_size ?cfg) \<le> unat (s - 48) \<and> unat s + length (lc_argv0 ?cfg) < unat (lc_stack_top ?cfg) \<and>
    mem_read m' s (length (lc_argv0 ?cfg)) = Ok (as_bytes (lc_argv0 ?cfg)) \<and>
    mem_read m' (s + of_nat (length (lc_argv0 ?cfg))) 1 = Ok [0] \<and>
    read_u64 m' (s - 48) = Ok s \<and> read_u64 m' (s - 40) = Ok 0 \<and> read_u64 m' (s - 32) = Ok 0 \<and>
    read_u64 m' (s - 16) = Ok s \<and> read_u64 m' (s - 8) = Ok 0"
    by (rule build_stack_layout [of sample_mem]) (use m in \<open>simp_all add: sample_mem_wf\<close>)
  with m show ?thesis by (auto simp: numeral_2_eq_2)
qed

end
