(* ===== verification/Loader_Success.thy ===== *)
theory Loader_Success
  imports Loader_Layout
begin

text \<open>
  Loads that succeed: an image whose segments, with the trampoline page and the stack, fit into free memory
  is loaded.  \<open>placed m rs\<close> records regions that exist; the steps after mapping keep them.
\<close>

section \<open>Placed regions\<close>

definition placed :: "guest_memory \<Rightarrow> (guest_addr \<times> nat) list \<Rightarrow> bool" where
  "placed m rs \<longleftrightarrow> (\<forall>(b, n) \<in> set rs. 0 < n \<and> (\<exists>r. bt_get (regions m) b = Some r \<and> length (r_data r) = n))"

lemma placed_replace:
  assumes "placed m rs" and "bt_get (regions m) k = Some r" and "length (r_data r') = length (r_data r)"
  shows "placed (m\<lparr>regions := bt_insert k r' (regions m)\<rparr>) rs"
  using assms by (fastforce simp: placed_def bt_get_insert)

lemma placed_write:
  assumes "mem_wf m" and "placed m rs" and "mem_write m a d = Ok m'"
  shows "placed m' rs"
proof -
  obtain k r where kr: "bt_last_le (regions m) a = Some (k, r)" "unat a - unat k + length d \<le> length (r_data r)"
    "m' = m\<lparr>regions := bt_insert k (r\<lparr>r_data := splice (r_data r) (unat a - unat k) d\<rparr>) (regions m)\<rparr>"
    using assms(3) by (auto simp: mem_write_Ok [OF assms(1)])
  then show ?thesis using placed_replace [OF assms(2) bt_last_le_region(1) [OF assms(1) kr(1)]] by simp
qed

lemma placed_insert:
  assumes "placed m rs" and "free_range m b n" and "0 < n" and "length (r_data r) = n"
  shows "placed (m\<lparr>regions := bt_insert b r (regions m)\<rparr>) ((b, n) # rs)"
proof -
  have "c \<noteq> b" if "(c, k) \<in> set rs" for c k
    using assms that by (fastforce simp: placed_def free_range_def ranges_apart_def)
  then show ?thesis using assms by (auto simp: placed_def bt_get_insert)
qed

section \<open>Segments\<close>

definition seg_len :: "u8 list \<Rightarrow> macho_segment \<Rightarrow> u64" where
  "seg_len bytes seg = align_up (max (seg_vmsize seg) (of_nat (length (the_ok (segment_data bytes seg))))) PAGE_SIZE"

definition loaded_segs :: "macho_segment list \<Rightarrow> macho_segment list" where
  "loaded_segs segs = filter (\<lambda>seg. seg_name seg \<noteq> ''__PAGEZERO'') segs"

definition seg_ranges :: "u8 list \<Rightarrow> u64 \<Rightarrow> macho_segment list \<Rightarrow> (guest_addr \<times> nat) list" where
  "seg_ranges bytes slide segs = map (\<lambda>seg. (seg_vmaddr seg + slide, unat (seg_len bytes seg))) (loaded_segs segs)"

definition seg_ok :: "u8 list \<Rightarrow> macho_segment \<Rightarrow> bool" where
  "seg_ok bytes seg \<longleftrightarrow> is_ok (segment_data bytes seg) \<and>
     length (the_ok (segment_data bytes seg)) \<le> unat (seg_len bytes seg) \<and>
     0 < unat (seg_len bytes seg) \<and> unat (seg_len bytes seg) \<le> isize_max"

lemma map_segments_succeeds:
  assumes "room_for m (seg_ranges bytes slide segs @ rs)" and "list_all (seg_ok bytes) (loaded_segs segs)"
    and "placed m ps"
  shows "\<exists>m'. map_segments bytes slide segs m = Ok (map (seg_runtime slide) segs, m') \<and> room_for m' rs \<and>
    placed m' (seg_ranges bytes slide segs @ ps)"
  using assms
proof (induction segs arbitrary: m ps)
  case (Cons seg segs)
  show ?case
  proof (cases "seg_name seg = ''__PAGEZERO''")
    case True
    then show ?thesis using Cons by (fastforce simp: seg_ranges_def loaded_segs_def seg_runtime_def)
  next
    case False
    have ok: "seg_ok bytes seg" using Cons.prems(2) False by (simp add: loaded_segs_def)
    then obtain d where d: "segment_data bytes seg = Ok d" by (auto simp: seg_ok_def is_ok_iff)
    let ?b = "seg_vmaddr seg + slide" and ?n = "seg_len bytes seg"
    have len: "align_up (max (seg_vmsize seg) (of_nat (length d))) PAGE_SIZE = ?n" by (simp add: seg_len_def d)
    have fits: "unat ?n \<le> isize_max" "length d \<le> unat ?n" using ok by (simp_all add: seg_ok_def d)
    have room: "room_for m ((?b, unat ?n) # seg_ranges bytes slide segs @ rs)"
      using Cons.prems(1) False by (simp add: seg_ranges_def loaded_segs_def)
    obtain m1 where m1: "mem_map_with_data m ?b (seg_vmsize seg) d prot_rw SegmentKind (seg_name seg) = Ok m1"
      "room_for m1 (seg_ranges bytes slide segs @ rs)"
      "m1 = m\<lparr>regions := bt_insert ?b \<lparr>r_base = ?b, r_prot = prot_rw, r_kind = SegmentKind, r_name = seg_name seg,
         r_data = d @ replicate (unat ?n - length d) 0\<rparr> (regions m)\<rparr>"
      by (rule room_for_map_data [OF room len fits, of prot_rw SegmentKind "seg_name seg"])
    have "placed m1 ((?b, unat ?n) # ps)"
      unfolding m1(3) using room ok by (intro placed_insert [OF Cons.prems(3)]) (auto simp: room_for_def seg_ok_def d)
    from Cons.IH [OF m1(2) _ this] Cons.prems(2) False obtain m2 where
      "map_segments bytes slide segs m1 = Ok (map (seg_runtime slide) segs, m2)" "room_for m2 rs"
      "placed m2 (seg_ranges bytes slide segs @ (?b, unat ?n) # ps)"
      by (auto simp: loaded_segs_def)
    moreover from this have "map_segments bytes slide (seg # segs) m = Ok (map (seg_runtime slide) (seg # segs), m2)"
      using False m1(1) by (simp add: Let_def seg_runtime_def d)
    ultimately show ?thesis
      using False by (auto simp: seg_ranges_def loaded_segs_def placed_def)
  qed
qed (simp add: seg_ranges_def loaded_segs_def)

section \<open>Trampolines\<close>

definition brk_chunks :: "guest_addr \<Rightarrow> nat \<Rightarrow> nat \<Rightarrow> (guest_addr \<times> u8 list) list" where
  "brk_chunks base n off =
     map (\<lambda>i. (base + of_nat (off + 4 * i), to_le_bytes AARCH64_BRK0)) [0 ..< (n - off + 3) div 4]"

lemma brk_chunks_rec:
  "brk_chunks base n off =
     (if off < n then (base + of_nat off, to_le_bytes AARCH64_BRK0) # brk_chunks base n (off + 4) else [])"
proof (cases "off < n")
  case True
  define k where "k = (n - (off + 4) + 3) div 4"
  have "(n - off + 3) div 4 = Suc k"
  proof (cases "4 \<le> n - off")
    case True
    then have "n - off + 3 = 4 + (n - (off + 4) + 3)" by simp
    then have "(n - off + 3) div 4 = (4 + (n - (off + 4) + 3)) div 4" by (simp only:)
    then show ?thesis unfolding k_def by (simp only: div_add_self1 zero_neq_numeral)
  next
    case False
    with \<open>off < n\<close> have "n - off \<in> {1, 2, 3}" by auto
    then show ?thesis by (auto simp: k_def)
  qed
  moreover have "[0 ..< Suc k] = 0 # map Suc [0 ..< k]" by (simp add: map_Suc_upt upt_conv_Cons)
  ultimately show ?thesis using True by (simp add: brk_chunks_def k_def [symmetric] comp_def add.assoc)
qed (simp add: brk_chunks_def)

lemma fill_brk_chunks: "fill_brk base n off m = ms.wr_all m (brk_chunks base n off)"
proof (induction base n off m rule: fill_brk.induct)
  case (1 base n off m)
  show ?case
  proof (cases "off < n")
    case True
    have "fill_brk base n off m =
        and_then (write_u32 m (base + of_nat off) AARCH64_BRK0) (\<lambda>m1. ms.wr_all m1 (brk_chunks base n (off + 4)))"
      using True 1 by (subst fill_brk.simps) (auto simp: addr_add_def intro: and_then_cong)
    then show ?thesis using True by (simp add: brk_chunks_rec [of base n off] write_u32_def)
  qed (simp add: fill_brk.simps [of base n off] brk_chunks_rec [of base n off])
qed

lemma fill_brk_succeeds:
  assumes "room_for m rs" and "placed m ps" and "bt_get (regions m) base = Some r" and "r_prot r = prot_rw"
    and "length (r_data r) = n" and "4 dvd n"
  shows "\<exists>m'. fill_brk base n 0 m = Ok m' \<and> room_for m' rs \<and> placed m' ps"
proof -
  have wf: "mem_wf m" using assms(1) by (simp add: room_for_def)
  have bound: "unat base + n < 2 ^ 64" using mem_wf_region [OF wf assms(3)] assms(5) by simp
  have "is_ok (mem_write m a d)" if ad: "(a, d) \<in> set (brk_chunks base n 0)" for a d
  proof -
    obtain i where i: "i < (n + 3) div 4" "a = base + of_nat (4 * i)" "d = to_le_bytes AARCH64_BRK0"
      using ad by (auto simp: brk_chunks_def simp del: of_nat_mult of_nat_numeral)
    with assms(6) have le: "4 * i + 4 \<le> n" by (auto elim!: dvdE)
    then have "unat (of_nat (4 * i) :: u64) = 4 * i" using bound by (intro unat_of_nat_u64) simp
    then have "unat a = unat base + 4 * i" unfolding i(2) using le bound by (simp add: unat_add_u64)
    note le this
    then show ?thesis
      using region_access(2) [OF wf assms(3), of a 4 d] assms(4,5) i(3) by simp
  qed
  then have "is_ok (ms.wr_all m (brk_chunks base n 0))" by (auto simp: ms.wr_all_ok [OF wf])
  then obtain m' where m': "ms.wr_all m (brk_chunks base n 0) = Ok m'" by (auto simp: is_ok_iff)
  have "room_for m' rs \<and> placed m' ps" if "ms.wr_all m cs = Ok m'" "room_for m rs" "placed m ps" for cs m
    using that
  proof (induction cs arbitrary: m)
    case (Cons c cs)
    then obtain m1 where m1: "mem_write m (fst c) (snd c) = Ok m1" "ms.wr_all m1 cs = Ok m'" by (auto simp: result_simps)
    have "mem_wf m" using Cons.prems(2) by (simp add: room_for_def)
    with Cons m1 room_for_write [OF Cons.prems(2) m1(1)] placed_write [OF _ Cons.prems(3) m1(1)] show ?case by blast
  qed simp
  with assms(1,2) m' show ?thesis by (auto simp: fill_brk_chunks)
qed

lemma publish_succeeds:
  assumes "room_for m ((lc_trampoline_base cfg, unat n) # rs)" and "placed m ps"
    and n: "n = align_up (max (stub_used r) PAGE_SIZE) PAGE_SIZE" "unat n \<le> isize_max" "0 < unat n" "0x4000 dvd unat n"
  shows "\<exists>m'. publish_trampolines cfg r m = Ok (lc_trampoline_base cfg + n, m') \<and> room_for m' rs \<and>
    placed m' ((lc_trampoline_base cfg, unat n) # ps)"
proof -
  let ?b = "lc_trampoline_base cfg"
  have "1 \<le> n" using n(3) by (simp add: word_le_nat_alt)
  then have "max n 1 = n" by (rule max_absorb1)
  then have fix_n: "align_up (max n 1) PAGE_SIZE = n" using align_up_multiple [OF n(4)] by simp
  obtain m1 where m1: "mem_map m ?b n prot_rw SegmentKind ''__stubs'' = Ok m1" "room_for m1 rs"
    "m1 = m\<lparr>regions := bt_insert ?b \<lparr>r_base = ?b, r_prot = prot_rw, r_kind = SegmentKind, r_name = ''__stubs'',
       r_data = replicate (unat n) 0\<rparr> (regions m)\<rparr>"
    by (rule room_for_map [OF assms(1) fix_n n(2), of prot_rw SegmentKind "''__stubs''"])
  have "placed m1 ((?b, unat n) # ps)"
    unfolding m1(3) using assms(1) n(3) by (intro placed_insert [OF assms(2)]) (auto simp: room_for_def)
  moreover have "4 dvd unat n" using n(4) by (rule dvd_trans [rotated]) simp
  moreover have "bt_get (regions m1) ?b = Some \<lparr>r_base = ?b, r_prot = prot_rw, r_kind = SegmentKind, r_name = ''__stubs'',
       r_data = replicate (unat n) 0\<rparr>"
    by (simp add: m1(3) bt_get_insert)
  ultimately obtain m2 where m2: "fill_brk ?b (unat n) 0 m1 = Ok m2" "room_for m2 rs" "placed m2 ((?b, unat n) # ps)"
    using fill_brk_succeeds [OF m1(2)] by fastforce
  obtain s where s: "bt_get (regions m2) ?b = Some s" "length (r_data s) = unat n" using m2(3) by (auto simp: placed_def)
  have wf2: "mem_wf m2" using m2(2) by (simp add: room_for_def)
  note prot = mem_protect_region [OF wf2 s(1), of prot_rx]
  then obtain m3 where m3: "mem_protect m2 ?b prot_rx = Ok m3" "m3 = m2\<lparr>regions := bt_insert ?b (s\<lparr>r_prot := prot_rx\<rparr>) (regions m2)\<rparr>"
    using n(3) s(2) by simp
  have "room_for m3 rs" by (rule room_for_protect [OF m2(2) m3(1)])
  moreover have "placed m3 ((?b, unat n) # ps)" unfolding m3(2) by (rule placed_replace [OF m2(3) s(1)]) simp
  ultimately show ?thesis
    using m1(1) m2(1) m3(1) by (simp add: publish_trampolines_def Let_def n(1) [symmetric] addr_add_def)
qed

lemma restore_succeeds:
  assumes "room_for m rs" and "placed m ps" and "\<forall>(seg, b) \<in> set zs. \<forall>a. b = Some a \<longrightarrow> a \<in> fst ` set ps"
  shows "\<exists>m'. restore_protections zs m = Ok m' \<and> room_for m' rs"
  using assms
proof (induction zs m rule: restore_protections.induct)
  case (3 seg b rest m)
  have wf: "mem_wf m" using "3.prems"(1) by (simp add: room_for_def)
  from "3.prems"(3) have "b \<in> fst ` set ps" by simp
  then obtain n where "(b, n) \<in> set ps" by force
  with "3.prems"(2) obtain r where r: "bt_get (regions m) b = Some r" "0 < length (r_data r)" by (fastforce simp: placed_def)
  note prot = mem_protect_region [OF wf r, of "final_prot seg"]
  have "placed (m\<lparr>regions := bt_insert b (r\<lparr>r_prot := final_prot seg\<rparr>) (regions m)\<rparr>) ps"
    by (rule placed_replace [OF "3.prems"(2) r(1)]) simp
  with "3.IH" [OF prot room_for_protect [OF "3.prems"(1) prot]] "3.prems"(3) prot show ?case by simp
qed auto

section \<open>Imports\<close>

text \<open>The records of a bind stream, and of both streams; \<open>streams_parse\<close> says that every stream used is well formed.\<close>

definition stream_records :: "u8 list \<Rightarrow> u32 \<Rightarrow> u32 \<Rightarrow> bind_record list emu_result" where
  "stream_records bytes off sz =
     (if sz = 0 then Ok [] else and_then (dyld_stream bytes off sz ''bind stream out of range'') parse_bind_info)"

definition import_records :: "macho_image \<Rightarrow> u8 list \<Rightarrow> bind_record list" where
  "import_records img bytes =
     (case img_dyld_info img of
        None \<Rightarrow> []
      | Some info \<Rightarrow> the_ok (stream_records bytes (bind_off info) (bind_size info)) @
          the_ok (stream_records bytes (lazy_bind_off info) (lazy_bind_size info)))"

definition streams_parse :: "macho_image \<Rightarrow> u8 list \<Rightarrow> u64 \<Rightarrow> bool" where
  "streams_parse img bytes slide \<longleftrightarrow>
     (case img_dyld_info img of
        None \<Rightarrow> True
      | Some info \<Rightarrow>
          is_ok (stream_records bytes (bind_off info) (bind_size info)) \<and>
          is_ok (stream_records bytes (lazy_bind_off info) (lazy_bind_size info)) \<and>
          (slide \<noteq> 0 \<and> rebase_size info \<noteq> 0 \<longrightarrow>
            is_ok (and_then (dyld_stream bytes (rebase_off info) (rebase_size info) ''rebase stream out of range'') parse_rebase_info)) \<and>
          (lazy_bind_size info \<noteq> 0 \<longrightarrow>
            is_ok (and_then (dyld_stream bytes (lazy_bind_off info) (lazy_bind_size info) ''lazy bind stream out of range'') parse_lazy_bind_info)))"

lemma bind_all_append: "bind_all rts (xs @ ys) rm = and_then (bind_all rts xs rm) (bind_all rts ys)"
  by (induction xs arbitrary: rm) (auto simp: and_then_assoc intro: and_then_cong)

lemma bind_pass_records:
  assumes "streams_parse img bytes slide"
  shows "bind_pass img bytes rts rm = bind_all rts (import_records img bytes) rm"
proof (cases "img_dyld_info img")
  case (Some info)
  have one: "bind_stream bytes rts off sz rm = bind_all rts recs rm" if "stream_records bytes off sz = Ok recs" for off sz recs rm
    using that by (auto simp: bind_stream_def stream_records_def result_simps split: if_splits)
  obtain xs ys where "stream_records bytes (bind_off info) (bind_size info) = Ok xs"
    "stream_records bytes (lazy_bind_off info) (lazy_bind_size info) = Ok ys"
    using assms Some by (auto simp: streams_parse_def is_ok_iff)
  with Some one show ?thesis by (auto simp: bind_pass_def import_records_def bind_all_append intro: and_then_cong)
qed (simp add: bind_pass_def import_records_def)

text \<open>The lookups that binding makes: one for every record in a mapped segment, in order.\<close>

definition bind_queries :: "guest_addr option list \<Rightarrow> bind_record list \<Rightarrow> (string \<times> i64 \<times> bool) list" where
  "bind_queries rts recs =
     map (\<lambda>rec. (br_symbol rec, br_lib_ordinal rec, br_weak rec)) (filter (\<lambda>rec. seg_base rts (br_seg_index rec) \<noteq> None) recs)"

lemma bind_all_succeeds:
  "\<exists>m'. bind_all rts recs (r, m) = Ok (fst (resolve_all stub_resolve r (bind_queries rts recs)), m')"
proof (induction recs arbitrary: r m)
  case (Cons rec recs)
  show ?case
  proof (cases "seg_base rts (br_seg_index rec)")
    case None
    then show ?thesis using Cons [of r m] by (simp add: bind_one_def bind_queries_def)
  next
    case (Some base)
    obtain r1 a where r1: "stub_resolve r (br_symbol rec) (br_lib_ordinal rec) (br_weak rec) = (r1, Some a)"
      using stub_resolve_same_base by (metis not_None_eq surj_pair)
    then obtain m1 where "bind_one rts rec (r, m) = Ok (r1, m1)"
      using Some by (cases "write_u64 m (addr_add base (br_seg_offset rec)) (a + br_addend rec)") (auto simp: bind_one_def Let_def)
    with Cons [of r1 m1] Some r1 show ?thesis by (auto simp: bind_queries_def Let_def split: prod.splits)
  qed
qed (simp add: bind_queries_def)

lemma resolve_all_next:
  "stub_room (length qs) r \<Longrightarrow> unat (sr_base r) \<le> unat (sr_next r) \<Longrightarrow>
     unat (sr_next r) \<le> unat (sr_next (fst (resolve_all stub_resolve r qs))) \<and>
     unat (sr_next (fst (resolve_all stub_resolve r qs))) \<le> unat (sr_next r) + length qs * unat (sr_stride r)"
proof (induction qs arbitrary: r)
  case (Cons q qs)
  obtain r1 a where r1: "stub_resolve r (fst q) (fst (snd q)) (snd (snd q)) = (r1, a)" by force
  have room1: "stub_room (length qs) r1" using stub_resolve_room [OF _ r1] Cons.prems(1) by simp
  have "unat (sr_next r) \<le> unat (sr_next r1) \<and> unat (sr_next r1) \<le> unat (sr_next r) + unat (sr_stride r)"
    using Cons.prems(1) r1 by (auto simp: stub_room_def stub_resolve_def Let_def unat_add_u64 split: option.splits)
  with Cons.IH [OF room1] Cons.prems(2) stub_resolve_same_base [OF r1] r1 show ?case by (auto split: prod.splits)
qed simp

lemma stub_used_bound:
  assumes "unat base + length qs * unat stride < 2 ^ 64"
  shows "unat (stub_used (fst (resolve_all stub_resolve (stub_new base stride) qs))) \<le> length qs * unat stride"
proof -
  let ?r = "fst (resolve_all stub_resolve (stub_new base stride) qs)"
  obtain as where "resolve_all stub_resolve (stub_new base stride) qs = (?r, as)" by (metis prod.collapse)
  from stub_resolve_all_same_base [OF this] have "sr_base ?r = base" by (simp add: stub_new_def)
  moreover have "unat base \<le> unat (sr_next ?r) \<and> unat (sr_next ?r) \<le> unat base + length qs * unat stride"
    using resolve_all_next [of qs "stub_new base stride"] assms by (simp add: stub_room_def stub_new_def)
  moreover from calculation have "unat (stub_used ?r) = unat (sr_next ?r) - unat base"
    by (simp add: stub_used_def unat_sub word_le_nat_alt)
  ultimately show ?thesis by linarith
qed

section \<open>The whole load\<close>

definition page_round :: "nat \<Rightarrow> nat" where
  "page_round n = (n + 0x3FFF) div 0x4000 * 0x4000"

lemma page_round_mono: "a \<le> b \<Longrightarrow> page_round a \<le> page_round b"
  by (simp add: page_round_def div_le_mono)

lemma page_round_ge: "n \<le> page_round n"
  using round_up_least(1) [of "0x4000" n] by (simp add: page_round_def)

lemma page_round_dvd: "0x4000 dvd page_round n"
  by (simp add: page_round_def)

lemma unat_align_up_page: "page_round (unat v) < 2 ^ 64 \<Longrightarrow> unat (align_up v PAGE_SIZE) = page_round (unat v)"
  using unat_align_up [of 14 v] page_multiple_bound by (simp add: page_round_def PAGE_SIZE_def)

definition trampoline_room :: "macho_image \<Rightarrow> u8 list \<Rightarrow> layout_config \<Rightarrow> nat" where
  "trampoline_room img bytes cfg =
     page_round (max (length (import_records img bytes) * unat (lc_trampoline_stride cfg)) 0x4000)"

definition load_ranges :: "macho_image \<Rightarrow> u8 list \<Rightarrow> layout_config \<Rightarrow> (guest_addr \<times> nat) list" where
  "load_ranges img bytes cfg = seg_ranges bytes (lc_slide cfg) (img_segments img) @
     [(lc_trampoline_base cfg, trampoline_room img bytes cfg),
      (lc_stack_top cfg - lc_stack_size cfg, page_round (unat (lc_stack_size cfg)))]"

text \<open>
  What a load needs: a decrypted image with an entry point and well-formed streams, writable memory with
  room for its segments, its trampolines and its stack, and a stack that holds the path and the vectors.
\<close>

definition loadable :: "macho_image \<Rightarrow> u8 list \<Rightarrow> layout_config \<Rightarrow> guest_memory \<Rightarrow> bool" where
  "loadable img bytes cfg m \<longleftrightarrow>
     \<not> is_encrypted img \<and> img_entry img \<noteq> None \<and> streams_parse img bytes (lc_slide cfg) \<and>
     prots_in {prot_rw} m \<and> room_for m (load_ranges img bytes cfg) \<and> list_all (seg_ok bytes) (loaded_segs (img_segments img)) \<and>
     trampoline_room img bytes cfg \<le> isize_max \<and> page_round (unat (lc_stack_size cfg)) \<le> isize_max \<and>
     unat (lc_stack_size cfg) \<le> unat (lc_stack_top cfg) \<and> length (lc_argv0 cfg) + 128 \<le> unat (lc_stack_size cfg)"

text \<open>While segments are loaded all memory is writable, so what can be read can be written.\<close>

lemma readable_writable:
  assumes "prots_in {prot_rw} m" and "is_ok (mem_read m a n)" and "length d = n"
  shows "is_ok (mem_write m a d)"
proof -
  have wf: "mem_wf m" using assms(1) by (simp add: prots_in_def)
  obtain k r where kr: "bt_last_le (regions m) a = Some (k, r)" "unat a - unat k + n \<le> length (r_data r)"
    using assms(2) by (auto simp: is_ok_iff mem_read_Ok [OF wf])
  have "r_prot r = prot_rw" using bt_last_le_region(1) [OF wf kr(1)] assms(1) by (simp add: prots_in_def)
  with kr assms(3) show ?thesis by (auto simp: is_ok_iff mem_write_Ok [OF wf])
qed

interpretation load_writable: write_invariant "\<lambda>m. prots_in {prot_rw} m \<and> room_for m rs \<and> placed m ps" for rs ps
  using prots_in_write room_for_write placed_write by unfold_locales (metis prots_in_def)

lemma rebase_all_succeeds: "prots_in {prot_rw} m \<Longrightarrow> is_ok (rebase_all slide rts locs m)"
proof (induction locs arbitrary: m)
  case (Cons loc locs)
  have "is_ok (write_u64 m a (v + slide))" if "read_u64 m a = Ok v" for a v
    using that readable_writable [OF Cons.prems, of a 8] by (auto simp: read_u64_def write_u64_def result_simps is_ok_iff)
  then have "is_ok (rebase_one slide rts loc m)"
    by (auto simp: rebase_one_def Let_def split: option.splits rust_result.splits)
  then obtain m1 where m1: "rebase_one slide rts loc m = Ok m1" by (auto simp: is_ok_iff)
  moreover have "prots_in {prot_rw} m1" using m1 Cons.prems
    by (auto simp: rebase_one_def Let_def write_u64_def intro: prots_in_write split: if_splits option.splits rust_result.splits)
  ultimately show ?case using Cons.IH by simp
qed simp

lemma rebase_pass_succeeds:
  assumes "streams_parse img bytes slide" and "prots_in {prot_rw} m"
  shows "is_ok (rebase_pass img bytes slide rts m)"
  using assms rebase_all_succeeds [OF assms(2)]
  by (auto simp: rebase_pass_def streams_parse_def is_ok_iff result_simps split: option.splits)

lemma lazy_pass_succeeds: "streams_parse img bytes slide \<Longrightarrow> is_ok (lazy_pass img bytes rts)"
  by (auto simp: lazy_pass_def streams_parse_def is_ok_iff result_simps split: option.splits)

lemma map_segments_rw:
  "prots_in {prot_rw} m \<Longrightarrow> map_segments bytes slide segs m = Ok (rts, m') \<Longrightarrow> prots_in {prot_rw} m'"
proof (induction segs arbitrary: m rts)
  case (Cons seg segs)
  show ?case
  proof (cases "seg_name seg = ''__PAGEZERO''")
    case False
    then obtain d m1 rts1 where m1:
      "mem_map_with_data m (seg_vmaddr seg + slide) (seg_vmsize seg) d prot_rw SegmentKind (seg_name seg) = Ok m1"
      "map_segments bytes slide segs m1 = Ok (rts1, m')"
      using Cons.prems(2) by (auto simp: Let_def result_simps)
    from m1(1) have "prots_in {prot_rw} m1"
      by (rule mem_map_with_data_OkE) (simp add: prots_in_place [OF Cons.prems(1)])
    with m1(2) Cons.IH show ?thesis by blast
  qed (use Cons in \<open>auto simp: result_simps\<close>)
qed simp

lemma room_for_shrink: "room_for m ((b, n) # rs) \<Longrightarrow> k \<le> n \<Longrightarrow> room_for m ((b, k) # rs)"
  by (fastforce simp: room_for_def free_range_def ranges_apart_def)

lemma load_segments_succeed:
  assumes "loadable img bytes cfg m"
  obtains rts m1 where "map_segments bytes (lc_slide cfg) (img_segments img) m = Ok (rts, m1)"
    and "rts = map (seg_runtime (lc_slide cfg)) (img_segments img)" and "prots_in {prot_rw} m1"
    and "room_for m1 [(lc_trampoline_base cfg, trampoline_room img bytes cfg),
      (lc_stack_top cfg - lc_stack_size cfg, page_round (unat (lc_stack_size cfg)))]"
    and "placed m1 (seg_ranges bytes (lc_slide cfg) (img_segments img))"
proof -
  have "placed m []" by (simp add: placed_def)
  with assms map_segments_succeeds [of m bytes "lc_slide cfg" "img_segments img"] obtain m1 where
    "map_segments bytes (lc_slide cfg) (img_segments img) m = Ok (map (seg_runtime (lc_slide cfg)) (img_segments img), m1)"
    "room_for m1 [(lc_trampoline_base cfg, trampoline_room img bytes cfg),
      (lc_stack_top cfg - lc_stack_size cfg, page_round (unat (lc_stack_size cfg)))]"
    "placed m1 (seg_ranges bytes (lc_slide cfg) (img_segments img))"
    unfolding loadable_def load_ranges_def by (metis append_Nil2)
  with that map_segments_rw assms show thesis unfolding loadable_def by blast
qed

lemma load_relocates:
  assumes "loadable img bytes cfg m" and "map_segments bytes (lc_slide cfg) (img_segments img) m = Ok (rts, m1)"
    and "prots_in {prot_rw} m1" and "room_for m1 rs" and "placed m1 ps"
  obtains m2 m3 where "rebase_pass img bytes (lc_slide cfg) rts m1 = Ok m2"
    and "bind_pass img bytes rts (stub_new (lc_trampoline_base cfg) (lc_trampoline_stride cfg), m2) =
      Ok (fst (resolve_all stub_resolve (stub_new (lc_trampoline_base cfg) (lc_trampoline_stride cfg))
        (bind_queries rts (import_records img bytes))), m3)"
    and "room_for m3 rs" and "placed m3 ps"
proof -
  have parse: "streams_parse img bytes (lc_slide cfg)" using assms(1) by (simp add: loadable_def)
  obtain m2 where m2: "rebase_pass img bytes (lc_slide cfg) rts m1 = Ok m2"
    using rebase_pass_succeeds [OF parse assms(3)] by (auto simp: is_ok_iff)
  have inv2: "prots_in {prot_rw} m2 \<and> room_for m2 rs \<and> placed m2 ps"
    by (rule load_writable.rebase_pass_keeps [OF _ m2]) (use assms(3-5) in simp)
  let ?r = "stub_new (lc_trampoline_base cfg) (lc_trampoline_stride cfg)"
  obtain m3 where m3: "bind_pass img bytes rts (?r, m2) =
      Ok (fst (resolve_all stub_resolve ?r (bind_queries rts (import_records img bytes))), m3)"
    using bind_all_succeeds unfolding bind_pass_records [OF parse] by blast
  have "prots_in {prot_rw} m3 \<and> room_for m3 rs \<and> placed m3 ps"
    by (rule load_writable.bind_pass_keeps [OF inv2 m3])
  with that [OF m2 m3] show thesis by blast
qed

lemma load_publishes:
  assumes "loadable img bytes cfg m" and "placed m3 ps"
    and "room_for m3 ((lc_trampoline_base cfg, trampoline_room img bytes cfg) # rs)"
    and r: "r = fst (resolve_all stub_resolve (stub_new (lc_trampoline_base cfg) (lc_trampoline_stride cfg))
        (bind_queries rts (import_records img bytes)))"
  obtains e n m4 where "publish_trampolines cfg r m3 = Ok (e, m4)" and "room_for m4 rs" and "placed m4 ((lc_trampoline_base cfg, n) # ps)"
proof -
  let ?b = "lc_trampoline_base cfg" and ?T = "trampoline_room img bytes cfg"
  let ?N = "length (import_records img bytes) * unat (lc_trampoline_stride cfg)"
  have T: "unat ?b + ?T < 2 ^ 64" using assms(3) by (simp add: room_for_def free_range_def)
  have N: "?N \<le> ?T" unfolding trampoline_room_def by (rule le_trans [OF max.cobounded1 page_round_ge])
  have q: "length (bind_queries rts (import_records img bytes)) * unat (lc_trampoline_stride cfg) \<le> ?N"
    by (simp add: bind_queries_def mult_le_mono1)
  with T N have "unat ?b + length (bind_queries rts (import_records img bytes)) * unat (lc_trampoline_stride cfg) < 2 ^ 64"
    by linarith
  from stub_used_bound [OF this] q have used: "unat (stub_used r) \<le> ?N" unfolding r by linarith
  define n where "n = align_up (max (stub_used r) PAGE_SIZE) PAGE_SIZE"
  have "unat (max (stub_used r) PAGE_SIZE) \<le> max ?N 0x4000" "0x4000 \<le> unat (max (stub_used r) PAGE_SIZE)"
    using used by (auto simp: max_def word_le_nat_alt PAGE_SIZE_def)
  then have lo: "0x4000 \<le> page_round (unat (max (stub_used r) PAGE_SIZE))"
    and hi: "page_round (unat (max (stub_used r) PAGE_SIZE)) \<le> ?T"
    using page_round_ge [of "unat (max (stub_used r) PAGE_SIZE)"] unfolding trampoline_room_def
    by (linarith, intro page_round_mono)
  have "page_round (unat (max (stub_used r) PAGE_SIZE)) < 2 ^ 64" using hi T by linarith
  then have n: "unat n = page_round (unat (max (stub_used r) PAGE_SIZE))" unfolding n_def by (rule unat_align_up_page)
  have "room_for m3 ((?b, unat n) # rs)" using room_for_shrink [OF assms(3)] hi n by simp
  moreover have "unat n \<le> isize_max" using hi assms(1) n by (simp add: loadable_def)
  ultimately have "\<exists>m'. publish_trampolines cfg r m3 = Ok (?b + n, m') \<and> room_for m' rs \<and> placed m' ((?b, unat n) # ps)"
    using lo n page_round_dvd by (intro publish_succeeds [OF _ assms(2) n_def]) auto
  with that show thesis by blast
qed

lemma load_restores:
  assumes "room_for m rs" and "placed m (p # seg_ranges bytes slide segs)"
  shows "\<exists>m'. restore_protections (zip segs (map (seg_runtime slide) segs)) m = Ok m' \<and> room_for m' rs"
proof (rule restore_succeeds [OF assms])
  show "\<forall>(seg, b) \<in> set (zip segs (map (seg_runtime slide) segs)). \<forall>a. b = Some a \<longrightarrow> a \<in> fst ` set (p # seg_ranges bytes slide segs)"
    by (force simp: set_zip seg_runtime_def seg_ranges_def loaded_segs_def split: if_splits)
qed

lemma load_stack:
  assumes "loadable img bytes cfg m"
    and "room_for m5 [(lc_stack_top cfg - lc_stack_size cfg, page_round (unat (lc_stack_size cfg)))]"
  obtains m6 s m7 where
    "mem_map m5 (lc_stack_top cfg - lc_stack_size cfg) (lc_stack_size cfg) prot_rw StackKind ''stack'' = Ok m6"
    and "build_stack cfg m6 = Ok ((s - 48, (1, s - 48, s - 32, s - 16)), m7)" and "16 dvd unat s" and "48 \<le> unat s"
proof -
  let ?sz = "lc_stack_size cfg"
  have sz: "page_round (unat ?sz) \<le> isize_max" "unat ?sz \<le> unat (lc_stack_top cfg)"
    "length (lc_argv0 cfg) + 128 \<le> unat ?sz"
    using assms(1) by (simp_all add: loadable_def)
  have "1 \<le> ?sz" using sz(3) by (simp add: word_le_nat_alt)
  then have one: "max ?sz 1 = ?sz" by (rule max_absorb1)
  have n: "unat (align_up ?sz PAGE_SIZE) = page_round (unat ?sz)"
    by (rule unat_align_up_page) (use sz(1) in simp)
  have al: "align_up (max ?sz 1) PAGE_SIZE = align_up ?sz PAGE_SIZE" by (simp only: one)
  have room: "room_for m5 [(lc_stack_top cfg - ?sz, unat (align_up ?sz PAGE_SIZE))]" using assms(2) n by simp
  obtain m6 where m6: "mem_map m5 (lc_stack_top cfg - ?sz) ?sz prot_rw StackKind ''stack'' = Ok m6"
    by (rule room_for_map [OF room al, of prot_rw StackKind "''stack''"]) (use n sz(1) in simp)
  have wf: "mem_wf m5" using assms(2) by (simp add: room_for_def)
  have "unat ?sz \<le> 2 ^ 64 - 0x4000" using sz(1) page_round_ge [of "unat ?sz"] by simp
  then show thesis by (rule build_stack_runs [OF wf m6 sz(2) _ sz(3)]) (rule that [OF m6])
qed

lemma build_process_runs:
  assumes "loadable img bytes cfg m"
  obtains p m' s where "build_process img bytes cfg m = Ok (p, m')" and "resolve_entry img (lc_slide cfg) = Ok (pi_entry p)"
    and "pi_sp p = s - 48" and "pi_arg_regs p = (1, s - 48, s - 32, s - 16)" and "16 dvd unat s" and "48 \<le> unat s"
proof -
  let ?stack = "[(lc_stack_top cfg - lc_stack_size cfg, page_round (unat (lc_stack_size cfg)))]"
  let ?rs = "(lc_trampoline_base cfg, trampoline_room img bytes cfg) # ?stack"
  obtain rts m1 where m1: "map_segments bytes (lc_slide cfg) (img_segments img) m = Ok (rts, m1)"
    "rts = map (seg_runtime (lc_slide cfg)) (img_segments img)" "prots_in {prot_rw} m1" "room_for m1 ?rs"
    "placed m1 (seg_ranges bytes (lc_slide cfg) (img_segments img))"
    by (rule load_segments_succeed [OF assms])
  let ?r = "fst (resolve_all stub_resolve (stub_new (lc_trampoline_base cfg) (lc_trampoline_stride cfg))
        (bind_queries rts (import_records img bytes)))"
  obtain m2 m3 where m2: "rebase_pass img bytes (lc_slide cfg) rts m1 = Ok m2"
    and m3: "bind_pass img bytes rts (stub_new (lc_trampoline_base cfg) (lc_trampoline_stride cfg), m2) = Ok (?r, m3)"
    "room_for m3 ?rs" "placed m3 (seg_ranges bytes (lc_slide cfg) (img_segments img))"
    by (rule load_relocates [OF assms m1(1,3,4,5)])
  obtain e n m4 where m4: "publish_trampolines cfg ?r m3 = Ok (e, m4)" "room_for m4 ?stack"
    "placed m4 ((lc_trampoline_base cfg, n) # seg_ranges bytes (lc_slide cfg) (img_segments img))"
    by (rule load_publishes [OF assms m3(3,2) refl])
  obtain m5 where m5: "restore_protections (zip (img_segments img) rts) m4 = Ok m5" "room_for m5 ?stack"
    using load_restores [OF m4(2,3)] m1(2) by blast
  obtain m6 s m7 where m6: "mem_map m5 (lc_stack_top cfg - lc_stack_size cfg) (lc_stack_size cfg) prot_rw StackKind ''stack'' = Ok m6"
    and m7: "build_stack cfg m6 = Ok ((s - 48, (1, s - 48, s - 32, s - 16)), m7)" "16 dvd unat s" "48 \<le> unat s"
    by (rule load_stack [OF assms m5(2)])
  obtain lazy where lazy: "lazy_pass img bytes rts = Ok lazy"
    using lazy_pass_succeeds [of img bytes "lc_slide cfg" rts] assms by (auto simp: loadable_def is_ok_iff)
  have "is_ok (resolve_entry img (lc_slide cfg))"
    using assms by (auto simp: loadable_def resolve_entry_def Let_def split: entry_point.splits)
  then obtain entry where entry: "resolve_entry img (lc_slide cfg) = Ok entry" by (auto simp: is_ok_iff)
  have enc: "\<not> is_encrypted img" using assms by (simp add: loadable_def)
  have "\<exists>p m'. build_process img bytes cfg m = Ok (p, m') \<and> resolve_entry img (lc_slide cfg) = Ok (pi_entry p) \<and>
      pi_sp p = s - 48 \<and> pi_arg_regs p = (1, s - 48, s - 32, s - 16)"
    by (simp add: build_process_def Let_def enc m1(1) m2 m3(1) m4(1) m5(1) m6 m7(1) entry lazy commit_to_native_def)
  with that m7(2,3) show thesis by blast
qed

section \<open>Properties\<close>

definition wxorx :: "protection \<Rightarrow> bool" where
  "wxorx p \<longleftrightarrow> \<not> (prot_contains p PROT_WRITE_BIT \<and> prot_contains p PROT_EXEC_BIT)"

definition sample_image :: macho_image where
  "sample_image =
     \<lparr>img_cpu_subtype = 0, img_filetype = 2, img_flags = 0,
      img_segments =
        [\<lparr>seg_name = ''__TEXT'', seg_vmaddr = 0x100000000, seg_vmsize = 0x4000, seg_fileoff = 0, seg_filesize = 0,
          seg_initprot = prot_rx, seg_maxprot = prot_rx, seg_sections = []\<rparr>],
      img_dylibs = [], img_dylinker = None, img_entry = Some (EntryMain 0x10 0), img_symtab = None, img_dyld_info = None,
      img_encryption = None, img_uuid = None, img_function_starts = None, img_min_os_version = None\<rparr>"

definition sample_layout :: layout_config where
  "sample_layout = \<lparr>lc_slide = 0x4000, lc_stack_top = 0x1C0000000, lc_stack_size = 0x800000, lc_trampoline_base = 0x500000000,
     lc_trampoline_stride = 16, lc_argv0 = ''/a''\<rparr>"

lemma sample_loadable: "loadable sample_image [] sample_layout sample_mem"
proof -
  have "prots_in {prot_rw} sample_mem" using sample_mem_wf by (auto simp: prots_in_def sample_mem_def bt_get_def split: if_splits)
  moreover have "seg_len [] (img_segments sample_image ! 0) = 0x4000"
    by (simp add: seg_len_def sample_image_def segment_data_def align_up_def PAGE_SIZE_def)
  then have "seg_ranges [] 0x4000 (img_segments sample_image) = [(0x100004000, 0x4000)]"
    "list_all (seg_ok []) (loaded_segs (img_segments sample_image))"
    by (simp_all add: seg_ranges_def loaded_segs_def seg_ok_def sample_image_def segment_data_def)
  moreover from this have "load_ranges sample_image [] sample_layout = [(0x100004000, 0x4000), (0x500000000, 0x4000), (0x1BF800000, 0x800000)]"
    by (simp add: load_ranges_def sample_layout_def trampoline_room_def import_records_def page_round_def)
      (simp add: sample_image_def)
  moreover from this have "room_for sample_mem (load_ranges sample_image [] sample_layout)"
    using sample_mem_wf by (auto simp: room_for_def free_range_def ranges_apart_def sample_mem_def bt_get_def split: if_splits)
  ultimately show ?thesis
    by (simp add: loadable_def sample_layout_def trampoline_room_def page_round_def streams_parse_def import_records_def)
      (simp add: sample_image_def is_encrypted_def)
qed

text \<open>
  C5. A load succeeds: a decrypted image with an entry point and well-formed dyld streams, in memory that is
  all writable and has room for the segments, the trampolines of all imports and the stack, becomes a
  process; it starts at the slid entry point with a 16-byte aligned stack pointer, one argument, and
  the vectors above the stack pointer.
\<close>

theorem build_process_succeeds:
  assumes "loadable img bytes cfg m"
  shows "\<exists>p m'. build_process img bytes cfg m = Ok (p, m') \<and> resolve_entry img (lc_slide cfg) = Ok (pi_entry p) \<and>
    16 dvd unat (pi_sp p) \<and> pi_arg_regs p = (1, pi_sp p, pi_sp p + 16, pi_sp p + 32)"
proof -
  obtain p m' s where p: "build_process img bytes cfg m = Ok (p, m')" "resolve_entry img (lc_slide cfg) = Ok (pi_entry p)"
    and s: "pi_sp p = s - 48" "pi_arg_regs p = (1, s - 48, s - 32, s - 16)" "16 dvd unat s" "48 \<le> unat s"
    by (rule build_process_runs [OF assms])
  have "16 dvd unat (pi_sp p)" unfolding s(1) stack_offsets(6) [OF s(4)] using s(3) by (rule dvd_diff_nat) simp
  with p s(1,2) show ?thesis by auto
qed

theorem build_process_succeeds_witness:
  "\<exists>p m'. build_process sample_image [] sample_layout sample_mem = Ok (p, m') \<and> pi_entry p = 0x100004010"
  using build_process_succeeds [OF sample_loadable]
  by (auto simp: resolve_entry_def sample_layout_def Let_def) (auto simp: sample_image_def text_vmaddr_def)

text \<open>
  C8. Write xor execute: if no region of memory and no segment of the image asks to be writable and executable
  at once, then no region is after the load: not the segments, not the trampoline page, not the stack.
\<close>

theorem build_process_wxorx:
  assumes "mem_wf m" and "\<And>k r. bt_get (regions m) k = Some r \<Longrightarrow> wxorx (r_prot r)"
    and "\<And>seg. seg \<in> set (img_segments img) \<Longrightarrow> seg_name seg \<noteq> ''__PAGEZERO'' \<Longrightarrow> wxorx (seg_initprot seg)"
    and "build_process img bytes cfg m = Ok (p, m')" and "bt_get (regions m') k = Some r"
  shows "wxorx (r_prot r)"
proof -
  have rw: "wxorx prot_rw" "wxorx prot_rx" by (simp_all add: wxorx_def)
  then have S: "insert prot_rw (insert prot_rx {p. wxorx p}) = {p. wxorx p}" by auto
  have "wxorx PROT_READ_BIT" by (simp add: wxorx_def prot_defs)
  then have "\<forall>seg \<in> set (img_segments img). seg_name seg \<noteq> ''__PAGEZERO'' \<longrightarrow> final_prot seg \<in> {p. wxorx p}"
    using assms(3) by (simp add: final_prot_def)
  moreover have "prots_in {p. wxorx p} m" using assms(1,2) by (simp add: prots_in_def)
  ultimately have "if_ok (\<lambda>(p, m'). prots_in {p. wxorx p} m') (build_process img bytes cfg m)"
    using load_prots.build_process_keeps [of "{p. wxorx p}" m img bytes cfg] unfolding S by simp
  with assms(4,5) show ?thesis by (simp add: prots_in_def)
qed

theorem build_process_wxorx_witness:
  "\<exists>p m'. build_process sample_image [] sample_layout sample_mem = Ok (p, m') \<and>
     (\<forall>(k, r) \<in> set (regions m'). bt_get (regions m') k = Some r \<longrightarrow> wxorx (r_prot r))"
proof -
  obtain p m' where p: "build_process sample_image [] sample_layout sample_mem = Ok (p, m')"
    using build_process_runs [OF sample_loadable] by blast
  have "wxorx (r_prot r)" if "bt_get (regions m') k = Some r" for k r
    by (rule build_process_wxorx [OF sample_mem_wf(1) _ _ p that])
      (auto simp: sample_image_def sample_mem_def wxorx_def bt_get_def split: if_splits)
  with p show ?thesis by blast
qed

end
