(* ===== verification/Loader_Relocation.thy ===== *)
theory Loader_Relocation
  imports Loader_Success
begin

text \<open>
  What the relocation steps of the load do to memory: rebasing moves every listed pointer by the slide and
  touches nothing else, binding stores in every listed slot the trampoline of its symbol, and the span that
  the device build reserves holds every segment at its slid address.
\<close>

section \<open>Rebasing\<close>

definition rebase_slots :: "guest_addr option list \<Rightarrow> rebase_location list \<Rightarrow> guest_addr list" where
  "rebase_slots rts locs =
     List.map_filter (\<lambda>loc. if rl_rtype loc = REBASE_TYPE_POINTER
                            then map_option (\<lambda>b. b + rl_seg_offset loc) (seg_base rts (rl_seg_index loc)) else None) locs"


definition slots_apart :: "guest_addr list \<Rightarrow> bool" where
  "slots_apart as \<longleftrightarrow> sorted_wrt (\<lambda>a b. ranges_apart a 8 b 8) as"

lemma u64_slot_write:
  assumes "mem_wf m" and "write_u64 m a v = Ok m'"
  shows "is_ok (read_u64 m a) \<Longrightarrow> read_u64 m' a = Ok v"
    and "ranges_apart a 8 b n \<Longrightarrow> mem_read m' b n = mem_read m b n"
    and "ranges_apart a 8 b 8 \<Longrightarrow> read_u64 m' b = read_u64 m b"
    and "is_ok (read_u64 m' c) = is_ok (read_u64 m c)"
  using assms ms.rd_wr_same [of m a "to_le_bytes v" m'] ms.rd_wr_apart [of m a "to_le_bytes v" m'] ms.rd_wr_ok [of m a "to_le_bytes v" m']
  by (auto simp: write_u64_def read_u64_def is_ok_iff result_simps)

lemma rebase_one_cases:
  assumes "rebase_one slide rts loc m = Ok m1"
  obtains (skip) "m1 = m" and "\<And>a. a \<in> set (rebase_slots rts [loc]) \<Longrightarrow> \<not> is_ok (read_u64 m a)"
  | (move) a v where "rebase_slots rts [loc] = [a]" and "read_u64 m a = Ok v" and "write_u64 m a (v + slide) = Ok m1"
  using assms
  by (auto simp: rebase_one_def Let_def rebase_slots_def map_filter_simps addr_add_def split: if_splits option.splits rust_result.splits)

lemma rebase_slots_Cons: "rebase_slots rts (loc # locs) = rebase_slots rts [loc] @ rebase_slots rts locs"
  by (simp add: rebase_slots_def map_filter_simps split: option.splits)

lemma rebase_all_moves:
  assumes "mem_wf m" and "rebase_all slide rts locs m = Ok m'" and "slots_apart (rebase_slots rts locs)"
  shows "(\<forall>a \<in> set (rebase_slots rts locs). \<forall>v. read_u64 m a = Ok v \<longrightarrow> read_u64 m' a = Ok (v + slide)) \<and>
    (\<forall>b n. (\<forall>a \<in> set (rebase_slots rts locs). ranges_apart a 8 b n) \<longrightarrow> mem_read m' b n = mem_read m b n)"
  using assms
proof (induction locs arbitrary: m)
  case (Cons loc locs)
  from Cons.prems(2) obtain m1 where m1: "rebase_one slide rts loc m = Ok m1" "rebase_all slide rts locs m1 = Ok m'"
    by (auto simp: result_simps)
  note slots = rebase_slots_Cons [of rts loc locs]
  have apart: "slots_apart (rebase_slots rts locs)"
    "\<And>a b. a \<in> set (rebase_slots rts [loc]) \<Longrightarrow> b \<in> set (rebase_slots rts locs) \<Longrightarrow> ranges_apart a 8 b 8"
    using Cons.prems(3) unfolding slots slots_apart_def by (auto simp: sorted_wrt_append)
  from m1(1) show ?case
  proof (cases rule: rebase_one_cases)
    case skip
    then show ?thesis using Cons.IH [OF Cons.prems(1) _ apart(1)] m1(2) unfolding slots by (auto simp: is_ok_iff)
  next
    case (move a v)
    have wf1: "mem_wf m1" using mem_wf_write [OF Cons.prems(1)] move(3) by (simp add: write_u64_def)
    note ih = Cons.IH [OF wf1 m1(2) apart(1)]
    note wr = u64_slot_write [OF Cons.prems(1) move(3)]
    have "mem_read m' a 8 = mem_read m1 a 8" using ih apart(2) move(1) by (auto simp: ranges_apart_sym)
    then have "read_u64 m' a = Ok (v + slide)" using wr(1) move(2) by (simp add: read_u64_def)
    moreover have "read_u64 m1 b = read_u64 m b" if "b \<in> set (rebase_slots rts locs)" for b
      using apart(2) move(1) that by (intro wr(3)) auto
    ultimately show ?thesis using ih wr(2) move(1,2) unfolding slots by auto
  qed
qed (simp add: rebase_slots_def map_filter_simps)

section \<open>Binding\<close>

definition bind_target :: "guest_addr option list \<Rightarrow> bind_record \<Rightarrow> guest_addr option" where
  "bind_target rts rec = map_option (\<lambda>b. b + br_seg_offset rec) (seg_base rts (br_seg_index rec))"

definition bind_slots :: "guest_addr option list \<Rightarrow> bind_record list \<Rightarrow> guest_addr list" where
  "bind_slots rts recs = List.map_filter (bind_target rts) recs"

lemma bind_slots_Cons:
  "bind_slots rts (rec # recs) = (case bind_target rts rec of None \<Rightarrow> bind_slots rts recs | Some a \<Rightarrow> a # bind_slots rts recs)"
  by (simp add: bind_slots_def map_filter_simps split: option.splits)

lemma bind_one_cases:
  assumes "bind_one rts rec (r, m) = Ok (r1, m1)"
  obtains (skip) "bind_target rts rec = None" and "r1 = r" and "m1 = m"
  | (bound) a t where "bind_target rts rec = Some a"
      and "stub_resolve r (br_symbol rec) (br_lib_ordinal rec) (br_weak rec) = (r1, Some t)"
      and "write_u64 m a (t + br_addend rec) = Ok m1 \<or> \<not> is_ok (write_u64 m a (t + br_addend rec)) \<and> m1 = m"
proof (cases "seg_base rts (br_seg_index rec)")
  case None
  with assms that(1) show thesis by (simp add: bind_one_def bind_target_def)
next
  case (Some b)
  obtain r2 t where r2: "stub_resolve r (br_symbol rec) (br_lib_ordinal rec) (br_weak rec) = (r2, Some t)"
    using stub_resolve_same_base by (metis not_None_eq surj_pair)
  then have "r2 = r1" and "write_u64 m (b + br_seg_offset rec) (t + br_addend rec) = Ok m1 \<or>
      \<not> is_ok (write_u64 m (b + br_seg_offset rec) (t + br_addend rec)) \<and> m1 = m"
    using assms Some by (auto simp: bind_one_def Let_def addr_add_def split: rust_result.splits)
  with that(2) r2 Some show thesis by (simp add: bind_target_def)
qed

lemma bind_all_resolver:
  assumes "stub_wf r" and "stub_room (length recs) r" and "bind_all rts recs (r, m) = Ok (r', m')"
  shows "stub_wf r' \<and> (\<forall>s a. sr_forward r s = Some a \<longrightarrow> sr_forward r' s = Some a)"
  using assms
proof (induction recs arbitrary: r m)
  case (Cons rec recs)
  from Cons.prems(3) obtain r1 m1 where step: "bind_one rts rec (r, m) = Ok (r1, m1)" "bind_all rts recs (r1, m1) = Ok (r', m')"
    by (auto simp: result_simps)
  have "stub_wf r1 \<and> stub_room (length recs) r1 \<and> (\<forall>s a. sr_forward r s = Some a \<longrightarrow> sr_forward r1 s = Some a)"
    using step(1)
  proof (cases rule: bind_one_cases)
    case skip
    then show ?thesis using Cons.prems by (auto simp: stub_room_def)
  next
    case (bound a t)
    then show ?thesis
      using stub.resolve_inv [OF Cons.prems(1)] stub.resolve_room [OF Cons.prems(1)] stub.resolve_keeps [OF Cons.prems(1)] Cons.prems(2)
      by (metis length_Cons)
  qed
  with Cons.IH [OF _ _ step(2)] show ?case by blast
qed simp

lemma bind_all_binds:
  assumes "prots_in {prot_rw} m" and "stub_wf r" and "stub_room (length recs) r"
    and "bind_all rts recs (r, m) = Ok (r', m')" and "slots_apart (bind_slots rts recs)"
  shows "(\<forall>rec \<in> set recs. \<forall>a. bind_target rts rec = Some a \<and> is_ok (read_u64 m a) \<longrightarrow>
      (\<exists>t. sr_forward r' (br_symbol rec) = Some t \<and> read_u64 m' a = Ok (t + br_addend rec))) \<and>
    (\<forall>b n. (\<forall>a \<in> set (bind_slots rts recs). ranges_apart a 8 b n) \<longrightarrow> mem_read m' b n = mem_read m b n)"
  using assms
proof (induction recs arbitrary: r m)
  case (Cons rec recs)
  from Cons.prems(4) obtain r1 m1 where step: "bind_one rts rec (r, m) = Ok (r1, m1)" "bind_all rts recs (r1, m1) = Ok (r', m')"
    by (auto simp: result_simps)
  have wf: "mem_wf m" using Cons.prems(1) by (simp add: prots_in_def)
  from step(1) show ?case
  proof (cases rule: bind_one_cases)
    case skip
    then have "stub_room (length recs) r1" "slots_apart (bind_slots rts recs)"
      using Cons.prems(3,5) by (auto simp: stub_room_def bind_slots_Cons)
    with Cons.IH [OF Cons.prems(1,2), of] skip step(2) show ?thesis by (simp add: bind_slots_Cons)
  next
    case (bound a t)
    have slots: "bind_slots rts (rec # recs) = a # bind_slots rts recs" by (simp add: bind_slots_Cons bound(1))
    have apart: "slots_apart (bind_slots rts recs)" "\<And>b. b \<in> set (bind_slots rts recs) \<Longrightarrow> ranges_apart a 8 b 8"
      using Cons.prems(5) unfolding slots by (simp_all add: slots_apart_def)
    have r1: "stub_wf r1" "stub_room (length recs) r1" "sr_forward r1 (br_symbol rec) = Some t"
      using stub.resolve_inv [OF Cons.prems(2) _ bound(2)] stub.resolve_room [OF Cons.prems(2) _ bound(2)]
        stub.resolve_records [OF Cons.prems(2) bound(2)] Cons.prems(3) by simp_all
    have rw: "is_ok (write_u64 m a v)" if "is_ok (read_u64 m a)" for v
      using that readable_writable [OF Cons.prems(1), of a 8 "to_le_bytes v"]
      by (auto simp: read_u64_def write_u64_def is_ok_iff result_simps)
    have rw1: "prots_in {prot_rw} m1" using bound(3) prots_in_write [OF Cons.prems(1)] Cons.prems(1) by (auto simp: write_u64_def)
    have same: "is_ok (read_u64 m1 c) = is_ok (read_u64 m c)" for c
      using bound(3) u64_slot_write(4) [OF wf] by auto
    have frame: "mem_read m1 b n = mem_read m b n" if "ranges_apart a 8 b n" for b n
      using bound(3) u64_slot_write(2) [OF wf _ that] by auto
    note ih = Cons.IH [OF rw1 r1(1,2) step(2) apart(1)]
    have "sr_forward r' (br_symbol rec) = Some t" using bind_all_resolver [OF r1(1,2) step(2)] r1(3) by blast
    moreover have "read_u64 m' a = Ok (t + br_addend rec)" if "is_ok (read_u64 m a)"
    proof -
      have "mem_read m' a 8 = mem_read m1 a 8" using ih apart(2) by (simp add: ranges_apart_sym)
      moreover have "write_u64 m a (t + br_addend rec) = Ok m1" using bound(3) rw [OF that] by simp
      ultimately show ?thesis using u64_slot_write(1) [OF wf _ that] by (simp add: read_u64_def)
    qed
    ultimately show ?thesis using ih same frame bound(1) unfolding slots by auto
  qed
qed simp

section \<open>The span of an image\<close>

lemma unat_saturating_add: "unat (saturating_add a (b :: u64)) = min (unat a + unat b) (2 ^ 64 - 1)"
proof (cases "unat a + unat b < 2 ^ 64")
  case False
  have "unat (- 1 :: u64) = 2 ^ 64 - 1" by (simp add: unsigned_minus_1_eq_mask mask_eq_exp_minus_1)
  with False show ?thesis by (simp add: saturating_add_def)
qed (simp add: saturating_add_def unat_add_u64)

definition seg_high :: "u64 \<Rightarrow> macho_segment list \<Rightarrow> u64" where
  "seg_high base segs = foldl (\<lambda>high seg. if seg_name seg = ''__PAGEZERO'' then high
     else max high (saturating_add (seg_vmaddr seg) (seg_vmsize seg))) base segs"

lemma seg_high_ge:
  "base \<le> seg_high base segs \<and>
   (\<forall>seg \<in> set (loaded_segs segs). saturating_add (seg_vmaddr seg) (seg_vmsize seg) \<le> seg_high base segs)"
proof (induction segs arbitrary: base)
  case (Cons seg segs)
  let ?b = "if seg_name seg = ''__PAGEZERO'' then base else max base (saturating_add (seg_vmaddr seg) (seg_vmsize seg))"
  have "seg_high base (seg # segs) = seg_high ?b segs" by (simp add: seg_high_def)
  with Cons [of ?b] show ?case by (auto simp: loaded_segs_def split: if_splits)
qed (simp add: seg_high_def loaded_segs_def)

lemma image_span_high:
  "image_span img = (text_vmaddr img, align_up (seg_high (text_vmaddr img) (img_segments img) - text_vmaddr img) PAGE_SIZE)"
  using seg_high_ge [of "text_vmaddr img" "img_segments img"]
  by (simp add: image_span_def Let_def seg_high_def [symmetric] saturating_sub_def)

lemma seg_high_le:
  "unat base \<le> B \<Longrightarrow> \<forall>seg \<in> set (loaded_segs segs). unat (seg_vmaddr seg) + unat (seg_vmsize seg) \<le> B \<Longrightarrow>
   unat (seg_high base segs) \<le> B"
proof (induction segs arbitrary: base)
  case (Cons seg segs)
  let ?b = "if seg_name seg = ''__PAGEZERO'' then base else max base (saturating_add (seg_vmaddr seg) (seg_vmsize seg))"
  have "seg_high base (seg # segs) = seg_high ?b segs" by (simp add: seg_high_def)
  moreover have "unat ?b \<le> B"
    using Cons.prems by (auto simp: loaded_segs_def max_def unat_saturating_add)
  ultimately show ?case using Cons.IH [of ?b] Cons.prems(2) by (auto simp: loaded_segs_def split: if_splits)
qed (simp add: seg_high_def)

lemma text_vmaddr_le:
  assumes "\<forall>seg \<in> set (loaded_segs (img_segments img)). unat (seg_vmaddr seg) + unat (seg_vmsize seg) \<le> B"
  shows "unat (text_vmaddr img) \<le> B"
proof (cases "find (\<lambda>s. seg_name s = ''__TEXT'') (img_segments img)")
  case (Some s)
  then have "s \<in> set (img_segments img)" "seg_name s = ''__TEXT''"
    by (auto simp: find_Some_iff)
  then have "s \<in> set (loaded_segs (img_segments img))" by (simp add: loaded_segs_def)
  with assms Some show ?thesis by (fastforce simp: text_vmaddr_def)
qed (simp add: text_vmaddr_def)

section \<open>Properties\<close>

text \<open>
  C9. Rebasing: with all memory writable (as it is while segments are loaded) and slots that do not overlap,
  the rebase loop succeeds, every pointer slot that can be read holds its old value plus the slide, and
  bytes outside the slots are unchanged.
\<close>

theorem rebase_relocates:
  assumes "prots_in {prot_rw} m" and "slots_apart (rebase_slots rts locs)"
  shows "\<exists>m'. rebase_all slide rts locs m = Ok m' \<and>
    (\<forall>a \<in> set (rebase_slots rts locs). \<forall>v. read_u64 m a = Ok v \<longrightarrow> read_u64 m' a = Ok (v + slide)) \<and>
    (\<forall>b n. (\<forall>a \<in> set (rebase_slots rts locs). ranges_apart a 8 b n) \<longrightarrow> mem_read m' b n = mem_read m b n)"
proof -
  obtain m' where m': "rebase_all slide rts locs m = Ok m'"
    using rebase_all_succeeds [OF assms(1), of slide rts locs] by (auto simp: is_ok_iff)
  have "mem_wf m" using assms(1) by (simp add: prots_in_def)
  from rebase_all_moves [OF this m' assms(2)] m' show ?thesis by blast
qed

lemma sample_mem_rw: "prots_in {prot_rw} sample_mem"
  using sample_mem_wf by (auto simp: prots_in_def sample_mem_def bt_get_def split: if_splits)

lemma sample_mem_word: "read_u64 sample_mem 0x1000 = Ok 0x0807060504030201"
  by (simp add: read_u64_def mem_read_def mem_slice_def sample_mem_def bt_last_le_def bt_last_def region_subslice_def
      region_range_def addr_sub_def Let_def checked_add_usize_def slice_index_def slice_get_def prot_defs)
    (simp add: from_le_bytes_def)

theorem rebase_relocates_witness:
  "\<exists>m'. rebase_all 0x4000 [Some 0x1000] [\<lparr>rl_seg_index = 0, rl_seg_offset = 0, rl_rtype = REBASE_TYPE_POINTER\<rparr>] sample_mem = Ok m' \<and>
     read_u64 m' 0x1000 = Ok 0x0807060504034201"
proof -
  let ?locs = "[\<lparr>rl_seg_index = 0, rl_seg_offset = 0, rl_rtype = REBASE_TYPE_POINTER\<rparr>]"
  have slots: "rebase_slots [Some 0x1000] ?locs = [0x1000]"
    by (simp add: rebase_slots_def map_filter_simps seg_base_def)
  then have "slots_apart (rebase_slots [Some 0x1000] ?locs)" by (simp add: slots_apart_def)
  from rebase_relocates [OF sample_mem_rw this, where slide = "0x4000"] obtain m' where
    "rebase_all 0x4000 [Some 0x1000] ?locs sample_mem = Ok m'"
    "\<forall>a \<in> {0x1000}. \<forall>v. read_u64 sample_mem a = Ok v \<longrightarrow> read_u64 m' a = Ok (v + 0x4000)"
    unfolding slots by auto
  then show ?thesis using sample_mem_word by simp
qed

text \<open>
  C10. Binding: with all memory writable and slots that do not overlap, every readable slot of a bind record
  ends up holding the trampoline of the record's symbol plus the addend, the resolver's table leads from
  that trampoline back to the symbol, and bytes outside the slots are unchanged.
\<close>

theorem bind_links_symbols:
  assumes "prots_in {prot_rw} m" and "stub_wf r" and "stub_room (length recs) r" and "slots_apart (bind_slots rts recs)"
  shows "\<exists>r' m'. bind_all rts recs (r, m) = Ok (r', m') \<and>
    (\<forall>rec \<in> set recs. \<forall>a. bind_target rts rec = Some a \<and> is_ok (read_u64 m a) \<longrightarrow>
      (\<exists>t. stub_forward r' (br_symbol rec) = Some t \<and> stub_into_table r' t = Some (br_symbol rec) \<and>
           read_u64 m' a = Ok (t + br_addend rec))) \<and>
    (\<forall>b n. (\<forall>a \<in> set (bind_slots rts recs). ranges_apart a 8 b n) \<longrightarrow> mem_read m' b n = mem_read m b n)"
proof -
  obtain r' m' where run: "bind_all rts recs (r, m) = Ok (r', m')" using bind_all_succeeds by blast
  have "stub_wf r'" using bind_all_resolver [OF assms(2,3) run] by blast
  then have "sr_reverse r' t = Some s" if "sr_forward r' s = Some t" for s t using that by (simp add: stub_wf_def)
  with bind_all_binds [OF assms(1-3) run assms(4)] run show ?thesis
    unfolding stub_forward_def stub_into_table_def by blast
qed

theorem bind_links_symbols_witness:
  "\<exists>r' m' t. bind_all [Some 0x1000] [\<lparr>br_seg_index = 0, br_seg_offset = 0, br_symbol = ''_f'', br_lib_ordinal = 1, br_addend = 8,
       br_kind = Pointer, br_weak = False\<rparr>] (stub_new 0x500000000 16, sample_mem) = Ok (r', m') \<and>
     stub_forward r' ''_f'' = Some t \<and> read_u64 m' 0x1000 = Ok (t + 8)"
proof -
  let ?rec = "\<lparr>br_seg_index = 0, br_seg_offset = 0, br_symbol = ''_f'', br_lib_ordinal = 1, br_addend = 8, br_kind = Pointer, br_weak = False\<rparr>"
  have slots: "bind_target [Some 0x1000] ?rec = Some 0x1000" by (simp add: bind_target_def seg_base_def)
  then have "slots_apart (bind_slots [Some 0x1000] [?rec])" by (simp add: slots_apart_def bind_slots_def map_filter_simps)
  moreover have "stub_wf (stub_new 0x500000000 16)" by (rule stub_wf_new) simp
  moreover have "stub_room (length [?rec]) (stub_new 0x500000000 16)" by (simp add: stub_room_def stub_new_def)
  ultimately show ?thesis
    using bind_links_symbols [OF sample_mem_rw, of "stub_new 0x500000000 16" "[?rec]" "[Some 0x1000]"] slots sample_mem_word by auto
qed

text \<open>
  C35. The device build reserves the page-rounded span of the image.  Suppose that no loaded segment reaches
  into the last page of the address space, and that the reservation does not wrap around.  Then the
  \<open>vmsize\<close> bytes of a nonempty segment, at its slid address, lie inside the reservation exactly when the segment
  does not start below \<open>__TEXT\<close>.  (The span counts \<open>vmsize\<close> only: file data beyond it, which is mapped too, is
  not covered.)
\<close>

theorem reservation_holds_segments:
  assumes "reserve_image_and_slide map_region n img = (n', Ok (base, slide))"
    and "\<forall>s \<in> set (loaded_segs (img_segments img)). unat (seg_vmaddr s) + unat (seg_vmsize s) \<le> 2 ^ 64 - 0x4000"
    and "seg \<in> set (loaded_segs (img_segments img))" and "0 < unat (seg_vmsize seg)"
    and "unat base + unat (snd (image_span img)) < 2 ^ 64"
  shows "map_region n (snd (image_span img)) = (n', base) \<and> 0x4000 dvd unat (snd (image_span img)) \<and>
    (text_vmaddr img \<le> seg_vmaddr seg \<longleftrightarrow>
       unat base \<le> unat (seg_vmaddr seg + slide) \<and>
       unat (seg_vmaddr seg + slide) + unat (seg_vmsize seg) \<le> unat base + unat (snd (image_span img)))"
proof -
  let ?t = "text_vmaddr img" and ?h = "seg_high (text_vmaddr img) (img_segments img)" and ?a = "seg_vmaddr seg"
  let ?len = "unat (snd (image_span img))"
  have res: "map_region n (snd (image_span img)) = (n', base)" "slide = base - ?t"
    using assms(1) by (auto simp: reserve_image_and_slide_def reserve_native_region_def Let_def image_span_high split: prod.splits if_splits)
  have h: "unat ?h \<le> 2 ^ 64 - 0x4000" by (rule seg_high_le [OF text_vmaddr_le [OF assms(2)] assms(2)])
  have t: "?t \<le> ?h" and e: "saturating_add ?a (seg_vmsize seg) \<le> ?h" using seg_high_ge assms(3) by blast+
  have "unat (?h - ?t) + 0x3FFF < 2 ^ 64" using h t by (simp add: unat_sub)
  note al = align_up_page [OF this]
  have len: "unat ?h - unat ?t \<le> ?len" "0x4000 dvd ?len" "?len + unat ?t \<le> 2 ^ 64"
    using al t h by (simp_all add: image_span_high unat_sub word_le_nat_alt)
  have sv: "unat ?a + unat (seg_vmsize seg) \<le> unat ?h"
    using e assms(2,3) by (fastforce simp: word_le_nat_alt unat_saturating_add)
  have "?t \<le> ?a \<longleftrightarrow> unat base \<le> unat (?a + slide) \<and> unat (?a + slide) + unat (seg_vmsize seg) \<le> unat base + ?len"
  proof (cases "?t \<le> ?a")
    case True
    have slid: "?a + slide = base + (?a - ?t)" by (simp add: res(2))
    have off: "unat (?a - ?t) = unat ?a - unat ?t" using True by (rule unat_sub)
    have at: "unat ?t \<le> unat ?a" using True by (simp add: word_le_nat_alt)
    have "unat base + unat (?a - ?t) < 2 ^ 64" using len(1) sv at assms(5) off by linarith
    then have "unat (?a + slide) = unat base + (unat ?a - unat ?t)"
      unfolding slid off [symmetric] by (intro unat_add_u64) simp
    with True len sv at show ?thesis by auto
  next
    case False
    have slid: "?a + slide = base - (?t - ?a)" by (simp add: res(2))
    have off: "unat (?t - ?a) = unat ?t - unat ?a" using False by (intro unat_sub) simp
    have below: "unat ?a < unat ?t" using False by (simp add: word_le_nat_alt)
    have "unat (?a + slide) =
        (if unat ?t - unat ?a \<le> unat base then unat base - (unat ?t - unat ?a)
         else unat base + 0x10000000000000000 - (unat ?t - unat ?a))"
      using unat_sub_if' [of base "?t - ?a"] unfolding slid off by simp
    moreover have "unat ?t < 0x10000000000000000" by simp
    ultimately have "unat (?a + slide) < unat base \<or> unat (?a + slide) + unat ?t = 0x10000000000000000 + unat base + unat ?a"
      using below by (cases "unat ?t - unat ?a \<le> unat base") (simp_all only: if_True if_False, linarith+)
    with False len(3) assms(4) show ?thesis by auto
  qed
  with res(1) len(2) show ?thesis by blast
qed

theorem reservation_holds_segments_witness:
  "\<exists>slide. reserve_image_and_slide (\<lambda>n len. (n + 1, 0x7000000000)) (0 :: nat) sample_image = (1, Ok (0x7000000000, slide)) \<and>
     unat (0x100000000 + slide) + 0x4000 \<le> 0x7000000000 + unat (snd (image_span sample_image))"
proof -
  let ?seg = "hd (img_segments sample_image)" and ?r = "\<lambda>(n :: nat) (len :: u64). (n + 1, 0x7000000000 :: u64)"
  have t: "text_vmaddr sample_image = 0x100000000" "seg_vmaddr ?seg = 0x100000000" "seg_vmsize ?seg = 0x4000"
    "loaded_segs (img_segments sample_image) = [?seg]"
    by (simp_all add: sample_image_def text_vmaddr_def loaded_segs_def)
  have span: "image_span sample_image = (0x100000000, 0x4000)"
    unfolding image_span_high t(1) by (simp add: seg_high_def sample_image_def saturating_add_def align_up_def PAGE_SIZE_def max_def)
  have res: "reserve_image_and_slide ?r 0 sample_image = (1, Ok (0x7000000000, 0x7000000000 - 0x100000000))"
    by (simp add: reserve_image_and_slide_def reserve_native_region_def span Let_def)
  from reservation_holds_segments [OF res, of ?seg] t span res show ?thesis by auto
qed

end
