(* ===== verification/Host_Env.thy ===== *)
theory Host_Env
  imports Cpu Guest_Memory Memory_Room Vfs Effects
begin

text \<open>
  \<open>core/src/env.rs\<close>: the seam between the run loop and the library emulation.  A call changes the state
  of the environment and the context it is given (registers, memory; the sandbox is only read); both are
  threaded as one state.  \<open>cc_world\<close> is the host as far as an environment can reach it (guest output).
  The trait is the locale \<open>host_env\<close>: what the run loop relies on when it hands a call over.
\<close>

record 'w call_context =
  cc_cpu :: cpu_context
  cc_mem :: guest_memory
  cc_vfs :: sandbox
  cc_world :: 'w

datatype dispatched = Handled | Unhandled

type_synonym ('w, 'e, 'a) env_act = "('e \<times> 'w call_context, 'a, unit) act"

record ('w, 'e) host_environment =
  env_call :: "string \<Rightarrow> ('w, 'e, dispatched) env_act"
  env_on_process_start :: "('w, 'e, unit) env_act"

definition call_arg :: "nat \<Rightarrow> ('w, 'e, u64) env_act" where
  "call_arg n = act_query (\<lambda>(e, c). cpu_arg (cc_cpu c) n)"

definition call_ret :: "u64 \<Rightarrow> ('w, 'e, unit) env_act" where
  "call_ret v = act_update (\<lambda>(e, c). (e, c\<lparr>cc_cpu := cpu_set_ret v (cc_cpu c)\<rparr>))"

definition null_environment :: "('w, unit) host_environment" where
  "null_environment = \<lparr>env_call = (\<lambda>symbol. act_return Unhandled), env_on_process_start = act_return ()\<rparr>"

section \<open>Memory calls whose errors the caller handles\<close>

text \<open>\<open>.ok()\<close> and \<open>match\<close> on a result: an error is the value \<open>None\<close>; memory is left alone in that case.\<close>

definition call_mem :: "(guest_memory \<Rightarrow> 'a emu_result) \<Rightarrow> ('w, 'e, 'a option) env_act" where
  "call_mem f = act_query (\<lambda>(e, c). case f (cc_mem c) of Ok x \<Rightarrow> Ok (Some x) | Err _ \<Rightarrow> Ok None | Panic \<Rightarrow> Panic)"

definition call_mem_mut :: "(guest_memory \<Rightarrow> ('a \<times> guest_memory) emu_result) \<Rightarrow> ('w, 'e, 'a option) env_act" where
  "call_mem_mut f s =
     (case s of (e, c) \<Rightarrow>
        (case f (cc_mem c) of
           Ok (x, m) \<Rightarrow> ((e, c\<lparr>cc_mem := m\<rparr>), Ok (Some x))
         | Err _ \<Rightarrow> (s, Ok None)
         | Panic \<Rightarrow> (s, Panic)))"

definition unit_mem :: "guest_memory emu_result \<Rightarrow> (unit \<times> guest_memory) emu_result" where
  "unit_mem r = and_then r (\<lambda>m. Ok ((), m))"

lemma unit_mem_Ok [simp]: "unit_mem r = Ok (u, m) \<longleftrightarrow> r = Ok m"
  by (auto simp: unit_mem_def result_simps)

section \<open>The contract\<close>

text \<open>
  \<open>guest_ok\<close> is the guest state as the rest of the core expects it.  An environment keeps it together with
  an invariant of its own, which may speak of the heap arena: nobody else allocates there.  It does not
  touch the sandbox.
\<close>

definition guest_ok :: "'w call_context \<Rightarrow> bool" where
  "guest_ok c \<longleftrightarrow> cpu_wf (cc_cpu c) \<and> mem_wf (cc_mem c)"

definition env_inv :: "('e \<Rightarrow> bump_allocator \<Rightarrow> bool) \<Rightarrow> sandbox \<Rightarrow> 'e \<times> 'w call_context \<Rightarrow> bool" where
  "env_inv J sb s \<longleftrightarrow> J (fst s) (heap (cc_mem (snd s))) \<and> guest_ok (snd s) \<and> cc_vfs (snd s) = sb"

locale host_env =
  fixes E :: "('w, 'e) host_environment" and J :: "'e \<Rightarrow> bump_allocator \<Rightarrow> bool"
  assumes call_keeps: "keeps (env_inv J sb) (env_call E symbol)"
    and start_keeps: "keeps (env_inv J sb) (env_on_process_start E)"

interpretation null_env: host_env null_environment "\<lambda>_ _. True"
  by unfold_locales (simp_all add: null_environment_def keeps_rules)

section \<open>Invariants of shims\<close>

lemma keeps_call_reading [keeps_rules]:
  "keeps P (call_arg n)" "keeps P (call_mem f)"
  by (simp_all add: call_arg_def call_mem_def keeps_rules)

lemma env_inv_ret: "keeps (env_inv J sb) (call_ret v)"
  by (rule keepsI) (auto simp: call_ret_def env_inv_def guest_ok_def)

lemma heap_mem_write: "mem_write m a d = Ok m' \<Longrightarrow> heap m' = heap m"
  by (auto simp: mem_write_def result_simps split: if_splits)

lemma env_inv_write:
  "keeps (env_inv J sb) (call_mem_mut (\<lambda>m. unit_mem (mem_write m a d)))"
  "keeps (env_inv J sb) (call_mem_mut (\<lambda>m. unit_mem (write_u64 m a v)))"
proof -
  show wr: "keeps (env_inv J sb) (call_mem_mut (\<lambda>m. unit_mem (mem_write m a d)))" for a d
    by (rule keepsI)
      (auto simp: call_mem_mut_def env_inv_def guest_ok_def intro: mem_wf_write split: rust_result.splits, metis heap_mem_write)
  show "keeps (env_inv J sb) (call_mem_mut (\<lambda>m. unit_mem (write_u64 m a v)))"
    unfolding write_u64_def by (rule wr)
qed

text \<open>Allocation keeps an invariant that survives the advance of the cursor.\<close>

lemma env_inv_alloc:
  assumes "\<And>e hp hp' x. J e hp \<Longrightarrow> bump_alloc hp sz al = Ok (x, hp') \<Longrightarrow> J e hp'"
  shows "keeps (env_inv J sb) (call_mem_mut (\<lambda>m. heap_alloc m sz al))"
proof (rule keepsI)
  fix s :: "'a \<times> 'b call_context"
  obtain e c where s: "s = (e, c)" by force
  assume inv: "env_inv J sb s"
  have "env_inv J sb (e, c\<lparr>cc_mem := m\<rparr>)" if ok: "heap_alloc (cc_mem c) sz al = Ok (x, m)" for x m
  proof -
    obtain hp where hp: "bump_alloc (heap (cc_mem c)) sz al = Ok (x, hp)" "m = (cc_mem c)\<lparr>heap := hp\<rparr>"
      using ok by (auto simp: heap_alloc_def result_simps)
    then show ?thesis using inv assms mem_wf_heap_alloc [OF _ ok] by (auto simp: s env_inv_def guest_ok_def)
  qed
  with inv show "env_inv J sb (fst (call_mem_mut (\<lambda>m. heap_alloc m sz al) s))"
    by (auto simp: call_mem_mut_def s split: rust_result.splits)
qed

end
