(* ===== verification/Hle_Runtime.thy ===== *)
theory Hle_Runtime
  imports Host_Env
begin

text \<open>
  \<open>hle/src/objc/runtime.rs\<close>: the lazy Objective-C runtime and its message dispatcher.  The state of a shim
  is the runtime and the call context; trace lines are left out.  Indexing the class table or the instance
  map out of range is a panic.
\<close>

record class_info =
  ci_name :: string
  ci_superclass :: "nat option"

record objc_runtime =
  rt_classes :: "class_info list"
  rt_class_addr_by_name :: "string \<rightharpoonup> u64"
  rt_class_index_by_addr :: "u64 \<rightharpoonup> nat"
  rt_instance_class :: "u64 \<rightharpoonup> nat"
  rt_retain_counts :: "u64 \<rightharpoonup> i64"

definition OBJ_HEADER_SIZE :: u64 where
  "OBJ_HEADER_SIZE = 16"

definition CLASS_MAGIC :: u64 where
  "CLASS_MAGIC = 0x0b1c000000000000"

type_synonym ('w, 'a) hle_act = "('w, objc_runtime, 'a) env_act"
type_synonym 'w shim = "('w, dispatched) hle_act"

definition objc_new :: objc_runtime where
  "objc_new =
     \<lparr>rt_classes = [], rt_class_addr_by_name = Map.empty, rt_class_index_by_addr = Map.empty,
      rt_instance_class = Map.empty, rt_retain_counts = Map.empty\<rparr>"

definition class_index :: "objc_runtime \<Rightarrow> string \<Rightarrow> nat option" where
  "class_index rt name =
     List.find (\<lambda>i. ci_name (rt_classes rt ! i) = name) [0 ..< length (rt_classes rt)]"

definition preload_one :: "string \<Rightarrow> objc_runtime \<Rightarrow> objc_runtime" where
  "preload_one name rt =
     (if list_ex (\<lambda>c. ci_name c = name) (rt_classes rt) then rt
      else rt\<lparr>rt_classes := rt_classes rt @ [\<lparr>ci_name = name, ci_superclass = None\<rparr>]\<rparr>)"

definition preload_root_classes :: "objc_runtime \<Rightarrow> objc_runtime" where
  "preload_root_classes rt = preload_one ''NSProxy'' (preload_one ''NSObject'' rt)"

section \<open>Classes and instances\<close>

definition rt_query :: "(objc_runtime \<Rightarrow> 'a) \<Rightarrow> ('w, 'a) hle_act" where
  "rt_query f = act_query (\<lambda>(rt, c). Ok (f rt))"

definition rt_update :: "(objc_runtime \<Rightarrow> objc_runtime) \<Rightarrow> ('w, unit) hle_act" where
  "rt_update f = act_update (\<lambda>(rt, c). (f rt, c))"

definition register_class :: "string \<Rightarrow> u64 \<Rightarrow> objc_runtime \<Rightarrow> objc_runtime" where
  "register_class name addr rt =
     (let (index, classes) =
        (case class_index rt name of
           Some i \<Rightarrow> (i, rt_classes rt)
         | None \<Rightarrow> (length (rt_classes rt),
                    rt_classes rt @ [\<lparr>ci_name = name, ci_superclass = class_index rt ''NSObject''\<rparr>]))
      in rt\<lparr>rt_classes := classes,
            rt_class_addr_by_name := (rt_class_addr_by_name rt)(name \<mapsto> addr),
            rt_class_index_by_addr := (rt_class_index_by_addr rt)(addr \<mapsto> index)\<rparr>)"

definition get_or_create_class :: "string \<Rightarrow> ('w, guest_addr option) hle_act" where
  "get_or_create_class name =
     act_then (rt_query (\<lambda>rt. rt_class_addr_by_name rt name)) (\<lambda>found.
       case found of
         Some addr \<Rightarrow> act_return (Some addr)
       | None \<Rightarrow>
           act_then (call_mem_mut (\<lambda>m. heap_alloc m OBJ_HEADER_SIZE 16)) (\<lambda>block.
             case block of
               None \<Rightarrow> act_return None
             | Some addr \<Rightarrow>
                 act_then (call_mem_mut (\<lambda>m. unit_mem (write_u64 m addr (CLASS_MAGIC OR addr)))) (\<lambda>written.
                   case written of
                     None \<Rightarrow> act_return None
                   | Some _ \<Rightarrow>
                       act_then (rt_update (register_class name addr)) (\<lambda>_. act_return (Some addr)))))"

definition register_instance :: "u64 \<Rightarrow> nat \<Rightarrow> objc_runtime \<Rightarrow> objc_runtime" where
  "register_instance obj index rt =
     rt\<lparr>rt_instance_class := (rt_instance_class rt)(obj \<mapsto> index),
        rt_retain_counts := (rt_retain_counts rt)(obj \<mapsto> 1)\<rparr>"

definition alloc_instance :: "u64 \<Rightarrow> ('w, guest_addr option) hle_act" where
  "alloc_instance class_addr =
     act_then (rt_query (\<lambda>rt. rt_class_index_by_addr rt class_addr)) (\<lambda>found.
       case found of
         None \<Rightarrow> act_return None
       | Some index \<Rightarrow>
           act_then (call_mem_mut (\<lambda>m. heap_alloc m OBJ_HEADER_SIZE 16)) (\<lambda>block.
             case block of
               None \<Rightarrow> act_return None
             | Some obj \<Rightarrow>
                 act_then (call_mem_mut (\<lambda>m. unit_mem (write_u64 m obj class_addr))) (\<lambda>written.
                   case written of
                     None \<Rightarrow> act_return None
                   | Some _ \<Rightarrow>
                       act_then (rt_update (register_instance obj index)) (\<lambda>_. act_return (Some obj)))))"

definition addr_or_nil :: "guest_addr option \<Rightarrow> u64" where
  "addr_or_nil a = (case a of Some x \<Rightarrow> x | None \<Rightarrow> 0)"

definition alloc_via :: "u64 \<Rightarrow> ('w, unit) hle_act" where
  "alloc_via class_addr = act_then (alloc_instance class_addr) (\<lambda>obj. call_ret (addr_or_nil obj))"

definition class_name :: "objc_runtime \<Rightarrow> nat \<Rightarrow> (string, unit) rust_result" where
  "class_name rt index = (if index < length (rt_classes rt) then Ok (ci_name (rt_classes rt ! index)) else Panic)"

section \<open>Messages\<close>

definition count_update :: "(i64 \<Rightarrow> i64) \<Rightarrow> u64 \<Rightarrow> objc_runtime \<Rightarrow> objc_runtime" where
  "count_update f recv rt =
     (case rt_retain_counts rt recv of
        None \<Rightarrow> rt
      | Some k \<Rightarrow> rt\<lparr>rt_retain_counts := (rt_retain_counts rt)(recv \<mapsto> f k)\<rparr>)"

definition class_of :: "u64 \<Rightarrow> objc_runtime \<Rightarrow> (u64, unit) rust_result" where
  "class_of recv rt =
     (case rt_instance_class rt recv of
        Some idx \<Rightarrow> and_then (class_name rt idx) (\<lambda>name. Ok (addr_or_nil (rt_class_addr_by_name rt name)))
      | None \<Rightarrow> Ok recv)"

text \<open>The answer of a message, by selector; \<open>is_class\<close> tells a class-side send from an instance-side one.\<close>

definition msg_answer :: "u64 \<Rightarrow> string \<Rightarrow> bool \<Rightarrow> ('w, u64) hle_act" where
  "msg_answer recv sel is_class =
     (if (sel = ''alloc'' \<or> sel = ''allocWithZone:'') \<and> is_class then
        act_then (alloc_instance recv) (\<lambda>obj. act_return (addr_or_nil obj))
      else if sel = ''new'' \<and> is_class then
        act_then (alloc_instance recv) (\<lambda>obj. act_return (addr_or_nil obj))
      else if sel = ''init'' \<or> prefix ''initWith'' sel then act_return recv
      else if sel = ''self'' \<or> sel = ''retain'' \<or> sel = ''autorelease'' then
        act_then (rt_update (if sel = ''retain'' then count_update (\<lambda>k. k + 1) recv else id)) (\<lambda>_. act_return recv)
      else if sel = ''release'' then
        act_then (rt_update (count_update (\<lambda>k. k - 1) recv)) (\<lambda>_. act_return 0)
      else if sel = ''retainCount'' then
        rt_query (\<lambda>rt. case rt_retain_counts rt recv of Some k \<Rightarrow> k | None \<Rightarrow> 1)
      else if sel = ''class'' then act_query (\<lambda>(rt, c). class_of recv rt)
      else if sel = ''respondsToSelector:'' \<or> sel = ''isKindOfClass:'' \<or> sel = ''conformsToProtocol:'' then act_return 0
      else if sel = ''hash'' then act_return recv
      else act_return 0)"

definition msg_send :: "'w shim" where
  "msg_send =
     act_then (call_arg 0) (\<lambda>recv.
     act_then (call_arg 1) (\<lambda>sel_ptr.
       if recv = 0 then act_then (call_ret 0) (\<lambda>_. act_return Handled)
       else
         act_then (call_mem (\<lambda>m. read_cstr m sel_ptr 256)) (\<lambda>sel.
           case sel of
             None \<Rightarrow> act_then (call_ret 0) (\<lambda>_. act_return Handled)
           | Some s \<Rightarrow>
               if s = '''' then act_then (call_ret 0) (\<lambda>_. act_return Handled)
               else
                 act_then (rt_query (\<lambda>rt. rt_class_index_by_addr rt recv \<noteq> None)) (\<lambda>is_class.
                 act_then (msg_answer recv s is_class) (\<lambda>ret.
                 act_then (call_ret ret) (\<lambda>_. act_return Handled))))))"

end
