(* ===== verification/Hle_Shims.thy ===== *)
theory Hle_Shims
  imports Hle_Runtime
begin

text \<open>
  \<open>hle/src/lib.rs\<close> and \<open>hle/src/frameworks\<close>: the shims of the emulated libraries and the registry that
  dispatches an imported symbol to its shim.  \<open>NSLog\<close> output goes to the guest's log through the parameter
  \<open>log\<close>; diagnostic lines are left out.
\<close>

section \<open>Generic shims\<close>

type_synonym 'w registry = "string \<rightharpoonup> 'w shim"

definition stub_zero :: "'w shim" where
  "stub_zero = act_then (call_ret 0) (\<lambda>_. act_return Handled)"

definition register_stub :: "string \<Rightarrow> 'w registry \<Rightarrow> 'w registry" where
  "register_stub name reg = reg(name \<mapsto> stub_zero)"

definition ret_handled :: "u64 \<Rightarrow> 'w shim" where
  "ret_handled v = act_then (call_ret v) (\<lambda>_. act_return Handled)"

section \<open>\<open>libobjc\<close>\<close>

definition objc_msg_send :: "'w shim" where
  "objc_msg_send = msg_send"

definition objc_get_class :: "'w shim" where
  "objc_get_class =
     act_then (call_arg 0) (\<lambda>p.
     act_then (call_mem (\<lambda>m. read_cstr m p 256)) (\<lambda>name.
     act_then (get_or_create_class (case name of Some s \<Rightarrow> s | None \<Rightarrow> '''')) (\<lambda>addr.
     ret_handled (addr_or_nil addr))))"

definition sel_register_name :: "'w shim" where
  "sel_register_name = act_then (call_arg 0) ret_handled"

definition objc_retain :: "'w shim" where
  "objc_retain = act_then (call_arg 0) ret_handled"

definition objc_release :: "'w shim" where
  "objc_release = ret_handled 0"

definition objc_alloc :: "'w shim" where
  "objc_alloc = act_then (call_arg 0) (\<lambda>cls. act_then (alloc_via cls) (\<lambda>_. act_return Handled))"

definition install_objc_rt :: "'w registry \<Rightarrow> 'w registry" where
  "install_objc_rt reg =
     reg(''objc_msgSend'' \<mapsto> objc_msg_send, ''objc_msgSendSuper'' \<mapsto> objc_msg_send, ''objc_msgSendSuper2'' \<mapsto> objc_msg_send,
         ''objc_getClass'' \<mapsto> objc_get_class, ''objc_lookUpClass'' \<mapsto> objc_get_class, ''objc_getRequiredClass'' \<mapsto> objc_get_class,
         ''objc_getMetaClass'' \<mapsto> objc_get_class, ''sel_registerName'' \<mapsto> sel_register_name, ''sel_getUid'' \<mapsto> sel_register_name,
         ''objc_retain'' \<mapsto> objc_retain, ''objc_release'' \<mapsto> objc_release, ''objc_autorelease'' \<mapsto> objc_retain,
         ''objc_retainAutoreleasedReturnValue'' \<mapsto> objc_retain, ''objc_autoreleaseReturnValue'' \<mapsto> objc_retain,
         ''objc_alloc'' \<mapsto> objc_alloc, ''objc_alloc_init'' \<mapsto> objc_alloc, ''objc_storeStrong'' \<mapsto> stub_zero,
         ''objc_autoreleasePoolPush'' \<mapsto> stub_zero, ''objc_autoreleasePoolPop'' \<mapsto> stub_zero)"

section \<open>\<open>libSystem\<close>\<close>

text \<open>\<open>vec![byte; n]\<close>.\<close>

definition vec_filled :: "u8 \<Rightarrow> nat \<Rightarrow> (u8 list, 'e) rust_result" where
  "vec_filled b n = (if n \<le> isize_max then Ok (replicate n b) else Panic)"

definition malloc :: "'w shim" where
  "malloc =
     act_then (call_arg 0) (\<lambda>sz.
     act_then (call_mem_mut (\<lambda>m. heap_alloc m sz 16)) (\<lambda>addr.
     ret_handled (addr_or_nil addr)))"

definition calloc :: "'w shim" where
  "calloc =
     act_then (call_arg 0) (\<lambda>a.
     act_then (call_arg 1) (\<lambda>b.
     act_then (call_mem_mut (\<lambda>m. heap_alloc m (saturating_mul a b) 16)) (\<lambda>addr.
     ret_handled (addr_or_nil addr))))"

text \<open>Copying through a temporary buffer: nothing happens when the source cannot be read, or the target written.\<close>

definition copy_bytes :: "guest_addr \<Rightarrow> guest_addr \<Rightarrow> nat \<Rightarrow> ('w, unit) hle_act" where
  "copy_bytes dst src n =
     act_then (act_query (\<lambda>_. vec_zeroed n)) (\<lambda>_.
     act_then (call_mem (\<lambda>m. mem_read m src n)) (\<lambda>tmp.
       case tmp of
         None \<Rightarrow> act_return ()
       | Some bytes \<Rightarrow> act_then (call_mem_mut (\<lambda>m. unit_mem (mem_write m dst bytes))) (\<lambda>_. act_return ())))"

definition realloc :: "'w shim" where
  "realloc =
     act_then (call_arg 0) (\<lambda>old.
     act_then (call_arg 1) (\<lambda>sz.
     act_then (call_mem_mut (\<lambda>m. heap_alloc m sz 16)) (\<lambda>new.
       case new of
         None \<Rightarrow> ret_handled 0
       | Some addr \<Rightarrow>
           act_then (if old \<noteq> 0 then copy_bytes addr old (unat sz) else act_return ()) (\<lambda>_. ret_handled addr))))"

definition free :: "'w shim" where
  "free = ret_handled 0"

definition memcpy :: "'w shim" where
  "memcpy =
     act_then (call_arg 0) (\<lambda>dst.
     act_then (call_arg 1) (\<lambda>src.
     act_then (call_arg 2) (\<lambda>n.
     act_then (copy_bytes dst src (unat n)) (\<lambda>_. ret_handled dst))))"

definition fill_bytes :: "guest_addr \<Rightarrow> u8 \<Rightarrow> nat \<Rightarrow> ('w, unit) hle_act" where
  "fill_bytes dst b n =
     act_then (act_query (\<lambda>_. vec_filled b n)) (\<lambda>bytes.
     act_then (call_mem_mut (\<lambda>m. unit_mem (mem_write m dst bytes))) (\<lambda>_. act_return ()))"

definition memset :: "'w shim" where
  "memset =
     act_then (call_arg 0) (\<lambda>dst.
     act_then (call_arg 1) (\<lambda>byte.
     act_then (call_arg 2) (\<lambda>n.
     act_then (fill_bytes dst (ucast byte) (unat n)) (\<lambda>_. ret_handled dst))))"

definition bzero :: "'w shim" where
  "bzero =
     act_then (call_arg 0) (\<lambda>dst.
     act_then (call_arg 1) (\<lambda>n.
     act_then (fill_bytes dst 0 (unat n)) (\<lambda>_. ret_handled 0)))"

definition read_cstr_or_empty :: "guest_addr \<Rightarrow> nat \<Rightarrow> ('w, string) hle_act" where
  "read_cstr_or_empty p bound =
     act_then (call_mem (\<lambda>m. read_cstr m p bound)) (\<lambda>s. act_return (case s of Some t \<Rightarrow> t | None \<Rightarrow> ''''))"

definition strlen :: "'w shim" where
  "strlen =
     act_then (call_arg 0) (\<lambda>p.
     act_then (read_cstr_or_empty p (2 ^ 20)) (\<lambda>s.
     ret_handled (of_nat (length s))))"

datatype ordering = Less | Equal | Greater

fun bytes_cmp :: "u8 list \<Rightarrow> u8 list \<Rightarrow> ordering" where
  "bytes_cmp [] [] = Equal"
| "bytes_cmp [] (y # ys) = Less"
| "bytes_cmp (x # xs) [] = Greater"
| "bytes_cmp (x # xs) (y # ys) = (if x < y then Less else if y < x then Greater else bytes_cmp xs ys)"

fun ordering_ret :: "ordering \<Rightarrow> u64" where
  "ordering_ret Less = - 1"
| "ordering_ret Equal = 0"
| "ordering_ret Greater = 1"

definition strcmp :: "'w shim" where
  "strcmp =
     act_then (call_arg 0) (\<lambda>p.
     act_then (read_cstr_or_empty p (2 ^ 16)) (\<lambda>a.
     act_then (call_arg 1) (\<lambda>q.
     act_then (read_cstr_or_empty q (2 ^ 16)) (\<lambda>b.
     ret_handled (ordering_ret (bytes_cmp (as_bytes a) (as_bytes b)))))))"

text \<open>A buffer that could not be filled stays zero.\<close>

definition read_or_zero :: "guest_addr \<Rightarrow> nat \<Rightarrow> ('w, u8 list) hle_act" where
  "read_or_zero p n =
     act_then (call_mem (\<lambda>m. mem_read m p n)) (\<lambda>r. act_return (case r of Some bs \<Rightarrow> bs | None \<Rightarrow> replicate n 0))"

definition memcmp :: "'w shim" where
  "memcmp =
     act_then (call_arg 0) (\<lambda>a.
     act_then (call_arg 1) (\<lambda>b.
     act_then (call_arg 2) (\<lambda>n.
     act_then (act_query (\<lambda>_. vec_zeroed (unat n))) (\<lambda>_.
     act_then (read_or_zero a (unat n)) (\<lambda>ba.
     act_then (read_or_zero b (unat n)) (\<lambda>bb.
     ret_handled (ordering_ret (bytes_cmp ba bb))))))))"

definition pthread_once :: "'w shim" where
  "pthread_once = ret_handled 0"

definition install_libsystem :: "'w registry \<Rightarrow> 'w registry" where
  "install_libsystem reg =
     reg(''malloc'' \<mapsto> malloc, ''calloc'' \<mapsto> calloc, ''realloc'' \<mapsto> realloc, ''free'' \<mapsto> free, ''memcpy'' \<mapsto> memcpy,
         ''memmove'' \<mapsto> memcpy, ''memset'' \<mapsto> memset, ''bzero'' \<mapsto> bzero, ''strlen'' \<mapsto> strlen, ''strcmp'' \<mapsto> strcmp,
         ''memcmp'' \<mapsto> memcmp, ''pthread_mutex_lock'' \<mapsto> stub_zero, ''pthread_mutex_unlock'' \<mapsto> stub_zero,
         ''pthread_mutex_init'' \<mapsto> stub_zero, ''pthread_once'' \<mapsto> pthread_once, ''dispatch_once'' \<mapsto> pthread_once,
         ''__stack_chk_fail'' \<mapsto> stub_zero)"

section \<open>Foundation, UIKit, CoreGraphics, OpenGL ES\<close>

definition CFSTR_CSTR_OFFSET :: u64 where
  "CFSTR_CSTR_OFFSET = 16"

definition ns_log :: "(string \<Rightarrow> 'w \<Rightarrow> 'w) \<Rightarrow> 'w shim" where
  "ns_log log =
     act_then (call_arg 0) (\<lambda>nsstring.
     act_then (call_mem (\<lambda>m. read_u64 m (addr_add nsstring CFSTR_CSTR_OFFSET))) (\<lambda>p.
     act_then
       (case p of
          None \<Rightarrow> act_return None
        | Some cstr \<Rightarrow> if cstr = 0 then act_return None else call_mem (\<lambda>m. read_cstr m cstr 4096)) (\<lambda>message.
     act_then (act_update (\<lambda>(rt, c).
         (rt, c\<lparr>cc_world := log (case message of Some s \<Rightarrow> s | None \<Rightarrow> ''<unprintable NSString>'') (cc_world c)\<rparr>))) (\<lambda>_.
     ret_handled 0))))"

definition install_foundation :: "(string \<Rightarrow> 'w \<Rightarrow> 'w) \<Rightarrow> 'w registry \<Rightarrow> 'w registry" where
  "install_foundation log reg =
     fold register_stub
       [''CFRetain'', ''CFRelease'', ''CFBridgingRetain'', ''CFBridgingRelease'', ''NSSearchPathForDirectoriesInDomains'',
        ''CFStringCreateWithCString'', ''CFAllocatorGetDefault'', ''NSStringFromClass'', ''objc_setAssociatedObject'',
        ''objc_getAssociatedObject'']
       (reg(''NSLog'' \<mapsto> ns_log log, ''CFShow'' \<mapsto> ns_log log))"

definition ui_application_main :: "'w shim" where
  "ui_application_main = ret_handled 0"

definition install_uikit :: "'w registry \<Rightarrow> 'w registry" where
  "install_uikit reg =
     fold register_stub
       [''UIGraphicsGetCurrentContext'', ''UIGraphicsBeginImageContext'', ''UIGraphicsEndImageContext'',
        ''UIImagePNGRepresentation'', ''UIScreenMainScreen'']
       (reg(''UIApplicationMain'' \<mapsto> ui_application_main))"

definition cg_main_display_id :: "'w shim" where
  "cg_main_display_id = ret_handled 1"

definition install_coregraphics :: "'w registry \<Rightarrow> 'w registry" where
  "install_coregraphics reg =
     (fold register_stub
        [''CGColorCreate'', ''CGColorRelease'', ''CGContextSetFillColorWithColor'', ''CGContextFillRect'', ''CGContextRef'',
         ''CGBitmapContextCreate'', ''CGColorSpaceCreateDeviceRGB'', ''CGColorSpaceRelease'', ''CGContextDrawImage'',
         ''CGImageRelease''] reg)(''CGMainDisplayID'' \<mapsto> cg_main_display_id)"

definition install_gles :: "'w registry \<Rightarrow> 'w registry" where
  "install_gles reg =
     fold register_stub
       [''glClear'', ''glClearColor'', ''glViewport'', ''glGenBuffers'', ''glBindBuffer'', ''glBufferData'', ''glCreateShader'',
        ''glCompileShader'', ''glCreateProgram'', ''glUseProgram'', ''glDrawArrays'', ''glDrawElements'', ''glGetError'',
        ''glFlush'', ''glFinish''] reg"

section \<open>The environment\<close>

definition install_all :: "(string \<Rightarrow> 'w \<Rightarrow> 'w) \<Rightarrow> 'w registry \<Rightarrow> 'w registry" where
  "install_all log reg =
     install_gles (install_coregraphics (install_uikit (install_foundation log (install_libsystem (install_objc_rt reg)))))"

text \<open>The registry is built once and never changes, so the state of the environment is the runtime.\<close>

definition hle_environment :: "(string \<Rightarrow> 'w \<Rightarrow> 'w) \<Rightarrow> ('w, objc_runtime) host_environment" where
  "hle_environment log =
     \<lparr>env_call = (\<lambda>symbol. case install_all log Map.empty symbol of Some shim \<Rightarrow> shim | None \<Rightarrow> act_return Unhandled),
      env_on_process_start = rt_update preload_root_classes\<rparr>"

end
