(* ===== verification/Hle.thy ===== *)
theory Hle
  imports Hle_Shims
begin

text \<open>
  The library emulation keeps its contract with the run loop: the invariant of the Objective-C runtime,
  that every shim preserves it, and the two interfaces put together.
\<close>

section \<open>The invariant of the runtime\<close>

text \<open>
  Addresses of class objects and instances come from the heap arena, below its cursor; they name classes of
  the table; a class object and its name determine each other; no address is both.
\<close>

definition arena_ok :: "bump_allocator \<Rightarrow> bool" where
  "arena_ok hp \<longleftrightarrow> unat (bump_limit hp) \<le> 2 ^ 63 \<and> bump_cursor hp \<le> bump_limit hp"

definition objects_below :: "objc_runtime \<Rightarrow> u64 \<Rightarrow> bool" where
  "objects_below rt lim \<longleftrightarrow>
     (\<forall>a i. rt_class_index_by_addr rt a = Some i \<longrightarrow> i < length (rt_classes rt) \<and> unat a < unat lim) \<and>
     (\<forall>a i. rt_instance_class rt a = Some i \<longrightarrow> i < length (rt_classes rt) \<and> unat a < unat lim)"

definition names_agree :: "objc_runtime \<Rightarrow> bool" where
  "names_agree rt \<longleftrightarrow>
     (\<forall>name a. rt_class_addr_by_name rt name = Some a \<longleftrightarrow>
        (\<exists>i. rt_class_index_by_addr rt a = Some i \<and> i < length (rt_classes rt) \<and> ci_name (rt_classes rt ! i) = name))"

definition objects_apart :: "objc_runtime \<Rightarrow> bool" where
  "objects_apart rt \<longleftrightarrow> (\<forall>a i. rt_instance_class rt a = Some i \<longrightarrow> rt_class_index_by_addr rt a = None)"

definition rt_inv :: "objc_runtime \<Rightarrow> bump_allocator \<Rightarrow> bool" where
  "rt_inv rt hp \<longleftrightarrow> arena_ok hp \<and> objects_below rt (bump_cursor hp) \<and> names_agree rt \<and> objects_apart rt"

lemma rt_inv_new: "arena_ok hp \<Longrightarrow> rt_inv objc_new hp"
  by (simp add: rt_inv_def objc_new_def objects_below_def names_agree_def objects_apart_def)

lemma class_index_Some: "class_index rt name = Some i \<Longrightarrow> i < length (rt_classes rt) \<and> ci_name (rt_classes rt ! i) = name"
  by (auto simp: class_index_def find_Some_iff)

lemma bump_alloc_advances:
  assumes "arena_ok hp" and "bump_alloc hp sz 16 = Ok (a, hp')"
  shows "arena_ok hp'" and "unat (bump_cursor hp) \<le> unat a" and "unat a < unat (bump_cursor hp')"
proof -
  have ok: "bump_alloc hp sz (2 ^ 4) = Ok (a, hp')" using assms(2) by simp
  have lim: "unat (bump_limit hp) \<le> 2 ^ 63" "bump_cursor hp \<le> bump_limit hp" "(4 :: nat) < 64"
    using assms(1) by (simp_all add: arena_ok_def)
  note adv = bump_alloc_Ok [OF lim ok]
  have "bump_limit hp' = bump_limit hp" using arg_cong [where f = bump_limit, OF adv(4)] by simp
  then show "arena_ok hp'" using adv(5) lim(1) by (simp add: arena_ok_def)
  show "unat (bump_cursor hp) \<le> unat a" by (rule adv(1))
  have "0 < unat (max sz 1)" by (simp add: max_def word_le_nat_alt)
  then show "unat a < unat (bump_cursor hp')" using adv(3) by simp
qed

lemma rt_inv_alloc: "rt_inv rt hp \<Longrightarrow> bump_alloc hp sz 16 = Ok (a, hp') \<Longrightarrow> rt_inv rt hp'"
  using bump_alloc_advances [of hp sz a hp'] unfolding rt_inv_def objects_below_def by fastforce

lemma rt_inv_preload: "rt_inv rt hp \<Longrightarrow> rt_inv (preload_root_classes rt) hp"
proof -
  have "rt_inv (preload_one name rt) hp" if "rt_inv rt hp" for name rt
  proof -
    have "names_agree (rt\<lparr>rt_classes := rt_classes rt @ [c]\<rparr>)" for c
      using that unfolding rt_inv_def names_agree_def objects_below_def by (auto simp: nth_append)
    then show ?thesis using that by (auto simp: preload_one_def rt_inv_def objects_below_def objects_apart_def) (force+)
  qed
  then show "rt_inv rt hp \<Longrightarrow> rt_inv (preload_root_classes rt) hp" by (simp add: preload_root_classes_def)
qed

lemma objects_below_fresh:
  assumes "objects_below rt lim" and "unat lim \<le> unat a"
  shows "rt_class_index_by_addr rt a = None" and "rt_instance_class rt a = None"
proof -
  show "rt_class_index_by_addr rt a = None"
    using assms by (cases "rt_class_index_by_addr rt a") (fastforce simp: objects_below_def)+
  show "rt_instance_class rt a = None"
    using assms by (cases "rt_instance_class rt a") (fastforce simp: objects_below_def)+
qed

lemma objects_below_mono: "objects_below rt lim \<Longrightarrow> unat lim \<le> unat lim' \<Longrightarrow> objects_below rt lim'"
  unfolding objects_below_def by (meson less_le_trans)

text \<open>Registering an address that the arena has just given out.\<close>

lemma rt_inv_register_class:
  assumes "rt_inv rt hp" and "bump_alloc hp sz 16 = Ok (a, hp')" and "rt_class_addr_by_name rt name = None"
  shows "rt_inv (register_class name a rt) hp'"
proof -
  note adv = bump_alloc_advances [OF _ assms(2)]
  have ok: "arena_ok hp" "objects_below rt (bump_cursor hp)" "names_agree rt" "objects_apart rt"
    using assms(1) by (simp_all add: rt_inv_def)
  have below: "objects_below rt (bump_cursor hp')" using adv(2,3) [OF ok(1)] by (intro objects_below_mono [OF ok(2)]) simp
  note fresh = objects_below_fresh [OF ok(2) adv(2) [OF ok(1)]]
  obtain i cs where reg: "i < length (rt_classes rt @ cs)" "ci_name ((rt_classes rt @ cs) ! i) = name"
    "register_class name a rt = rt\<lparr>rt_classes := rt_classes rt @ cs, rt_class_addr_by_name := (rt_class_addr_by_name rt)(name \<mapsto> a),
       rt_class_index_by_addr := (rt_class_index_by_addr rt)(a \<mapsto> i)\<rparr>"
  proof (cases "class_index rt name")
    case None
    then show thesis
      by (intro that [of "length (rt_classes rt)" "[\<lparr>ci_name = name, ci_superclass = class_index rt ''NSObject''\<rparr>]"])
        (simp_all add: register_class_def)
  next
    case (Some i)
    then show thesis using class_index_Some [OF Some] by (intro that [of i "[]"]) (simp_all add: register_class_def)
  qed
  have other: "ci_name (rt_classes rt ! j) \<noteq> name" if "rt_class_index_by_addr rt b = Some j" "j < length (rt_classes rt)" for b j
    using that ok(3) assms(3) by (auto simp: names_agree_def) (metis option.distinct(1))
  have low: "j < length (rt_classes rt)" if "rt_class_index_by_addr rt b = Some j" for b j
    using that ok(2) by (auto simp: objects_below_def)
  have named: "rt_class_addr_by_name rt n = Some b \<longleftrightarrow>
      (\<exists>j. rt_class_index_by_addr rt b = Some j \<and> j < length (rt_classes rt) \<and> ci_name (rt_classes rt ! j) = n)" for n b
    using ok(3) by (auto simp: names_agree_def)
  have "names_agree (register_class name a rt)"
    unfolding names_agree_def
  proof (intro allI)
    fix n b
    show "rt_class_addr_by_name (register_class name a rt) n = Some b \<longleftrightarrow>
        (\<exists>j. rt_class_index_by_addr (register_class name a rt) b = Some j \<and> j < length (rt_classes (register_class name a rt)) \<and>
           ci_name (rt_classes (register_class name a rt) ! j) = n)"
    proof (cases "b = a")
      case True
      then show ?thesis using reg named [of n a] fresh(1) by auto
    next
      case False
      then show ?thesis using reg(3) named [of n b] other [of b] low [of b] by (auto simp: nth_append)
    qed
  qed
  moreover have "objects_below (register_class name a rt) (bump_cursor hp')"
    using below adv(3) [OF ok(1)] reg(1) unfolding reg(3) by (auto simp: objects_below_def intro: trans_less_add1)
  moreover have "objects_apart (register_class name a rt)" using ok(4) fresh(2) unfolding objects_apart_def reg(3) by auto
  ultimately show ?thesis using adv(1) [OF ok(1)] by (simp add: rt_inv_def)
qed

lemma rt_inv_register_instance:
  assumes "rt_inv rt hp" and "bump_alloc hp sz 16 = Ok (a, hp')" and "rt_class_index_by_addr rt cls = Some i"
  shows "rt_inv (register_instance a i rt) hp'"
proof -
  note adv = bump_alloc_advances [OF _ assms(2)]
  have ok: "arena_ok hp" "objects_below rt (bump_cursor hp)" "names_agree rt" "objects_apart rt"
    using assms(1) by (simp_all add: rt_inv_def)
  have "rt_class_index_by_addr rt a = None" by (rule objects_below_fresh [OF ok(2) adv(2) [OF ok(1)]])
  moreover have "i < length (rt_classes rt)" using ok(2) assms(3) by (simp add: objects_below_def)
  moreover have "objects_below rt (bump_cursor hp')" using adv(2,3) [OF ok(1)] by (intro objects_below_mono [OF ok(2)]) simp
  ultimately have "objects_apart (register_instance a i rt)" "objects_below (register_instance a i rt) (bump_cursor hp')"
    using ok(4) adv(3) [OF ok(1)] by (auto simp: objects_apart_def objects_below_def register_instance_def)
  moreover have "names_agree (register_instance a i rt)" using ok(3) by (simp add: names_agree_def register_instance_def)
  ultimately show ?thesis using adv(1) [OF ok(1)] by (simp add: rt_inv_def)
qed

lemma rt_inv_count: "rt_inv (count_update f recv rt) hp = rt_inv rt hp"
  by (simp add: rt_inv_def count_update_def objects_below_def names_agree_def objects_apart_def split: option.splits)

section \<open>Making an object\<close>

text \<open>Allocating a header, storing a word in it and recording it: the shape shared by classes and instances.\<close>

lemma new_object_cases:
  assumes "act_then (call_mem_mut (\<lambda>m. heap_alloc m sz al)) (\<lambda>block.
      case block of
        None \<Rightarrow> act_return None
      | Some a \<Rightarrow>
          act_then (call_mem_mut (\<lambda>m. unit_mem (write_u64 m a (v a)))) (\<lambda>written.
            case written of
              None \<Rightarrow> act_return None
            | Some _ \<Rightarrow> act_then (rt_update (upd a)) (\<lambda>_. act_return (Some a)))) (rt, c) = ((rt', c'), res)"
  obtains (none) "rt' = rt" and "res = Ok None" and "c' = c \<or> (\<exists>a m. heap_alloc (cc_mem c) sz al = Ok (a, m) \<and> c' = c\<lparr>cc_mem := m\<rparr>)"
  | (made) a m m' where "heap_alloc (cc_mem c) sz al = Ok (a, m)" and "write_u64 m a (v a) = Ok m'"
      and "rt' = upd a rt" and "c' = c\<lparr>cc_mem := m'\<rparr>" and "res = Ok (Some a)"
proof (cases "heap_alloc (cc_mem c) sz al")
  case (Ok am)
  obtain a m where am: "am = (a, m)" by force
  show thesis
  proof (cases "write_u64 m a (v a)")
    case wr: (Ok m')
    have "rt' = upd a rt" "c' = c\<lparr>cc_mem := m'\<rparr>" "res = Ok (Some a)"
      using assms by (auto simp: act_then_def call_mem_mut_def unit_mem_def rt_update_def Ok am wr)
    with that(2) Ok am wr show thesis by blast
  next
    case (Err e)
    have "rt' = rt" "c' = c\<lparr>cc_mem := m\<rparr>" "res = Ok None"
      using assms by (auto simp: act_then_def call_mem_mut_def unit_mem_def rt_update_def Ok am Err)
    with that(1) Ok am show thesis by blast
  qed simp
next
  case (Err e)
  have "rt' = rt" "c' = c" "res = Ok None" using assms by (auto simp: act_then_def call_mem_mut_def Err)
  with that(1) show thesis by blast
qed simp

lemma env_inv_allocated:
  assumes "env_inv J sb (rt, c)" and "heap_alloc (cc_mem c) sz al = Ok (a, m)"
    and "\<And>hp'. bump_alloc (heap (cc_mem c)) sz al = Ok (a, hp') \<Longrightarrow> J rt' hp'"
  shows "env_inv J sb (rt', c\<lparr>cc_mem := m\<rparr>)"
proof -
  obtain hp where "bump_alloc (heap (cc_mem c)) sz al = Ok (a, hp)" "m = (cc_mem c)\<lparr>heap := hp\<rparr>"
    using assms(2) by (auto simp: heap_alloc_def result_simps)
  with assms(1,3) mem_wf_heap_alloc [OF _ assms(2)] show ?thesis by (auto simp: env_inv_def guest_ok_def)
qed

lemma env_inv_stored:
  assumes "env_inv J sb (rt, c)" and "write_u64 (cc_mem c) a v = Ok m"
  shows "env_inv J sb (rt, c\<lparr>cc_mem := m\<rparr>)"
  using assms mem_wf_write [of "cc_mem c" a "to_le_bytes v" m] heap_mem_write [of "cc_mem c" a "to_le_bytes v" m]
  by (simp add: env_inv_def guest_ok_def write_u64_def)

lemma get_or_create_cases:
  assumes "get_or_create_class name (rt, c) = ((rt', c'), res)"
  obtains (found) addr where "rt_class_addr_by_name rt name = Some addr" and "rt' = rt" and "c' = c" and "res = Ok (Some addr)"
  | (none) "rt' = rt" and "res = Ok None"
      and "c' = c \<or> (\<exists>a m. heap_alloc (cc_mem c) OBJ_HEADER_SIZE 16 = Ok (a, m) \<and> c' = c\<lparr>cc_mem := m\<rparr>)"
  | (made) addr m m' where "rt_class_addr_by_name rt name = None" and "heap_alloc (cc_mem c) OBJ_HEADER_SIZE 16 = Ok (addr, m)"
      and "write_u64 m addr (CLASS_MAGIC OR addr) = Ok m'" and "rt' = register_class name addr rt"
      and "c' = c\<lparr>cc_mem := m'\<rparr>" and "res = Ok (Some addr)"
proof (cases "rt_class_addr_by_name rt name")
  case None
  have "get_or_create_class name (rt, c) =
      act_then (call_mem_mut (\<lambda>m. heap_alloc m OBJ_HEADER_SIZE 16)) (\<lambda>block.
      case block of
        None \<Rightarrow> act_return None
      | Some a \<Rightarrow>
          act_then (call_mem_mut (\<lambda>m. unit_mem (write_u64 m a (CLASS_MAGIC OR a)))) (\<lambda>written.
            case written of
              None \<Rightarrow> act_return None
            | Some _ \<Rightarrow> act_then (rt_update (register_class name a)) (\<lambda>_. act_return (Some a)))) (rt, c)"
    unfolding get_or_create_class_def rt_query_def act_then_query by (simp only: None prod.case rust_result.case option.case)
  note run = assms [unfolded this]
  from run show thesis
  proof (cases rule: new_object_cases)
    case n: none
    show thesis by (rule none [OF n])
  next
    case m: (made a m m')
    show thesis by (rule made [OF None m])
  qed
next
  case (Some addr)
  with assms have "rt' = rt" "c' = c" "res = Ok (Some addr)" by (simp_all add: get_or_create_class_def rt_query_def)
  with Some show thesis by (rule found)
qed

lemma alloc_instance_cases:
  assumes "alloc_instance cls (rt, c) = ((rt', c'), res)"
  obtains (unknown) "rt_class_index_by_addr rt cls = None" and "rt' = rt" and "c' = c" and "res = Ok None"
  | (none) "rt' = rt" and "res = Ok None"
      and "c' = c \<or> (\<exists>a m. heap_alloc (cc_mem c) OBJ_HEADER_SIZE 16 = Ok (a, m) \<and> c' = c\<lparr>cc_mem := m\<rparr>)"
  | (made) obj m m' i where "rt_class_index_by_addr rt cls = Some i" and "heap_alloc (cc_mem c) OBJ_HEADER_SIZE 16 = Ok (obj, m)"
      and "write_u64 m obj cls = Ok m'" and "rt' = register_instance obj i rt" and "c' = c\<lparr>cc_mem := m'\<rparr>" and "res = Ok (Some obj)"
proof (cases "rt_class_index_by_addr rt cls")
  case None
  with assms have "rt' = rt" "c' = c" "res = Ok None" by (simp_all add: alloc_instance_def rt_query_def)
  with None show thesis by (rule unknown)
next
  case (Some i)
  have "alloc_instance cls (rt, c) =
      act_then (call_mem_mut (\<lambda>m. heap_alloc m OBJ_HEADER_SIZE 16)) (\<lambda>block.
      case block of
        None \<Rightarrow> act_return None
      | Some a \<Rightarrow>
          act_then (call_mem_mut (\<lambda>m. unit_mem (write_u64 m a cls))) (\<lambda>written.
            case written of
              None \<Rightarrow> act_return None
            | Some _ \<Rightarrow> act_then (rt_update (register_instance a i)) (\<lambda>_. act_return (Some a)))) (rt, c)"
    unfolding alloc_instance_def rt_query_def act_then_query by (simp only: Some prod.case rust_result.case option.case)
  note run = assms [unfolded this]
  from run show thesis
  proof (cases rule: new_object_cases)
    case n: none
    show thesis by (rule none [OF n])
  next
    case m: (made a m m')
    show thesis by (rule made [OF Some m])
  qed
qed

section \<open>Every shim keeps the invariant\<close>

lemma env_inv_allocated_any:
  assumes "env_inv rt_inv sb (rt, c)" and "heap_alloc (cc_mem c) sz 16 = Ok (a, m)"
  shows "env_inv rt_inv sb (rt, c\<lparr>cc_mem := m\<rparr>)"
  by (rule env_inv_allocated [OF assms]) (use assms(1) in \<open>auto simp: env_inv_def intro: rt_inv_alloc\<close>)

lemma env_inv_made:
  assumes "env_inv J sb (rt', c\<lparr>cc_mem := m\<rparr>)" and "write_u64 m a v = Ok m'"
  shows "env_inv J sb (rt', c\<lparr>cc_mem := m'\<rparr>)"
  using env_inv_stored [OF assms(1), of a v m'] assms(2) by simp

lemma get_or_create_keeps: "keeps (env_inv rt_inv sb) (get_or_create_class name)"
proof (rule keepsI)
  fix s :: "objc_runtime \<times> 'a call_context"
  assume inv: "env_inv rt_inv sb s"
  obtain rt c where s: "s = (rt, c)" by force
  obtain rt' c' res where run: "get_or_create_class name (rt, c) = ((rt', c'), res)" by (metis surj_pair)
  from run have "env_inv rt_inv sb (rt', c')"
  proof (cases rule: get_or_create_cases)
    case (made addr m m')
    have "rt_inv (register_class name addr rt) hp'" if "bump_alloc (heap (cc_mem c)) OBJ_HEADER_SIZE 16 = Ok (addr, hp')" for hp'
      using inv s by (intro rt_inv_register_class [OF _ that made(1)]) (simp add: env_inv_def)
    from env_inv_allocated [OF inv [unfolded s] made(2) this] show ?thesis
      unfolding made(4,5) by (rule env_inv_made [OF _ made(3)])
  qed (use inv s env_inv_allocated_any in auto)
  with run s show "env_inv rt_inv sb (fst (get_or_create_class name s))" by simp
qed

lemma alloc_instance_keeps: "keeps (env_inv rt_inv sb) (alloc_instance cls)"
proof (rule keepsI)
  fix s :: "objc_runtime \<times> 'a call_context"
  assume inv: "env_inv rt_inv sb s"
  obtain rt c where s: "s = (rt, c)" by force
  obtain rt' c' res where run: "alloc_instance cls (rt, c) = ((rt', c'), res)" by (metis surj_pair)
  from run have "env_inv rt_inv sb (rt', c')"
  proof (cases rule: alloc_instance_cases)
    case (made obj m m' i)
    have "rt_inv (register_instance obj i rt) hp'" if "bump_alloc (heap (cc_mem c)) OBJ_HEADER_SIZE 16 = Ok (obj, hp')" for hp'
      using inv s by (intro rt_inv_register_instance [OF _ that made(1)]) (simp add: env_inv_def)
    from env_inv_allocated [OF inv [unfolded s] made(2) this] show ?thesis
      unfolding made(4,5) by (rule env_inv_made [OF _ made(3)])
  qed (use inv s env_inv_allocated_any in auto)
  with run s show "env_inv rt_inv sb (fst (alloc_instance cls s))" by simp
qed

lemma rt_query_keeps [keeps_rules]: "keeps P (rt_query f)"
  by (simp add: rt_query_def keeps_rules)

lemma rt_update_keeps: "(\<And>rt hp. rt_inv rt hp \<Longrightarrow> rt_inv (f rt) hp) \<Longrightarrow> keeps (env_inv rt_inv sb) (rt_update f)"
  by (rule keepsI) (auto simp: rt_update_def env_inv_def)

lemma malloc_keeps: "keeps (env_inv rt_inv sb) (call_mem_mut (\<lambda>m. heap_alloc m sz 16))"
  by (rule env_inv_alloc) (rule rt_inv_alloc)

lemmas shim_keeps = keeps_rules get_or_create_keeps alloc_instance_keeps malloc_keeps env_inv_ret env_inv_write

lemma msg_answer_keeps: "keeps (env_inv rt_inv sb) (msg_answer recv sel is_class)"
  unfolding msg_answer_def by (intro shim_keeps rt_update_keeps) (simp_all add: rt_inv_count)

lemma msg_send_keeps: "keeps (env_inv rt_inv sb) msg_send"
  unfolding msg_send_def by (intro shim_keeps msg_answer_keeps)

lemma ret_handled_keeps: "keeps (env_inv J sb) (ret_handled v)" "keeps (env_inv J sb) stub_zero"
  unfolding ret_handled_def stub_zero_def by (intro shim_keeps)+

lemma copy_fill_keeps:
  "keeps (env_inv J sb) (copy_bytes dst src n)" "keeps (env_inv J sb) (fill_bytes dst b n)"
  unfolding copy_bytes_def fill_bytes_def by (intro shim_keeps)+

lemma read_buffer_keeps [keeps_rules]: "keeps P (read_cstr_or_empty p n)" "keeps P (read_or_zero p n)"
  unfolding read_cstr_or_empty_def read_or_zero_def by (intro keeps_rules)+

lemma ns_log_keeps: "keeps (env_inv J sb) (ns_log log)"
proof -
  have "keeps (env_inv J sb) (act_update (\<lambda>(e, c). (e, c\<lparr>cc_world := f (cc_world c)\<rparr>)))" for f
    by (rule keepsI) (auto simp: env_inv_def guest_ok_def)
  then show ?thesis unfolding ns_log_def by (intro shim_keeps ret_handled_keeps)
qed

lemma shims_keep:
  "keeps (env_inv rt_inv sb) objc_msg_send" "keeps (env_inv rt_inv sb) objc_get_class" "keeps (env_inv rt_inv sb) sel_register_name"
  "keeps (env_inv rt_inv sb) objc_retain" "keeps (env_inv rt_inv sb) objc_release" "keeps (env_inv rt_inv sb) objc_alloc"
  "keeps (env_inv rt_inv sb) malloc" "keeps (env_inv rt_inv sb) calloc" "keeps (env_inv rt_inv sb) realloc"
  "keeps (env_inv rt_inv sb) free" "keeps (env_inv rt_inv sb) memcpy" "keeps (env_inv rt_inv sb) memset"
  "keeps (env_inv rt_inv sb) bzero" "keeps (env_inv rt_inv sb) strlen" "keeps (env_inv rt_inv sb) strcmp"
  "keeps (env_inv rt_inv sb) memcmp" "keeps (env_inv rt_inv sb) pthread_once" "keeps (env_inv rt_inv sb) (ns_log log)"
  "keeps (env_inv rt_inv sb) ui_application_main" "keeps (env_inv rt_inv sb) cg_main_display_id" "keeps (env_inv rt_inv sb) stub_zero"
  unfolding objc_msg_send_def objc_get_class_def sel_register_name_def objc_retain_def objc_release_def objc_alloc_def alloc_via_def
    malloc_def calloc_def realloc_def free_def memcpy_def memset_def bzero_def strlen_def strcmp_def memcmp_def pthread_once_def
    ui_application_main_def cg_main_display_id_def
  by (intro shim_keeps msg_send_keeps ret_handled_keeps copy_fill_keeps ns_log_keeps read_buffer_keeps)+

definition registry_ok :: "sandbox \<Rightarrow> 'w registry \<Rightarrow> bool" where
  "registry_ok sb reg \<longleftrightarrow> (\<forall>symbol shim. reg symbol = Some shim \<longrightarrow> keeps (env_inv rt_inv sb) shim)"

lemma registry_ok_add: "registry_ok sb reg \<Longrightarrow> keeps (env_inv rt_inv sb) shim \<Longrightarrow> registry_ok sb (reg(symbol \<mapsto> shim))"
  by (simp add: registry_ok_def)

lemma registry_ok_stubs: "registry_ok sb reg \<Longrightarrow> registry_ok sb (fold register_stub names reg)"
  by (induction names arbitrary: reg) (simp_all add: register_stub_def registry_ok_add shims_keep)

lemma install_all_ok: "registry_ok sb (install_all log Map.empty)"
proof -
  have "registry_ok sb Map.empty" by (simp add: registry_ok_def)
  then show ?thesis
    unfolding install_all_def install_objc_rt_def install_libsystem_def install_foundation_def install_uikit_def
      install_coregraphics_def install_gles_def
    by (intro registry_ok_add registry_ok_stubs shims_keep)
qed

interpretation hle: host_env "hle_environment log" rt_inv for log
proof unfold_locales
  fix sb symbol
  show "keeps (env_inv rt_inv sb) (env_call (hle_environment log) symbol)"
    using install_all_ok [of sb log] by (auto simp: hle_environment_def registry_ok_def keeps_rules split: option.splits)
  show "keeps (env_inv rt_inv sb) (env_on_process_start (hle_environment log))"
    by (simp add: hle_environment_def rt_update_keeps rt_inv_preload)
qed

section \<open>Properties\<close>

definition hle_context :: "string list call_context" where
  "hle_context =
     \<lparr>cc_cpu = cpu_default\<lparr>cpu_x := [0x1020, 0x1000, 16] @ replicate 26 0\<rparr>,
      cc_mem = \<lparr>regions = [(0x1000, \<lparr>r_base = 0x1000, r_prot = prot_rw, r_kind = HeapKind, r_name = ''heap'', r_data = replicate 64 7\<rparr>)],
               mmap_cursor = MMAP_TOP, heap = \<lparr>bump_base = 0x1000, bump_limit = 0x1040, bump_cursor = 0x1000\<rparr>\<rparr>,
      cc_vfs = demo_sandbox, cc_world = []\<rparr>"

lemma hle_context_ok: "env_inv rt_inv demo_sandbox (objc_new, hle_context)" "mem_wf (cc_mem hle_context)"
proof -
  show wf: "mem_wf (cc_mem hle_context)" by (simp add: hle_context_def mem_wf_def bt_invar_def)
  show "env_inv rt_inv demo_sandbox (objc_new, hle_context)"
    unfolding env_inv_def guest_ok_def using wf
    by (simp add: hle_context_def rt_inv_new arena_ok_def cpu_wf_def)
qed

lemma hle_context_access:
  assumes "0x1000 \<le> unat a" and "unat a < 0x1040" and "unat a + n \<le> 0x1040"
  shows "is_ok (mem_read (cc_mem hle_context) a n)" and "length d = n \<Longrightarrow> is_ok (mem_write (cc_mem hle_context) a d)"
proof -
  have r: "bt_get (regions (cc_mem hle_context)) 0x1000 =
      Some \<lparr>r_base = 0x1000, r_prot = prot_rw, r_kind = HeapKind, r_name = ''heap'', r_data = replicate 64 7\<rparr>"
    by (simp add: hle_context_def bt_get_def)
  show "is_ok (mem_read (cc_mem hle_context) a n)" "length d = n \<Longrightarrow> is_ok (mem_write (cc_mem hle_context) a d)"
    using region_access(1) [OF hle_context_ok(2) r, of a n] region_access(2) [OF hle_context_ok(2) r, of a n d] assms by simp_all
qed

text \<open>
  C20. Objects and classes: an instance allocated from a class object answers \<open>class\<close> with that class object,
  is a new object distinct from it and from every earlier instance, starts with a retain count of one, and
  asking for the class by name again gives the same object without allocating.
\<close>

theorem instance_knows_class:
  assumes "env_inv rt_inv sb (rt, c)" and "get_or_create_class name (rt, c) = ((rt1, c1), Ok (Some cls))"
    and "alloc_instance cls (rt1, c1) = ((rt2, c2), Ok (Some obj))"
  shows "class_of obj rt2 = Ok cls \<and> obj \<noteq> cls \<and> rt_instance_class rt1 obj = None \<and> rt_retain_counts rt2 obj = Some 1 \<and>
    get_or_create_class name (rt2, c2) = ((rt2, c2), Ok (Some cls))"
proof -
  have inv1: "env_inv rt_inv sb (rt1, c1)" by (rule keepsD [OF get_or_create_keeps assms(1,2)])
  then have ok: "arena_ok (heap (cc_mem c1))" "objects_below rt1 (bump_cursor (heap (cc_mem c1)))" "names_agree rt1"
    by (simp_all add: env_inv_def rt_inv_def)
  have named: "rt_class_addr_by_name rt1 name = Some cls"
    using assms(2) by (cases rule: get_or_create_cases) (auto simp: register_class_def Let_def split: prod.splits)
  from assms(3) show ?thesis
  proof (cases rule: alloc_instance_cases)
    case (made obj' m m' i)
    then have obj: "obj' = obj" by simp
    obtain hp' where hp': "bump_alloc (heap (cc_mem c1)) OBJ_HEADER_SIZE 16 = Ok (obj, hp')"
      using made(2) obj by (auto simp: heap_alloc_def result_simps)
    note fresh = objects_below_fresh [OF ok(2) bump_alloc_advances(2) [OF ok(1) hp']]
    obtain j where "rt_class_index_by_addr rt1 cls = Some j" "j < length (rt_classes rt1)" "ci_name (rt_classes rt1 ! j) = name"
      using ok(3) named by (auto simp: names_agree_def)
    with made(1,4) obj named have "class_of obj rt2 = Ok cls"
      by (simp add: class_of_def class_name_def register_instance_def addr_or_nil_def)
    moreover have "get_or_create_class name (rt2, c2) = ((rt2, c2), Ok (Some cls))"
      using made(4) named by (simp add: get_or_create_class_def rt_query_def register_instance_def)
    ultimately show ?thesis using fresh made(1,4) obj by (auto simp: register_instance_def)
  qed simp_all
qed

theorem instance_knows_class_witness:
  "\<exists>rt1 c1 rt2 c2. get_or_create_class ''NSObject'' (objc_new, hle_context) = ((rt1, c1), Ok (Some 0x1000)) \<and>
     alloc_instance 0x1000 (rt1, c1) = ((rt2, c2), Ok (Some 0x1010)) \<and> class_of 0x1010 rt2 = Ok 0x1000"
proof -
  let ?m = "cc_mem hle_context"
  have al: "heap_alloc m OBJ_HEADER_SIZE 16 = Ok (0x1000, m\<lparr>heap := (heap m)\<lparr>bump_cursor := 0x1010\<rparr>\<rparr>)"
    if "heap m = heap ?m" for m
    using that by (simp add: heap_alloc_def bump_alloc_def hle_context_def align_up_def OBJ_HEADER_SIZE_def checked_add_def max_def Let_def word_le_nat_alt)
  have al2: "heap_alloc m OBJ_HEADER_SIZE 16 = Ok (0x1010, m\<lparr>heap := (heap m)\<lparr>bump_cursor := 0x1020\<rparr>\<rparr>)"
    if "heap m = (heap ?m)\<lparr>bump_cursor := 0x1010\<rparr>" for m
    using that by (simp add: heap_alloc_def bump_alloc_def hle_context_def align_up_def OBJ_HEADER_SIZE_def checked_add_def max_def Let_def word_le_nat_alt)
  have wfh: "mem_wf (m\<lparr>heap := hp\<rparr>)" if "mem_wf m" for m hp using that by (simp add: mem_wf_def)
  have other: "is_ok (mem_write (m\<lparr>heap := hp\<rparr>) a d) = is_ok (mem_write m a d)" if "mem_wf m" for m hp a d
    by (simp add: mem_write_ok_iff [OF that] mem_write_ok_iff [OF wfh [OF that]])
  let ?m1 = "?m\<lparr>heap := (heap ?m)\<lparr>bump_cursor := 0x1010\<rparr>\<rparr>"
  have wf1: "mem_wf ?m1" by (rule wfh [OF hle_context_ok(2)])
  have "is_ok (mem_write ?m 0x1000 (to_le_bytes (CLASS_MAGIC OR 0x1000)))" by (rule hle_context_access(2) [of _ 8]) simp_all
  then have "is_ok (write_u64 ?m1 0x1000 (CLASS_MAGIC OR 0x1000))" using other [OF hle_context_ok(2)] by (simp add: write_u64_def)
  then obtain m2 where m2: "write_u64 ?m1 0x1000 (CLASS_MAGIC OR 0x1000) = Ok m2" by (auto simp: is_ok_iff)
  have h2: "heap m2 = (heap ?m)\<lparr>bump_cursor := 0x1010\<rparr>" using heap_mem_write m2 by (fastforce simp: write_u64_def)
  let ?m3 = "m2\<lparr>heap := (heap m2)\<lparr>bump_cursor := 0x1020\<rparr>\<rparr>"
  have wf2: "mem_wf m2" using mem_wf_write [OF wf1] m2 by (simp add: write_u64_def)
  have "is_ok (mem_write ?m 0x1010 (to_le_bytes (0x1000 :: u64)))" by (rule hle_context_access(2) [of _ 8]) simp_all
  then have "is_ok (mem_write m2 0x1010 (to_le_bytes (0x1000 :: u64)))"
    using ms.wr_wr_ok [OF wf1 m2 [unfolded write_u64_def]] other [OF hle_context_ok(2)] by simp
  then have "is_ok (write_u64 ?m3 0x1010 0x1000)" using other [OF wf2] by (simp add: write_u64_def)
  then obtain m4 where m4: "write_u64 ?m3 0x1010 0x1000 = Ok m4" by (auto simp: is_ok_iff)
  let ?rt1 = "register_class ''NSObject'' 0x1000 objc_new" and ?c1 = "hle_context\<lparr>cc_mem := m2\<rparr>"
  have g: "get_or_create_class ''NSObject'' (objc_new, hle_context) = ((?rt1, ?c1), Ok (Some 0x1000))"
    using al [OF refl] m2
    by (simp add: get_or_create_class_def rt_query_def rt_update_def objc_new_def act_then_def call_mem_mut_def unit_mem_def)
  have ix: "rt_class_index_by_addr ?rt1 0x1000 = Some 0" by (simp add: register_class_def objc_new_def class_index_def)
  have a: "alloc_instance 0x1000 (?rt1, ?c1) = ((register_instance 0x1010 0 ?rt1, ?c1\<lparr>cc_mem := m4\<rparr>), Ok (Some 0x1010))"
    using al2 [OF h2] m4 ix
    by (simp add: alloc_instance_def rt_query_def rt_update_def act_then_def call_mem_mut_def unit_mem_def)
  from instance_knows_class [OF hle_context_ok(1) g a] g a show ?thesis by blast
qed

lemma call_simps:
  "act_then (call_arg 0) f (rt, c) = f (cpu_x (cc_cpu c) ! 0) (rt, c)"
  "act_then (call_arg 1) f (rt, c) = f (cpu_x (cc_cpu c) ! 1) (rt, c)"
  "act_then (call_arg 2) f (rt, c) = f (cpu_x (cc_cpu c) ! 2) (rt, c)"
  "ret_handled v (rt, c) = ((rt, c\<lparr>cc_cpu := cpu_set_ret v (cc_cpu c)\<rparr>), Ok Handled)"
  by (simp_all add: call_arg_def ret_handled_def call_ret_def act_then_def)

lemma copy_bytes_run:
  assumes "n \<le> isize_max"
  shows "copy_bytes dst src n (rt, c) =
    (case mem_read (cc_mem c) src n of
       Ok bs \<Rightarrow> (case mem_write (cc_mem c) dst bs of Ok m \<Rightarrow> ((rt, c\<lparr>cc_mem := m\<rparr>), Ok ()) | _ \<Rightarrow> ((rt, c), Ok ()))
     | _ \<Rightarrow> ((rt, c), Ok ()))"
proof (cases "mem_read (cc_mem c) src n")
  case (Ok bs)
  have "length bs = n" using Ok by (auto simp: mem_read_def result_simps split: if_splits)
  then have "mem_write (cc_mem c) dst bs \<noteq> Panic" using assms by (intro mem_write_no_panic) simp
  then show ?thesis using assms Ok
    by (cases "mem_write (cc_mem c) dst bs")
      (simp_all add: copy_bytes_def vec_zeroed_def call_mem_def call_mem_mut_def unit_mem_def act_then_def)
next
  case Panic
  have "mem_read (cc_mem c) src n \<noteq> Panic" using assms by (intro mem_read_no_panic) simp
  with Panic show ?thesis by simp
qed (use assms in \<open>simp add: copy_bytes_def vec_zeroed_def call_mem_def act_then_def\<close>)

text \<open>
  C21. \<open>memcpy\<close> and \<open>memmove\<close>: for any length a buffer can have the call returns its first argument; if the
  source can be read and the target written, the target ends up holding the bytes the source had before, also
  when the two overlap, and bytes outside the target are unchanged; otherwise memory is unchanged.
\<close>

theorem memcpy_moves:
  assumes "mem_wf (cc_mem c)" and "cpu_wf (cc_cpu c)" and "n = unat (cpu_x (cc_cpu c) ! 2)" and "n \<le> isize_max"
    and "dst = cpu_x (cc_cpu c) ! 0" and "src = cpu_x (cc_cpu c) ! 1"
  shows "\<exists>c'. memcpy (rt, c) = ((rt, c'), Ok Handled) \<and> cpu_x (cc_cpu c') ! 0 = dst \<and>
    (case mem_read (cc_mem c) src n of
       Ok bs \<Rightarrow> if is_ok (mem_write (cc_mem c) dst bs)
         then (is_ok (mem_read (cc_mem c) dst n) \<longrightarrow> mem_read (cc_mem c') dst n = Ok bs) \<and>
           (\<forall>b k. ranges_apart dst n b k \<longrightarrow> mem_read (cc_mem c') b k = mem_read (cc_mem c) b k)
         else cc_mem c' = cc_mem c
     | _ \<Rightarrow> cc_mem c' = cc_mem c)"
proof -
  have ret: "cpu_x (cpu_set_ret v (cc_cpu c)) ! 0 = v" for v using assms(2) by (simp add: cpu_set_ret_def cpu_wf_def)
  have run: "memcpy (rt, c) = act_then (copy_bytes dst src n) (\<lambda>_. ret_handled dst) (rt, c)"
    by (simp only: memcpy_def call_simps assms(3,5,6))
  show ?thesis
  proof (cases "mem_read (cc_mem c) src n")
    case (Ok bs)
    have len: "length bs = n" using Ok by (auto simp: mem_read_def result_simps split: if_splits)
    show ?thesis
    proof (cases "mem_write (cc_mem c) dst bs")
      case wr: (Ok m)
      have "memcpy (rt, c) = ((rt, c\<lparr>cc_mem := m, cc_cpu := cpu_set_ret dst (cc_cpu c)\<rparr>), Ok Handled)"
        unfolding run by (simp add: act_then_def copy_bytes_run [OF assms(4)] Ok wr call_simps)
      moreover note ms.rd_wr_same [OF assms(1) wr] ms.rd_wr_apart [OF assms(1) wr]
      ultimately show ?thesis using Ok wr ret len by auto
    qed (use Ok ret in \<open>simp_all add: run act_then_def copy_bytes_run [OF assms(4)] call_simps\<close>)
  qed (use ret in \<open>simp_all add: run act_then_def copy_bytes_run [OF assms(4)] call_simps\<close>)
qed

theorem memcpy_moves_witness:
  "\<exists>c' bs. memcpy (objc_new, hle_context) = ((objc_new, c'), Ok Handled) \<and>
     mem_read (cc_mem hle_context) 0x1000 16 = Ok bs \<and> mem_read (cc_mem c') 0x1020 16 = Ok bs"
proof -
  obtain bs where bs: "mem_read (cc_mem hle_context) 0x1000 16 = Ok bs"
    using hle_context_access(1) [of "0x1000" 16] by (auto simp: is_ok_iff)
  then have len: "length bs = 16" by (auto simp: mem_read_def result_simps split: if_splits)
  have acc: "is_ok (mem_read (cc_mem hle_context) 0x1020 16)" "is_ok (mem_write (cc_mem hle_context) 0x1020 bs)"
    using hle_context_access [of "0x1020" 16] len by simp_all
  have regs: "cpu_wf (cc_cpu hle_context)" "cpu_x (cc_cpu hle_context) ! 0 = 0x1020" "cpu_x (cc_cpu hle_context) ! 1 = 0x1000"
    "unat (cpu_x (cc_cpu hle_context) ! 2) = 16"
    by (simp_all add: hle_context_def cpu_wf_def)
  from memcpy_moves [OF hle_context_ok(2) regs(1), of 16 "0x1020" "0x1000" objc_new] regs bs acc show ?thesis by auto
qed

end
