(* ===== verification/Machine.thy ===== *)
theory Machine
  imports Host_Env Syscall Process_Loader
begin

text \<open>
  \<open>core/src/machine.rs\<close>: the guest process and the execute/dispatch loop.  The executor and the library
  environment are parameters, as they are trait objects in the source.  One turn of the loop is \<open>run_turn\<close>;
  the loop itself may run forever and is a partial function whose value \<open>None\<close> means that it does.
\<close>

section \<open>Configuration\<close>

record machine_config =
  cfg_heap_base :: guest_addr
  cfg_heap_size :: u64
  cfg_stack_top :: guest_addr
  cfg_stack_size :: u64
  cfg_trampoline_base :: guest_addr
  cfg_slide :: u64

definition config_default :: machine_config where
  "config_default =
     \<lparr>cfg_heap_base = 0x120000000, cfg_heap_size = 64 * 1024 * 1024, cfg_stack_top = 0x1C0000000,
      cfg_stack_size = 8 * 1024 * 1024, cfg_trampoline_base = 0x500000000, cfg_slide = 0\<rparr>"

record process_exit =
  exit_code :: i32

section \<open>The process\<close>

record ('w, 'f, 'e) machine =
  mc_cpu :: cpu_context
  mc_mem :: guest_memory
  mc_vfs :: sandbox
  mc_fds :: "'f fd_table"
  mc_dispatcher :: dispatcher
  mc_env :: 'e
  mc_trampolines :: trampoline_table
  mc_tramp_range :: "u64 \<times> u64"
  mc_symbol_stubs :: "string \<rightharpoonup> u64"
  mc_lazy_binds :: "u64 \<rightharpoonup> string \<times> guest_addr"
  mc_exit :: "i32 option"
  mc_init_funcs :: "guest_addr list"
  mc_entry :: guest_addr
  mc_arg_regs :: "u64 \<times> u64 \<times> u64 \<times> u64"
  mc_sp :: u64
  mc_world :: 'w

text \<open>
  Where the image, the trampolines and the stack go: as configured on the host; on the device each is a
  reservation of the C backend, made in this order.
\<close>

definition TRAMPOLINE_RESERVE :: u64 where
  "TRAMPOLINE_RESERVE = 0x100000"

definition place_host :: "machine_config \<Rightarrow> u64 \<times> guest_addr \<times> guest_addr" where
  "place_host cfg = (cfg_slide cfg, cfg_trampoline_base cfg, cfg_stack_top cfg)"

definition place_device ::
    "('n \<Rightarrow> u64 \<Rightarrow> 'n \<times> u64) \<Rightarrow> 'n \<Rightarrow> machine_config \<Rightarrow> macho_image \<Rightarrow> 'n \<times> (u64 \<times> guest_addr \<times> guest_addr) emu_result" where
  "place_device map_region n cfg img =
     (case reserve_image_and_slide map_region n img of
        (n, Ok (_, slide)) \<Rightarrow>
          (case reserve_native_region map_region n TRAMPOLINE_RESERVE of
             (n, Ok trampoline_base) \<Rightarrow>
               (let (n, r) = reserve_native_region map_region n (cfg_stack_size cfg)
                in (n, and_then r (\<lambda>base. Ok (slide, trampoline_base, base + cfg_stack_size cfg))))
           | (n, Err e) \<Rightarrow> (n, Err e)
           | (n, Panic) \<Rightarrow> (n, Panic))
      | (n, Err e) \<Rightarrow> (n, Err e)
      | (n, Panic) \<Rightarrow> (n, Panic))"

definition machine_layout :: "machine_config \<Rightarrow> u64 \<times> guest_addr \<times> guest_addr \<Rightarrow> sandbox \<Rightarrow> layout_config" where
  "machine_layout cfg place vfs =
     (case place of (slide, trampoline_base, stack_top) \<Rightarrow>
        \<lparr>lc_slide = slide, lc_stack_top = stack_top, lc_stack_size = cfg_stack_size cfg, lc_trampoline_base = trampoline_base,
         lc_trampoline_stride = 16, lc_argv0 = bundle_ios_path vfs @ ''/Executable''\<rparr>)"

definition machine_of ::
    "process_image \<Rightarrow> guest_memory \<Rightarrow> sandbox \<Rightarrow> 'e \<Rightarrow> 'w \<Rightarrow> ('w, 'f, 'e) machine" where
  "machine_of p mem vfs env world =
     \<lparr>mc_cpu = cpu_entry (pi_entry p) (pi_sp p) (pi_arg_regs p), mc_mem = mem, mc_vfs = vfs, mc_fds = fd_default,
      mc_dispatcher = dispatcher_new, mc_env = env, mc_trampolines = pi_trampolines p,
      mc_tramp_range = (pi_trampoline_base p, pi_trampoline_end p), mc_symbol_stubs = pi_symbol_stubs p,
      mc_lazy_binds = pi_lazy_binds p, mc_exit = None, mc_init_funcs = pi_init_funcs p, mc_entry = pi_entry p,
      mc_arg_regs = pi_arg_regs p, mc_sp = pi_sp p, mc_world = world\<rparr>"

definition load :: "machine_config \<Rightarrow> u8 list \<Rightarrow> sandbox \<Rightarrow> 'e \<Rightarrow> 'w \<Rightarrow> ('w, 'f, 'e) machine emu_result" where
  "load cfg bytes vfs env world =
     and_then (macho_parse bytes) (\<lambda>img.
     and_then (mem_new (cfg_heap_base cfg) (cfg_heap_size cfg)) (\<lambda>mem.
     and_then (build_process img bytes (machine_layout cfg (place_host cfg) vfs) mem) (\<lambda>(p, mem).
     Ok (machine_of p mem vfs env world))))"

definition load_bare :: "machine_config \<Rightarrow> u8 list \<Rightarrow> sandbox \<Rightarrow> 'w \<Rightarrow> ('w, 'f, unit) machine emu_result" where
  "load_bare cfg bytes vfs world = load cfg bytes vfs () world"

definition is_trampoline :: "('w, 'f, 'e) machine \<Rightarrow> guest_addr \<Rightarrow> bool" where
  "is_trampoline mc addr \<longleftrightarrow> fst (mc_tramp_range mc) \<le> addr \<and> addr < snd (mc_tramp_range mc)"

section \<open>Servicing events\<close>

text \<open>The parts of the process that a call borrows, and putting them back.\<close>

definition machine_call :: "('w, 'e, 'a) env_act \<Rightarrow> ('w, 'f, 'e) machine \<Rightarrow> (('w, 'f, 'e) machine \<times> 'a, unit) rust_result" where
  "machine_call call mc =
     (case call (mc_env mc, \<lparr>cc_cpu = mc_cpu mc, cc_mem = mc_mem mc, cc_vfs = mc_vfs mc, cc_world = mc_world mc\<rparr>) of
        ((env, c), Ok x) \<Rightarrow> Ok (mc\<lparr>mc_env := env, mc_cpu := cc_cpu c, mc_mem := cc_mem c, mc_world := cc_world c\<rparr>, x)
      | (_, Err e) \<Rightarrow> Err e
      | (_, Panic) \<Rightarrow> Panic)"

definition start_environment ::
    "('w, 'e) host_environment \<Rightarrow> ('w, 'f, 'e) machine \<Rightarrow> (('w, 'f, 'e) machine, unit) rust_result" where
  "start_environment E mc = and_then (machine_call (env_on_process_start E) mc) (\<lambda>(mc, _). Ok mc)"

definition service_syscall :: "('w, 'f) host \<Rightarrow> ('w, 'f, 'e) machine \<Rightarrow> (('w, 'f, 'e) machine, unit) rust_result" where
  "service_syscall h mc =
     and_then (dispatch h (mc_dispatcher mc)
       \<lparr>sc_cpu = mc_cpu mc, sc_mem = mc_mem mc, sc_vfs = mc_vfs mc, sc_fds = mc_fds mc, sc_exit = mc_exit mc,
        sc_world = mc_world mc\<rparr>) (\<lambda>(d, c).
     Ok (mc\<lparr>mc_dispatcher := d, mc_cpu := sc_cpu c, mc_mem := sc_mem c, mc_fds := sc_fds c, mc_exit := sc_exit c,
            mc_world := sc_world c\<rparr>))"

definition return_to_caller :: "('w, 'f, 'e) machine \<Rightarrow> ('w, 'f, 'e) machine" where
  "return_to_caller mc = mc\<lparr>mc_cpu := (mc_cpu mc)\<lparr>cpu_pc := cpu_lr (mc_cpu mc)\<rparr>\<rparr>"

definition dyld_stub_binder :: "('w, 'f, 'e) machine \<Rightarrow> (('w, 'f, 'e) machine, unit) rust_result" where
  "dyld_stub_binder mc =
     (let sp = cpu_sp (mc_cpu mc)
      in case read_u64 (mc_mem mc) sp of
           Panic \<Rightarrow> Panic
         | Err _ \<Rightarrow> Ok (return_to_caller mc)
         | Ok v \<Rightarrow>
             (case mc_lazy_binds mc (v AND 0xffffffff) of
                None \<Rightarrow> Ok (return_to_caller mc)
              | Some (symbol, la_ptr) \<Rightarrow>
                  (case mc_symbol_stubs mc symbol of
                     None \<Rightarrow> Ok (return_to_caller mc)
                   | Some resolved \<Rightarrow>
                       and_then
                         (case write_u64 (mc_mem mc) la_ptr resolved of
                            Ok m \<Rightarrow> (case commit_to_native m la_ptr of Panic \<Rightarrow> Panic | _ \<Rightarrow> Ok m)
                          | Err _ \<Rightarrow> Ok (mc_mem mc)
                          | Panic \<Rightarrow> Panic) (\<lambda>m.
                       Ok (mc\<lparr>mc_mem := m, mc_cpu := (mc_cpu mc)\<lparr>cpu_sp := sp + 16, cpu_pc := resolved\<rparr>\<rparr>)))))"

definition service_trampoline ::
    "('w, 'e) host_environment \<Rightarrow> guest_addr \<Rightarrow> ('w, 'f, 'e) machine \<Rightarrow> (('w, 'f, 'e) machine, unit) rust_result" where
  "service_trampoline E addr mc =
     (case mc_trampolines mc addr of
        None \<Rightarrow> Ok (return_to_caller mc)
      | Some symbol \<Rightarrow>
          if symbol = ''dyld_stub_binder'' then dyld_stub_binder mc
          else
            and_then (machine_call (env_call E symbol) mc) (\<lambda>(mc, disp).
            Ok (return_to_caller
                 (if disp = Unhandled then mc\<lparr>mc_cpu := cpu_set_ret 0 (mc_cpu mc)\<rparr> else mc))))"

definition reset_to_entry :: "('w, 'f, 'e) machine \<Rightarrow> ('w, 'f, 'e) machine" where
  "reset_to_entry mc = mc\<lparr>mc_cpu := cpu_entry (mc_entry mc) (mc_sp mc) (mc_arg_regs mc)\<rparr>"

section \<open>The run loop\<close>

type_synonym ('w, 'f, 'e, 'x) run_state = "'x \<times> ('w, 'f, 'e) machine"

text \<open>One turn: the state it leaves and, when the loop ends there, the result of \<open>run\<close>.\<close>

definition run_turn ::
    "('w, 'f) host \<Rightarrow> ('w, 'e) host_environment \<Rightarrow> ('x \<Rightarrow> cpu_context \<Rightarrow> 'x \<times> cpu_context \<times> exec_event) \<Rightarrow>
     ('w, 'f, 'e, 'x) run_state \<Rightarrow> ('w, 'f, 'e, 'x) run_state \<times> process_exit emu_result option" where
  "run_turn h E resume s =
     (let (x, mc) = s; (x, cpu, event) = resume x (mc_cpu mc); mc = mc\<lparr>mc_cpu := cpu\<rparr>
      in case event of
           Syscall _ \<Rightarrow>
             (case service_syscall h mc of
                Ok mc \<Rightarrow> ((x, mc), map_option (\<lambda>code. Ok \<lparr>exit_code = code\<rparr>) (mc_exit mc))
              | _ \<Rightarrow> ((x, mc), Some Panic))
         | TrampolineCall addr \<Rightarrow>
             (case service_trampoline E addr mc of
                Ok mc \<Rightarrow> ((x, mc), None)
              | _ \<Rightarrow> ((x, mc), Some Panic))
         | Exited code \<Rightarrow> ((x, mc), Some (Ok \<lparr>exit_code = code\<rparr>))
         | Breakpoint _ \<Rightarrow> ((x, mc), Some (Ok \<lparr>exit_code = 128 + 5\<rparr>))
         | Fault pc reason \<Rightarrow> ((x, mc), Some (Err (Memory pc reason))))"

partial_function (option) run ::
    "('w, 'f) host \<Rightarrow> ('w, 'e) host_environment \<Rightarrow> ('x \<Rightarrow> cpu_context \<Rightarrow> 'x \<times> cpu_context \<times> exec_event) \<Rightarrow>
     ('w, 'f, 'e, 'x) run_state \<Rightarrow> (('w, 'f, 'e, 'x) run_state \<times> process_exit emu_result) option" where
  "run h E resume s =
     (case run_turn h E resume s of
        (s', None) \<Rightarrow> run h E resume s'
      | (s', Some r) \<Rightarrow> Some (s', r))"

end
