(* ===== verification/Machine_Run.thy ===== *)
theory Machine_Run
  imports Machine Loader_Relocation
begin

text \<open>
  The run loop: its turns, the life of a guest process as a step relation of its own (which events keep it going,
  which end it, and with what result) and that the loop computes it, the invariant of the process along the
  turns, and what the lazy-binding trampoline does.
\<close>

section \<open>The loop and its turns\<close>

inductive machine_step ::
  "('w, 'f) host \<Rightarrow> ('w, 'e) host_environment \<Rightarrow> ('x \<Rightarrow> cpu_context \<Rightarrow> 'x \<times> cpu_context \<times> exec_event) \<Rightarrow>
   ('w, 'f, 'e, 'x) run_state \<Rightarrow> ('w, 'f, 'e, 'x) run_state \<Rightarrow> bool"
  for h E resume where
  turn: "run_turn h E resume s = (s', None) \<Longrightarrow> machine_step h E resume s s'"

inductive_cases machine_stepE: "machine_step h E resume s s'"

inductive machine_steps ::
  "('w, 'f) host \<Rightarrow> ('w, 'e) host_environment \<Rightarrow> ('x \<Rightarrow> cpu_context \<Rightarrow> 'x \<times> cpu_context \<times> exec_event) \<Rightarrow>
   ('w, 'f, 'e, 'x) run_state \<Rightarrow> ('w, 'f, 'e, 'x) run_state \<Rightarrow> bool"
  for h E resume where
  stay: "machine_steps h E resume s s"
| go: "machine_step h E resume s t \<Longrightarrow> machine_steps h E resume t u \<Longrightarrow> machine_steps h E resume s u"

lemma run_unfold:
  "run_turn h E resume s = (s', None) \<Longrightarrow> run h E resume s = run h E resume s'"
  "run_turn h E resume s = (s', Some r) \<Longrightarrow> run h E resume s = Some (s', r)"
  by (simp_all add: run.simps [of h E resume s])

lemma run_follows_steps:
  "machine_steps h E resume s t \<Longrightarrow> run_turn h E resume t = (s', Some r) \<Longrightarrow> run h E resume s = Some (s', r)"
  by (induction rule: machine_steps.induct) (auto simp: run_unfold elim!: machine_stepE)

lemma run_stops:
  assumes "run h E resume s = Some res"
  shows "\<exists>t. machine_steps h E resume s t \<and> run_turn h E resume t = (fst res, Some (snd res))"
proof (rule run.raw_induct [of "\<lambda>h E resume s res. \<exists>t. machine_steps h E resume s t \<and> run_turn h E resume t = (fst res, Some (snd res))", OF _ assms])
  fix f h E resume s res
  assume ih: "\<And>h E resume s res. f h E resume s = Some res \<Longrightarrow>
      \<exists>t. machine_steps h E resume s t \<and> run_turn h E resume t = (fst res, Some (snd res))"
    and eq: "(case run_turn h E resume s of (s', None) \<Rightarrow> f h E resume s' | (s', Some r) \<Rightarrow> Some (s', r)) = Some res"
  obtain s' o' where turn: "run_turn h E resume s = (s', o')" by (cases "run_turn h E resume s")
  show "\<exists>t. machine_steps h E resume s t \<and> run_turn h E resume t = (fst res, Some (snd res))"
  proof (cases o')
    case None
    with eq turn ih obtain t where "machine_steps h E resume s' t" "run_turn h E resume t = (fst res, Some (snd res))"
      by fastforce
    moreover have "machine_step h E resume s s'" using turn None by (simp add: machine_step.turn)
    ultimately show ?thesis by (blast intro: machine_steps.go)
  next
    case (Some r)
    with eq turn have "run_turn h E resume s = (fst res, Some (snd res))" by auto
    then show ?thesis by (blast intro: machine_steps.stay)
  qed
qed

section \<open>The invariant of the process\<close>

definition machine_wf :: "('e \<Rightarrow> bump_allocator \<Rightarrow> bool) \<Rightarrow> ('w, 'f, 'e) machine \<Rightarrow> bool" where
  "machine_wf J mc \<longleftrightarrow> cpu_wf (mc_cpu mc) \<and> mem_wf (mc_mem mc) \<and> fd_wf (mc_fds mc) \<and> J (mc_env mc) (heap (mc_mem mc))"

lemma machine_call_keeps:
  assumes "\<And>sb. keeps (env_inv J sb) call" and "machine_wf J mc" and "machine_call call mc = Ok (mc', v)"
  shows "machine_wf J mc'" and "mc_vfs mc' = mc_vfs mc" and "mc_fds mc' = mc_fds mc"
proof -
  let ?c = "\<lparr>cc_cpu = mc_cpu mc, cc_mem = mc_mem mc, cc_vfs = mc_vfs mc, cc_world = mc_world mc\<rparr>"
  obtain env c where run: "call (mc_env mc, ?c) = ((env, c), Ok v)"
    "mc' = mc\<lparr>mc_env := env, mc_cpu := cc_cpu c, mc_mem := cc_mem c, mc_world := cc_world c\<rparr>"
    using assms(3) by (auto simp: machine_call_def split: prod.splits rust_result.splits)
  have "env_inv J (mc_vfs mc) (mc_env mc, ?c)" using assms(2) by (simp add: env_inv_def guest_ok_def machine_wf_def)
  from keepsD [OF assms(1) this run(1)] show "machine_wf J mc'" "mc_vfs mc' = mc_vfs mc" "mc_fds mc' = mc_fds mc"
    using assms(2) run(2) by (simp_all add: env_inv_def guest_ok_def machine_wf_def)
qed

lemma machine_wf_cpu [simp]:
  "machine_wf J (return_to_caller mc) = machine_wf J mc"
  "machine_wf J (mc\<lparr>mc_cpu := cpu_set_ret v (mc_cpu mc)\<rparr>) = machine_wf J mc"
  by (simp_all add: machine_wf_def return_to_caller_def)

lemma stub_binder_keeps:
  assumes "machine_wf J mc" and "dyld_stub_binder mc = Ok mc'"
  shows "machine_wf J mc'"
proof -
  have mem: "mem_wf m \<and> heap m = heap (mc_mem mc)" if "write_u64 (mc_mem mc) a v = Ok m" for a v m
    using mem_wf_write [of "mc_mem mc" a "to_le_bytes v" m] heap_mem_write that assms(1) by (auto simp: write_u64_def machine_wf_def)
  show ?thesis
    using assms
    by (auto simp: dyld_stub_binder_def Let_def machine_wf_def return_to_caller_def dest: mem
        split: rust_result.splits option.splits prod.splits)
qed

lemma service_syscall_keeps:
  assumes "machine_wf J mc" and "service_syscall h mc = Ok mc'"
  shows "machine_wf J mc'"
proof -
  let ?c = "\<lparr>sc_cpu = mc_cpu mc, sc_mem = mc_mem mc, sc_vfs = mc_vfs mc, sc_fds = mc_fds mc, sc_exit = mc_exit mc,
        sc_world = mc_world mc\<rparr>"
  obtain d c where run: "dispatch h (mc_dispatcher mc) ?c = Ok (d, c)"
    "mc' = mc\<lparr>mc_dispatcher := d, mc_cpu := sc_cpu c, mc_mem := sc_mem c, mc_fds := sc_fds c, mc_exit := sc_exit c,
            mc_world := sc_world c\<rparr>"
    using assms(2) by (auto simp: service_syscall_def result_simps)
  have "ctx_wf ?c" using assms(1) by (simp add: ctx_wf_def machine_wf_def)
  from dispatch_keeps [OF this run(1)] dispatch_heap [OF run(1)] show ?thesis using assms(1) run(2) by (simp add: ctx_wf_def machine_wf_def)
qed

text \<open>The loop with an executor and an environment that honour their contracts.\<close>

locale run_loop = executor resume exec_ok + host_env E J
  for resume :: "'x \<Rightarrow> cpu_context \<Rightarrow> 'x \<times> cpu_context \<times> exec_event" and exec_ok :: "'x \<Rightarrow> bool"
    and E :: "('w, 'e) host_environment" and J :: "'e \<Rightarrow> bump_allocator \<Rightarrow> bool"
begin

lemma service_trampoline_keeps:
  assumes "machine_wf J mc" and "service_trampoline E addr mc = Ok mc'"
  shows "machine_wf J mc'"
proof -
  have "machine_wf J mc1" if "machine_call (env_call E symbol) mc = Ok (mc1, v)" for symbol mc1 v
    by (rule machine_call_keeps(1) [OF call_keeps assms(1) that])
  then show ?thesis
    using assms stub_binder_keeps [OF assms(1)]
    by (auto simp: service_trampoline_def result_simps split: option.splits if_splits)
qed

lemma run_turn_keeps:
  assumes "exec_ok (fst s)" and "machine_wf J (snd s)" and "run_turn h E resume s = (s', res)"
  shows "exec_ok (fst s') \<and> machine_wf J (snd s')"
proof -
  obtain x mc where s: "s = (x, mc)" by force
  obtain x1 cpu ev where r: "resume x (mc_cpu mc) = (x1, cpu, ev)" by (metis prod_cases3)
  let ?mc = "mc\<lparr>mc_cpu := cpu\<rparr>"
  have ok: "exec_ok x1" "machine_wf J ?mc"
    using resume_wf [OF _ _ r] assms(1,2) s by (simp_all add: machine_wf_def)
  show ?thesis
    using assms(3) ok service_syscall_keeps [OF ok(2), of h] service_trampoline_keeps [OF ok(2)]
    by (cases ev) (auto simp: run_turn_def Let_def s r split: rust_result.splits)
qed

lemma steps_keep:
  "machine_steps h E resume s t \<Longrightarrow> exec_ok (fst s) \<Longrightarrow> machine_wf J (snd s) \<Longrightarrow> exec_ok (fst t) \<and> machine_wf J (snd t)"
proof (induction rule: machine_steps.induct)
  case (go s t u)
  from go.hyps(1) have "run_turn h E resume s = (t, None)" by (rule machine_stepE)
  from run_turn_keeps [OF go.prems this] go.IH show ?case by blast
qed blast

lemma run_keeps:
  assumes "exec_ok (fst s)" and "machine_wf J (snd s)" and "run h E resume s = Some (s', r)"
  shows "machine_wf J (snd s')"
proof -
  obtain t where t: "machine_steps h E resume s t" "run_turn h E resume t = (s', Some r)"
    using run_stops [OF assms(3)] by auto
  from steps_keep [OF t(1) assms(1,2)] run_turn_keeps [OF _ _ t(2)] show ?thesis by blast
qed

end

interpretation scripted_null: run_loop scripted_resume "\<lambda>_. True" null_environment "\<lambda>_ _. True"
  by unfold_locales

section \<open>The life of a guest process\<close>

text \<open>
  The rules read the event the executor reports and the registers it leaves.  A system call other than
  \<open>exit\<close> and a call of an imported function are serviced and the process goes on.
\<close>

inductive guest_step ::
  "('w, 'f) host \<Rightarrow> ('w, 'e) host_environment \<Rightarrow> ('x \<Rightarrow> cpu_context \<Rightarrow> 'x \<times> cpu_context \<times> exec_event) \<Rightarrow>
   ('w, 'f, 'e, 'x) run_state \<Rightarrow> ('w, 'f, 'e, 'x) run_state \<Rightarrow> bool"
  for h E resume where
  call: "resume x (mc_cpu mc) = (x', cpu, Syscall imm) \<Longrightarrow> \<not> exit_call cpu \<Longrightarrow>
    service_syscall h (mc\<lparr>mc_cpu := cpu\<rparr>) = Ok mc' \<Longrightarrow> guest_step h E resume (x, mc) (x', mc')"
| import: "resume x (mc_cpu mc) = (x', cpu, TrampolineCall addr) \<Longrightarrow>
    service_trampoline E addr (mc\<lparr>mc_cpu := cpu\<rparr>) = Ok mc' \<Longrightarrow> guest_step h E resume (x, mc) (x', mc')"

text \<open>
  The process ends with the low 32 bits of \<open>x0\<close> at an \<open>exit\<close> call, with the code the executor reports, with
  \<open>128 + SIGTRAP\<close> at a breakpoint, with an error at a fault, and aborts when servicing a call does (no service returns an error).
\<close>

inductive guest_ends ::
  "('w, 'f) host \<Rightarrow> ('w, 'e) host_environment \<Rightarrow> ('x \<Rightarrow> cpu_context \<Rightarrow> 'x \<times> cpu_context \<times> exec_event) \<Rightarrow>
   ('w, 'f, 'e, 'x) run_state \<Rightarrow> process_exit emu_result \<Rightarrow> bool"
  for h E resume where
  exit_call: "resume x (mc_cpu mc) = (x', cpu, Syscall imm) \<Longrightarrow> exit_call cpu \<Longrightarrow>
    guest_ends h E resume (x, mc) (Ok \<lparr>exit_code = ucast (cpu_x cpu ! 0)\<rparr>)"
| exited: "resume x (mc_cpu mc) = (x', cpu, Exited code) \<Longrightarrow> guest_ends h E resume (x, mc) (Ok \<lparr>exit_code = code\<rparr>)"
| breakpoint: "resume x (mc_cpu mc) = (x', cpu, Breakpoint imm) \<Longrightarrow> guest_ends h E resume (x, mc) (Ok \<lparr>exit_code = 133\<rparr>)"
| fault: "resume x (mc_cpu mc) = (x', cpu, Fault pc reason) \<Longrightarrow> guest_ends h E resume (x, mc) (Err (Memory pc reason))"
| call_aborts: "resume x (mc_cpu mc) = (x', cpu, Syscall imm) \<Longrightarrow> \<not> exit_call cpu \<Longrightarrow>
    \<not> is_ok (service_syscall h (mc\<lparr>mc_cpu := cpu\<rparr>)) \<Longrightarrow> guest_ends h E resume (x, mc) Panic"
| import_aborts: "resume x (mc_cpu mc) = (x', cpu, TrampolineCall addr) \<Longrightarrow>
    \<not> is_ok (service_trampoline E addr (mc\<lparr>mc_cpu := cpu\<rparr>)) \<Longrightarrow> guest_ends h E resume (x, mc) Panic"

inductive_simps guest_step_iff: "guest_step h E resume (x, mc) s'"
inductive_simps guest_ends_iff: "guest_ends h E resume (x, mc) r"

text \<open>The exit code is the trace of an \<open>exit\<close> call and of nothing else.\<close>

lemma service_syscall_exit:
  "exit_call (mc_cpu mc) \<Longrightarrow>
     \<exists>mc'. service_syscall h mc = Ok mc' \<and> mc_exit mc' = Some (ucast (cpu_x (mc_cpu mc) ! 0))"
  "\<not> exit_call (mc_cpu mc) \<Longrightarrow> service_syscall h mc = Ok mc' \<Longrightarrow> mc_exit mc' = mc_exit mc"
proof -
  let ?c = "\<lparr>sc_cpu = mc_cpu mc, sc_mem = mc_mem mc, sc_vfs = mc_vfs mc, sc_fds = mc_fds mc, sc_exit = mc_exit mc,
        sc_world = mc_world mc\<rparr>"
  show "\<exists>mc'. service_syscall h mc = Ok mc' \<and> mc_exit mc' = Some (ucast (cpu_x (mc_cpu mc) ! 0))"
    if "exit_call (mc_cpu mc)"
  proof -
    have "exit_call (sc_cpu ?c)" using that by simp
    then obtain d' c' where "dispatch h (mc_dispatcher mc) ?c = Ok (d', c')" "sc_exit c' = Some (ucast (cpu_x (sc_cpu ?c) ! 0))"
      by (rule dispatch_exit)
    then show ?thesis by (simp add: service_syscall_def)
  qed
  show "mc_exit mc' = mc_exit mc" if "\<not> exit_call (mc_cpu mc)" "service_syscall h mc = Ok mc'"
    using that dispatch_no_exit [of ?c h "mc_dispatcher mc"] by (auto simp: service_syscall_def result_simps)
qed

lemma service_trampoline_exit: "service_trampoline E addr mc = Ok mc' \<Longrightarrow> mc_exit mc' = mc_exit mc"
  by (auto simp: service_trampoline_def dyld_stub_binder_def machine_call_def return_to_caller_def Let_def result_simps
      split: option.splits if_splits prod.splits rust_result.splits)

lemma turn_goes_on:
  assumes "mc_exit (snd s) = None"
  shows "run_turn h E resume s = (s', None) \<longleftrightarrow> guest_step h E resume s s'"
    and "guest_step h E resume s s' \<Longrightarrow> mc_exit (snd s') = None"
    and "(\<exists>s'. run_turn h E resume s = (s', Some r)) \<longleftrightarrow> guest_ends h E resume s r"
proof -
  obtain x mc where s: "s = (x, mc)" by force
  obtain x1 cpu ev where r: "resume x (mc_cpu mc) = (x1, cpu, ev)" by (metis prod_cases3)
  let ?mc = "mc\<lparr>mc_cpu := cpu\<rparr>"
  have sys: "exit_call cpu \<Longrightarrow> \<exists>mc'. service_syscall h ?mc = Ok mc' \<and> mc_exit mc' = Some (ucast (cpu_x cpu ! 0))"
    "\<not> exit_call cpu \<Longrightarrow> service_syscall h ?mc = Ok mc' \<Longrightarrow> mc_exit mc' = None" for mc'
    using service_syscall_exit [of ?mc h] assms s by auto
  have tramp: "service_trampoline E addr ?mc = Ok mc' \<Longrightarrow> mc_exit mc' = None" for addr mc'
    using service_trampoline_exit [of E addr ?mc] assms s by auto
  show "guest_step h E resume s s' \<Longrightarrow> mc_exit (snd s') = None"
    using sys(2) tramp by (auto simp: s r guest_step_iff)
  show "run_turn h E resume s = (s', None) \<longleftrightarrow> guest_step h E resume s s'"
    using sys by (cases ev) (auto simp: s r run_turn_def Let_def guest_step_iff split: rust_result.splits)
  show "(\<exists>s'. run_turn h E resume s = (s', Some r)) \<longleftrightarrow> guest_ends h E resume s r"
    using sys by (cases ev; cases "exit_call cpu") (auto simp: s r run_turn_def Let_def guest_ends_iff is_ok_iff split: rust_result.splits)
qed

lemma steps_guest:
  assumes "mc_exit (snd s) = None"
  shows "machine_steps h E resume s t \<longleftrightarrow> rtranclp (guest_step h E resume) s t"
proof
  assume "machine_steps h E resume s t"
  then show "rtranclp (guest_step h E resume) s t"
    using assms
  proof (induction rule: machine_steps.induct)
    case (go s t u)
    from go.hyps(1) have "run_turn h E resume s = (t, None)" by (rule machine_stepE)
    with turn_goes_on(1,2) [OF go.prems] have "guest_step h E resume s t" "mc_exit (snd t) = None" by simp_all
    with go.IH show ?case by (blast intro: converse_rtranclp_into_rtranclp)
  qed blast
next
  assume "rtranclp (guest_step h E resume) s t"
  then show "machine_steps h E resume s t"
    using assms
  proof (induction rule: converse_rtranclp_induct)
    case base
    show ?case by (rule machine_steps.stay)
  next
    case (step s u)
    with turn_goes_on(1,2) [OF step.prems] have "run_turn h E resume s = (u, None)" "mc_exit (snd u) = None" by simp_all
    with step.IH show ?case by (blast intro: machine_steps.go machine_step.turn)
  qed
qed

lemma guest_steps_exit:
  "rtranclp (guest_step h E resume) s t \<Longrightarrow> mc_exit (snd s) = None \<Longrightarrow> mc_exit (snd t) = None"
  by (induction rule: rtranclp_induct) (simp_all add: turn_goes_on(2))

section \<open>Properties\<close>

text \<open>
  C15. The loop runs the guest process.  For a process that has not exited, \<open>run\<close> returns a result exactly when finitely many
  serviced calls lead to an event that ends the process with that result: an \<open>exit\<close> call, with the low
  32 bits of its argument as the code; an exit the executor reports; a breakpoint, with code 133; a fault, as a
  memory error; or a call whose service aborts.  It runs forever exactly when no such event is ever reached:
  every state the process comes to has a next one.
\<close>

theorem run_guest_process:
  assumes "mc_exit (snd s) = None"
  shows "((\<exists>s'. run h E resume s = Some (s', r)) \<longleftrightarrow>
      (\<exists>t. rtranclp (guest_step h E resume) s t \<and> guest_ends h E resume t r)) \<and>
    (run h E resume s = None \<longleftrightarrow>
      (\<forall>t. rtranclp (guest_step h E resume) s t \<longrightarrow> (\<exists>u. guest_step h E resume t u)))"
proof -
  have run: "run h E resume s = Some (s', r) \<longleftrightarrow> (\<exists>t. machine_steps h E resume s t \<and> run_turn h E resume t = (s', Some r))" for s' r
    using run_follows_steps [of h E resume s] run_stops [of h E resume s "(s', r)"] by (metis fst_conv snd_conv)
  have ends: "(\<exists>s'. run h E resume s = Some (s', r)) \<longleftrightarrow>
      (\<exists>t. rtranclp (guest_step h E resume) s t \<and> guest_ends h E resume t r)" for r
    unfolding run steps_guest [OF assms] by (metis turn_goes_on(3) guest_steps_exit [OF _ assms])
  have final: "(\<exists>r. guest_ends h E resume t r) \<longleftrightarrow> \<not> (\<exists>u. guest_step h E resume t u)"
    if "rtranclp (guest_step h E resume) s t" for t
  proof -
    obtain u o' where "run_turn h E resume t = (u, o')" by (cases "run_turn h E resume t")
    with turn_goes_on(1,3) [OF guest_steps_exit [OF that assms], of h E resume, symmetric] show ?thesis
      by (cases o') auto
  qed
  have "run h E resume s = None \<longleftrightarrow> \<not> (\<exists>r. \<exists>t. rtranclp (guest_step h E resume) s t \<and> guest_ends h E resume t r)"
    unfolding ends [symmetric] by (cases "run h E resume s") auto
  with ends final show ?thesis by blast
qed

text \<open>
  C16. Lazy binding: when the stub helper has pushed the offset of a known lazy binding, the binder stores the
  symbol's trampoline in the lazy pointer and nowhere else, pops the two words, and jumps to that
  trampoline with the argument registers and the return address untouched; the trampoline table leads from
  there to the symbol, so the next turn calls it.
\<close>

theorem stub_binder_links:
  assumes "machine_wf J mc" and "read_u64 (mc_mem mc) (cpu_sp (mc_cpu mc)) = Ok v"
    and "mc_lazy_binds mc (v AND 0xffffffff) = Some (symbol, la_ptr)" and "mc_symbol_stubs mc symbol = Some t"
    and "\<And>s a. mc_symbol_stubs mc s = Some a \<longleftrightarrow> mc_trampolines mc a = Some s"
    and "is_ok (read_u64 (mc_mem mc) la_ptr)" and "is_ok (write_u64 (mc_mem mc) la_ptr t)"
  shows "\<exists>mc'. dyld_stub_binder mc = Ok mc' \<and> read_u64 (mc_mem mc') la_ptr = Ok t \<and>
    (\<forall>b n. ranges_apart la_ptr 8 b n \<longrightarrow> mem_read (mc_mem mc') b n = mem_read (mc_mem mc) b n) \<and>
    mc_cpu mc' = (mc_cpu mc)\<lparr>cpu_sp := cpu_sp (mc_cpu mc) + 16, cpu_pc := t\<rparr> \<and>
    mc_trampolines mc' (cpu_pc (mc_cpu mc')) = Some symbol"
proof -
  obtain m where m: "write_u64 (mc_mem mc) la_ptr t = Ok m" using assms(7) by (auto simp: is_ok_iff)
  have wf: "mem_wf (mc_mem mc)" using assms(1) by (simp add: machine_wf_def)
  have "dyld_stub_binder mc = Ok (mc\<lparr>mc_mem := m, mc_cpu := (mc_cpu mc)\<lparr>cpu_sp := cpu_sp (mc_cpu mc) + 16, cpu_pc := t\<rparr>\<rparr>)"
    by (simp add: dyld_stub_binder_def Let_def assms(2-4) m commit_to_native_def)
  then show ?thesis
    using u64_slot_write [OF wf m] assms(4-6) by auto
qed

definition sample_machine :: "(string list, nat, unit) machine" where
  "sample_machine =
     \<lparr>mc_cpu = cpu_default\<lparr>cpu_sp := 0x1000\<rparr>, mc_mem = sample_mem, mc_vfs = demo_sandbox, mc_fds = fd_default,
      mc_dispatcher = dispatcher_new, mc_env = (), mc_trampolines = [0x500000000 \<mapsto> ''_f''], mc_tramp_range = (0x500000000, 0x500004000),
      mc_symbol_stubs = [''_f'' \<mapsto> 0x500000000], mc_lazy_binds = [0x04030201 \<mapsto> (''_f'', 0x1000)], mc_exit = None,
      mc_init_funcs = [], mc_entry = 0, mc_arg_regs = (0, 0, 0, 0), mc_sp = 0, mc_world = []\<rparr>"

lemma sample_machine_wf: "machine_wf (\<lambda>_ _. True) sample_machine"
  by (simp add: machine_wf_def sample_machine_def sample_mem_wf fd_wf_default)

theorem stub_binder_links_witness:
  "\<exists>mc'. dyld_stub_binder sample_machine = Ok mc' \<and> read_u64 (mc_mem mc') 0x1000 = Ok 0x500000000 \<and>
     cpu_pc (mc_cpu mc') = 0x500000000 \<and> cpu_sp (mc_cpu mc') = 0x1010"
proof -
  have r: "read_u64 (mc_mem sample_machine) 0x1000 = Ok 0x0807060504030201"
    using sample_mem_word by (simp add: sample_machine_def)
  then have w: "is_ok (write_u64 (mc_mem sample_machine) 0x1000 0x500000000)"
    using readable_writable [OF sample_mem_rw, of "0x1000" 8 "to_le_bytes (0x500000000 :: u64)"]
    by (auto simp: sample_machine_def read_u64_def write_u64_def result_simps is_ok_iff)
  have "\<exists>mc'. dyld_stub_binder sample_machine = Ok mc' \<and> read_u64 (mc_mem mc') 0x1000 = Ok 0x500000000 \<and>
    (\<forall>b n. ranges_apart 0x1000 8 b n \<longrightarrow> mem_read (mc_mem mc') b n = mem_read (mc_mem sample_machine) b n) \<and>
    mc_cpu mc' = (mc_cpu sample_machine)\<lparr>cpu_sp := cpu_sp (mc_cpu sample_machine) + 16, cpu_pc := 0x500000000\<rparr> \<and>
    mc_trampolines mc' (cpu_pc (mc_cpu mc')) = Some ''_f''"
    by (rule stub_binder_links [OF sample_machine_wf, of "0x0807060504030201"])
      (use r w in \<open>auto simp: sample_machine_def split: if_splits\<close>)
  then show ?thesis by (auto simp: sample_machine_def)
qed

text \<open>A process that calls an address outside the trampoline table and then \<open>exit(7)\<close>.\<close>

definition exiting_machine :: "(string list, nat, unit) machine" where
  "exiting_machine = sample_machine\<lparr>mc_cpu := cpu_default\<lparr>cpu_x := (replicate 29 0)[0 := 7, 16 := 1]\<rparr>\<rparr>"

theorem run_guest_process_witness:
  "\<exists>s'. run log_host null_environment scripted_resume ([TrampolineCall 0, Syscall 0x80], exiting_machine) =
     Some (s', Ok \<lparr>exit_code = 7\<rparr>)"
proof -
  let ?mc = "return_to_caller exiting_machine"
  have cpu: "mc_trampolines exiting_machine 0 = None" "mc_exit exiting_machine = None"
    "cpu_x (mc_cpu ?mc) ! 0 = 7" "exit_call (mc_cpu ?mc)" "exiting_machine\<lparr>mc_cpu := mc_cpu exiting_machine\<rparr> = exiting_machine"
    by (simp_all add: exiting_machine_def sample_machine_def return_to_caller_def exit_call_def decode_def
        SYSCALL_CLASS_MASK_def SYS_EXIT_def Let_def)
  have "guest_step log_host null_environment scripted_resume
      ([TrampolineCall 0, Syscall 0x80], exiting_machine) ([Syscall 0x80], ?mc)"
    by (rule guest_step.import [where cpu = "mc_cpu exiting_machine" and addr = 0]) (simp_all add: scripted_resume_def service_trampoline_def cpu)
  moreover have "guest_ends log_host null_environment scripted_resume ([Syscall 0x80], ?mc) (Ok \<lparr>exit_code = ucast (cpu_x (mc_cpu ?mc) ! 0)\<rparr>)"
    by (rule guest_ends.exit_call [where imm = "0x80"]) (simp_all add: scripted_resume_def cpu)
  then have "guest_ends log_host null_environment scripted_resume ([Syscall 0x80], ?mc) (Ok \<lparr>exit_code = 7\<rparr>)"
    by (simp add: cpu)
  ultimately show ?thesis
    using run_guest_process [of "([TrampolineCall 0, Syscall 0x80], exiting_machine)" log_host null_environment scripted_resume] cpu(2)
    by auto
qed

end
