(* ===== verification/Emulator.thy ===== *)
theory Emulator
  imports Hle Machine_Run Macho_Roundtrip
begin

text \<open>
  The parts together: a process loaded from a file, run by an executor that honours its contract, with the
  library emulation servicing its imports and the system call layer its calls.
\<close>

section \<open>A loaded process\<close>

lemma heap_map:
  "mem_map m b sz p kind name = Ok m' \<Longrightarrow> heap m' = heap m"
  "mem_map_with_data m b sz d p kind name = Ok m' \<Longrightarrow> heap m' = heap m"
  "mem_protect m a p = Ok m' \<Longrightarrow> heap m' = heap m"
  by (auto simp: mem_map_def mem_map_with_data_def mem_protect_def Let_def result_simps split: if_splits option.splits)

interpretation load_heap: load_invariant "\<lambda>m. heap m = hp" UNIV for hp
  by unfold_locales (auto dest: heap_mem_write heap_map)

lemma build_process_memory:
  assumes "mem_wf m" and "build_process img bytes cfg m = Ok (p, m')"
  shows "mem_wf m'" and "heap m' = heap m"
proof -
  have segs: "\<forall>seg \<in> set (img_segments img). seg_name seg \<noteq> ''__PAGEZERO'' \<longrightarrow> final_prot seg \<in> UNIV" by simp
  show "mem_wf m'" using load_wf.build_process_keeps [OF assms(1) segs, of bytes cfg] assms(2) by simp
  show "heap m' = heap m" using load_heap.build_process_keeps [OF refl segs, of m bytes cfg] assms(2) by simp
qed

lemma load_machine_wf:
  assumes "load cfg bytes vfs env w = Ok mc" and "unat (cfg_heap_base cfg) + unat (cfg_heap_size cfg) \<le> 2 ^ 63"
    and "\<And>hp. arena_ok hp \<Longrightarrow> J env hp"
  shows "machine_wf J mc"
proof -
  obtain img m0 p m where ld: "mem_new (cfg_heap_base cfg) (cfg_heap_size cfg) = Ok m0"
    "build_process img bytes (machine_layout cfg (place_host cfg) vfs) m0 = Ok (p, m)" "mc = machine_of p m vfs env w"
    using assms(1) by (auto simp: load_def result_simps)
  note wf = build_process_memory [OF mem_wf_new [OF ld(1)] ld(2)]
  have "arena_ok (heap m0)" using heap_wf_new [OF ld(1) assms(2)] by (simp add: heap_wf_def arena_ok_def Let_def)
  then show ?thesis using wf assms(3) ld(3) by (simp add: machine_wf_def machine_of_def fd_wf_default)
qed

interpretation scripted_hle: run_loop scripted_resume "\<lambda>_. True" "hle_environment log" rt_inv for log
  by unfold_locales

section \<open>Properties\<close>

text \<open>
  C1. The whole emulator keeps the guest well formed: start with a process loaded from any file (with a heap
  arena below \<open>2 ^ 63\<close>) and the library emulation started; then in every state that the run loop reaches,
  whatever an executor that hands back well-formed register files reports, the register file, the address
  space and the descriptor table are well formed, and the Objective-C runtime's tables agree with each
  other and with the heap arena.
\<close>

theorem emulator_keeps_guest_wf:
  assumes "executor resume exec_ok" and "exec_ok x"
    and "unat (cfg_heap_base cfg) + unat (cfg_heap_size cfg) \<le> 2 ^ 63" and "load cfg bytes vfs objc_new w = Ok mc0"
    and "start_environment (hle_environment log) mc0 = Ok mc"
    and "machine_steps h (hle_environment log) resume (x, mc) (x', mc')"
  shows "cpu_wf (mc_cpu mc') \<and> mem_wf (mc_mem mc') \<and> fd_wf (mc_fds mc') \<and> rt_inv (mc_env mc') (heap (mc_mem mc'))"
proof -
  have "machine_wf rt_inv mc0" by (rule load_machine_wf [OF assms(4,3)]) (rule rt_inv_new)
  moreover obtain u where "machine_call (env_on_process_start (hle_environment log)) mc0 = Ok (mc, u)"
    using assms(5) by (auto simp: start_environment_def result_simps)
  ultimately have wf: "machine_wf rt_inv mc" by (rule machine_call_keeps(1) [OF hle.start_keeps])
  have "run_loop resume exec_ok (hle_environment log) rt_inv"
    by (rule run_loop.intro [OF assms(1) hle.host_env_axioms])
  from run_loop.steps_keep [OF this assms(6)] assms(2) wf show ?thesis by (simp add: machine_wf_def)
qed

definition sample_file :: "u8 list" where
  "sample_file = encode_file sample_header sample_cmds []"

lemma sample_parses:
  "\<exists>img. macho_parse sample_file = Ok img \<and> img_entry img = Some (EntryMain 0x1000 0) \<and> img_dyld_info img = None \<and>
     img_encryption img = None \<and> (\<exists>prot mx. img_segments img = [\<lparr>seg_name = ''__TEXT'', seg_vmaddr = 0x100000000, seg_vmsize = 0x4000,
       seg_fileoff = 0, seg_filesize = 0x40, seg_initprot = prot, seg_maxprot = mx, seg_sections = []\<rparr>])"
proof -
  have "length sample_cmds < 2 ^ 32" by (simp add: sample_cmds_def)
  from macho_parse_encoded [OF sample_file_length this sample_cmds_ok] show ?thesis
    by (simp add: sample_file_def sample_cmds_def sample_header_def empty_image_def segment_of_def Let_def
       from_utf8_lossy_ascii is_ascii_def byte_char_def char_of_def bit_Suc_0_iff)
qed

lemma sample_memory: "\<exists>m. mem_new 0x120000000 0x4000000 = Ok m"
proof -
  have "is_ok (mem_new 0x120000000 0x4000000)"
    by (simp add: mem_new_def mem_map_is_ok check_free_def bt_last_lt_def bt_last_def align_up_def PAGE_SIZE_def checked_add_def
        max_def word_le_nat_alt)
  then show ?thesis by (simp add: is_ok_iff)
qed

lemma sample_region:
  assumes "mem_new 0x120000000 0x4000000 = Ok m" and "bt_get (regions m) k = Some r"
  shows "k = 0x120000000" and "length (r_data r) = 0x4000000" and "r_prot r = prot_rw"
proof -
  have al: "align_up 0x4000000 PAGE_SIZE = 0x4000000" by (simp add: align_up_def PAGE_SIZE_def)
  obtain n where n: "n = align_up (max 0x4000000 1) PAGE_SIZE"
    "m = \<lparr>regions = bt_insert 0x120000000 \<lparr>r_base = 0x120000000, r_prot = prot_rw, r_kind = HeapKind, r_name = ''heap'',
       r_data = replicate (unat n) 0\<rparr> [], mmap_cursor = MMAP_TOP, heap = bump_new 0x120000000 0x4000000\<rparr>"
    using assms(1) unfolding mem_new_def al by (rule mem_map_OkE) simp
  have "n = 0x4000000" unfolding n(1) by (simp add: max_def word_le_nat_alt al)
  then have len: "unat n = 0x4000000" by simp
  have "k = 0x120000000 \<and> r = \<lparr>r_base = 0x120000000, r_prot = prot_rw, r_kind = HeapKind, r_name = ''heap'', r_data = replicate (unat n) 0\<rparr>"
    using assms(2) unfolding n(2) by (simp add: bt_get_def split: if_splits)
  with len show "k = 0x120000000" "length (r_data r) = 0x4000000" "r_prot r = prot_rw" by simp_all
qed

lemma sample_path: "length (bundle_ios_path demo_sandbox) \<le> 100"
  by (simp add: bundle_ios_path_def demo_sandbox_def prepare_layout_def path_file_name_def Let_def
      sanitize_component_def path_join_def)

lemma sample_length: "0x40 \<le> length sample_file"
  by (simp add: sample_file_def encode_file_def sample_cmds_def encode_cmd_def encode_segment_def pad16_def)

lemma sample_load: "\<exists>mc. load config_default sample_file demo_sandbox env w = Ok (mc :: ('w, 'f, 'e) machine)"
proof -
  obtain img prot mx where img: "macho_parse sample_file = Ok img" "img_entry img = Some (EntryMain 0x1000 0)" "img_dyld_info img = None"
    "img_encryption img = None"
    "img_segments img = [\<lparr>seg_name = ''__TEXT'', seg_vmaddr = 0x100000000, seg_vmsize = 0x4000,
       seg_fileoff = 0, seg_filesize = 0x40, seg_initprot = prot, seg_maxprot = mx, seg_sections = []\<rparr>]"
    using sample_parses by blast
  obtain m where m: "mem_new 0x120000000 0x4000000 = Ok m" using sample_memory by blast
  let ?cfg = "machine_layout config_default (place_host config_default) demo_sandbox" and ?seg = "hd (img_segments img)"
  have cfg: "lc_slide ?cfg = 0" "lc_trampoline_base ?cfg = 0x500000000" "lc_stack_top ?cfg = 0x1C0000000"
    "lc_stack_size ?cfg = 0x800000" "lc_argv0 ?cfg = bundle_ios_path demo_sandbox @ ''/Executable''"
    by (simp_all add: machine_layout_def place_host_def config_default_def)
  have wf: "mem_wf m" by (rule mem_wf_new [OF m])
  have data: "segment_data sample_file ?seg = Ok (take 0x40 sample_file)"
    using sample_length by (simp add: img(5) segment_data_def slice_index_def slice_get_def)
  have dlen: "length (the_ok (segment_data sample_file ?seg)) = 0x40" using data sample_length by simp
  have vm: "seg_vmsize ?seg = 0x4000" by (simp add: img(5))
  have len: "seg_len sample_file ?seg = 0x4000"
    unfolding seg_len_def vm dlen by (simp add: max_def word_le_nat_alt align_up_def PAGE_SIZE_def)
  have ranges: "load_ranges img sample_file ?cfg = [(0x100000000, 0x4000), (0x500000000, 0x4000), (0x1BF800000, 0x800000)]"
    using len by (simp add: load_ranges_def seg_ranges_def loaded_segs_def img(3,5) trampoline_room_def import_records_def
        page_round_def cfg)
  have ok: "list_all (seg_ok sample_file) (loaded_segs (img_segments img))"
    using data len sample_length by (simp add: loaded_segs_def img(5) seg_ok_def)
  have at_heap: "unat k = 0x120000000" if "bt_get (regions m) k = Some r" for k r
    using sample_region(1) [OF m that] by simp
  have "room_for m (load_ranges img sample_file ?cfg)"
    using at_heap sample_region(2) [OF m] wf unfolding ranges
    by (auto simp: room_for_def free_range_def ranges_apart_def)
  moreover have "prots_in {prot_rw} m" using sample_region(3) [OF m] wf by (auto simp: prots_in_def)
  ultimately have "loadable img sample_file ?cfg m"
    using ok sample_path img(2-4)
    by (simp add: loadable_def is_encrypted_def streams_parse_def trampoline_room_def import_records_def page_round_def cfg)
  then obtain p m' where "build_process img sample_file ?cfg m = Ok (p, m')" using build_process_runs by metis
  then show ?thesis using img(1) m by (simp add: load_def config_default_def)
qed

text \<open>A guest that asks for its process identifier over and over.\<close>

definition getpid_resume :: "nat \<Rightarrow> cpu_context \<Rightarrow> nat \<times> cpu_context \<times> exec_event" where
  "getpid_resume n cpu = (Suc n, cpu\<lparr>cpu_x := (replicate 29 0)[16 := 20]\<rparr>, Syscall 0x80)"

interpretation getpid: executor getpid_resume "\<lambda>_. True"
  by unfold_locales (auto simp: getpid_resume_def cpu_wf_def)

lemma getpid_turn:
  assumes "mc_exit mc = None"
  obtains mc' where "machine_step h E getpid_resume (n, mc) (Suc n, mc')" and "cpu_x (mc_cpu mc') ! 0 = 1"
proof -
  have "decode 20 = (Unix, 20)" by (simp add: decode_def SYSCALL_CLASS_MASK_def Let_def)
  moreover have "syscall_action h Unix 20 = (False, act_return 1)" by (simp add: syscall_action_def unix_handle_def sys_defs)
  ultimately show thesis
    using assms
    by (intro that machine_step.turn)
      (simp add: run_turn_def getpid_resume_def service_syscall_def dispatch_def Let_def, simp)
qed

theorem emulator_keeps_guest_wf_witness:
  "\<exists>mc0 mc mc'. load config_default sample_file demo_sandbox objc_new [] = Ok (mc0 :: (string list, nat, objc_runtime) machine) \<and>
     start_environment (hle_environment (\<lambda>s w. w @ [s])) mc0 = Ok mc \<and>
     machine_steps log_host (hle_environment (\<lambda>s w. w @ [s])) getpid_resume (0, mc) (1, mc') \<and>
     cpu_x (mc_cpu mc') ! 0 = 1 \<and> rt_inv (mc_env mc') (heap (mc_mem mc'))"
proof -
  let ?E = "hle_environment (\<lambda>s (w :: string list). w @ [s])"
  obtain mc0 where mc0: "load config_default sample_file demo_sandbox objc_new [] = Ok (mc0 :: (string list, nat, objc_runtime) machine)"
    using sample_load [of objc_new "[]"] by blast
  obtain mc where mc: "start_environment ?E mc0 = Ok mc" "mc_exit mc = mc_exit mc0"
    by (simp add: start_environment_def machine_call_def hle_environment_def rt_update_def)
  have "mc_exit mc0 = None" using mc0 by (auto simp: load_def result_simps machine_of_def)
  with mc(2) obtain mc' where turn: "machine_step log_host ?E getpid_resume (0, mc) (1, mc')" "cpu_x (mc_cpu mc') ! 0 = 1"
    using getpid_turn [of mc log_host ?E 0] by auto
  have steps: "machine_steps log_host ?E getpid_resume (0, mc) (1, mc')"
    by (rule machine_steps.go [OF turn(1) machine_steps.stay])
  from emulator_keeps_guest_wf [OF getpid.executor_axioms _ _ mc0 mc(1) steps] mc0 mc(1) turn(2) steps show ?thesis
    by (auto simp: config_default_def)
qed

end
