(* ===== verification/Rust_Text.thy ===== *)
theory Rust_Text
  imports Rust_Strings
begin

text \<open>
  The text conversions of the standard library that the property-list reader calls: strict UTF-8 and lossy
  UTF-16 decoding, \<open>str::replace\<close>, the search for a byte pattern, and the parsers behind
  \<open>str::parse\<close> for \<open>i64\<close> and \<open>f64\<close>.  A floating point number is its IEEE 754 bit pattern; decimal text
  is rounded to the nearest pattern, ties to even, as the standard library documents.
\<close>

section \<open>Strict UTF-8\<close>

function utf8_valid :: "u8 list \<Rightarrow> bool" where
  "utf8_valid bs =
     (if bs = [] then True
      else if fst (utf8_chunk bs) then utf8_valid (drop (snd (utf8_chunk bs)) bs) else False)"
  by pat_completeness auto
termination
  by (relation "measure length") (simp_all add: utf8_chunk_progress)

declare utf8_valid.simps [simp del]

definition from_utf8 :: "u8 list \<Rightarrow> string option" where
  "from_utf8 bs = (if utf8_valid bs then Some (map byte_char bs) else None)"

lemma utf8_valid_Nil [simp]: "utf8_valid []"
  by (simp add: utf8_valid.simps)

lemma utf8_valid_ascii_Cons [simp]: "b < 0x80 \<Longrightarrow> utf8_valid (b # bs) \<longleftrightarrow> utf8_valid bs"
  by (subst utf8_valid.simps) (simp add: utf8_chunk_def safe_get_def)

lemma lossy_bytes_valid: "utf8_valid bs \<Longrightarrow> lossy_bytes bs = bs"
proof (induction bs rule: utf8_valid.induct)
  case (1 bs)
  then show ?case
    by (cases "bs = []") (auto simp: lossy_bytes.simps [of bs] utf8_valid.simps [of bs])
qed

lemma from_utf8_lossy_valid: "utf8_valid bs \<Longrightarrow> from_utf8_lossy bs = map byte_char bs"
  by (simp add: from_utf8_lossy_def lossy_bytes_valid)

section \<open>Lossy UTF-16\<close>

definition encode_utf8 :: "nat \<Rightarrow> u8 list" where
  "encode_utf8 c =
     (if c < 0x80 then [of_nat c]
      else if c < 0x800 then [of_nat (0xC0 + c div 64), of_nat (0x80 + c mod 64)]
      else if c < 0x10000 then [of_nat (0xE0 + c div 4096), of_nat (0x80 + c div 64 mod 64), of_nat (0x80 + c mod 64)]
      else [of_nat (0xF0 + c div 262144), of_nat (0x80 + c div 4096 mod 64), of_nat (0x80 + c div 64 mod 64),
            of_nat (0x80 + c mod 64)])"

definition high_surrogate :: "u16 \<Rightarrow> bool" where
  "high_surrogate u \<longleftrightarrow> 0xD800 \<le> u \<and> u \<le> 0xDBFF"

definition low_surrogate :: "u16 \<Rightarrow> bool" where
  "low_surrogate u \<longleftrightarrow> 0xDC00 \<le> u \<and> u \<le> 0xDFFF"

text \<open>An unpaired surrogate becomes U+FFFD and decoding goes on with the next unit.\<close>

fun utf16_lossy_bytes :: "u16 list \<Rightarrow> u8 list" where
  "utf16_lossy_bytes [] = []"
| "utf16_lossy_bytes [u] =
     (if high_surrogate u \<or> low_surrogate u then replacement_character else encode_utf8 (unat u))"
| "utf16_lossy_bytes (u # v # us) =
     (if high_surrogate u \<and> low_surrogate v
      then encode_utf8 (0x10000 + (unat u - 0xD800) * 1024 + (unat v - 0xDC00)) @ utf16_lossy_bytes us
      else if high_surrogate u \<or> low_surrogate u then replacement_character @ utf16_lossy_bytes (v # us)
      else encode_utf8 (unat u) @ utf16_lossy_bytes (v # us))"

definition from_utf16_lossy :: "u16 list \<Rightarrow> string" where
  "from_utf16_lossy us = map byte_char (utf16_lossy_bytes us)"

section \<open>Searching and replacing\<close>

text \<open>\<open>hay.windows(needle.len()).position(|w| w == needle)\<close> for a needle that is not empty.\<close>

fun find_window :: "'a list \<Rightarrow> 'a list \<Rightarrow> nat option" where
  "find_window [] needle = (if needle = [] then Some 0 else None)"
| "find_window (x # xs) needle =
     (if prefix needle (x # xs) then Some 0 else map_option Suc (find_window xs needle))"

text \<open>\<open>str::replace\<close>: non-overlapping matches from the left.\<close>

function replace_str :: "string \<Rightarrow> string \<Rightarrow> string \<Rightarrow> string" where
  "replace_str p q s =
     (if s = [] then []
      else if p \<noteq> [] \<and> prefix p s then q @ replace_str p q (drop (length p) s)
      else hd s # replace_str p q (List.tl s))"
  by pat_completeness auto
termination
  by (relation "measure (\<lambda>(p, q, s). length s)") (auto simp: prefix_def)

declare replace_str.simps [simp del]

lemma find_window_bound:
  "find_window hay needle = Some n \<Longrightarrow> n + length needle \<le> length hay"
  by (induction hay needle arbitrary: n rule: find_window.induct)
    (auto split: if_splits dest: prefix_length_le)

lemma find_window_at:
  "find_window hay needle = Some n \<Longrightarrow> take (length needle) (drop n hay) = needle"
  by (induction hay needle arbitrary: n rule: find_window.induct)
    (auto split: if_splits simp: prefix_def)

text \<open>A pattern whose first character does not occur in a text is found right behind it.\<close>

lemma find_window_skip:
  assumes "x \<notin> set xs"
  shows "find_window (xs @ x # needle @ rest) (x # needle) = Some (length xs)"
  using assms by (induction xs) auto

lemma replace_str_Nil [simp]: "replace_str p q [] = []"
  by (simp add: replace_str.simps)

lemma replace_str_match: "p \<noteq> [] \<Longrightarrow> replace_str p q (p @ s) = q @ replace_str p q s"
  by (subst replace_str.simps) simp

lemma replace_str_skip: "hd p \<noteq> c \<Longrightarrow> p \<noteq> [] \<Longrightarrow> replace_str p q (c # s) = c # replace_str p q s"
  by (subst replace_str.simps) (cases p, auto)

lemma replace_str_skips:
  assumes "hd p \<notin> set t" and "p \<noteq> []"
  shows "replace_str p q (t @ s) = t @ replace_str p q s"
  using assms by (induction t) (simp_all add: replace_str_skip)

section \<open>Decimal integers\<close>

definition is_digit :: "char \<Rightarrow> bool" where
  "is_digit c \<longleftrightarrow> c \<in> set ''0123456789''"

definition digit_val :: "char \<Rightarrow> nat" where
  "digit_val c = of_char c - of_char (CHR ''0'')"

definition digits_val :: "string \<Rightarrow> nat" where
  "digits_val ds = fold (\<lambda>c acc. 10 * acc + digit_val c) ds 0"

definition parse_digits :: "string \<Rightarrow> nat option" where
  "parse_digits ds = (if ds \<noteq> [] \<and> list_all is_digit ds then Some (digits_val ds) else None)"

text \<open>An optional sign: whether it is a minus sign, and the rest.\<close>

fun take_sign :: "string \<Rightarrow> bool \<times> string" where
  "take_sign [] = (False, [])"
| "take_sign (c # cs) =
     (if c = CHR ''-'' then (True, cs) else if c = CHR ''+'' then (False, cs) else (False, c # cs))"

definition parse_i64 :: "string \<Rightarrow> i64 option" where
  "parse_i64 s =
     (let (neg, ds) = take_sign s
      in case parse_digits ds of
           None \<Rightarrow> None
         | Some n \<Rightarrow>
             if neg then (if n \<le> 2 ^ 63 then Some (- of_nat n) else None)
             else (if n < 2 ^ 63 then Some (of_nat n) else None))"

definition fmt_i64 :: "i64 \<Rightarrow> string" where
  "fmt_i64 w = (if sint w < 0 then CHR ''-'' # fmt_dec (nat (- sint w)) else fmt_dec (nat (sint w)))"

lemma digit_char:
  assumes "d < 10"
  shows "is_digit (''0123456789abcdef'' ! d)" and "digit_val (''0123456789abcdef'' ! d) = d"
proof -
  have "d \<in> {0, 1, 2, 3, 4, 5, 6, 7, 8, 9}" using assms by auto
  then show "is_digit (''0123456789abcdef'' ! d)" "digit_val (''0123456789abcdef'' ! d) = d"
    by (auto simp: is_digit_def digit_val_def)
qed

lemma fmt_dec_digits: "list_all is_digit (fmt_radix 10 n) \<and> fmt_radix 10 n \<noteq> [] \<and> digits_val (fmt_radix 10 n) = n"
proof (induction n rule: less_induct)
  case (less n)
  show ?case
  proof (cases "n < 10")
    case True
    with digit_char [of n] show ?thesis by (simp add: fmt_radix.simps [of 10 n] digits_val_def)
  next
    case False
    with less [of "n div 10"] digit_char [of "n mod 10"] show ?thesis
      by (simp add: fmt_radix.simps [of 10 n] digits_val_def)
  qed
qed

lemma parse_digits_fmt_dec [simp]: "parse_digits (fmt_dec n) = Some n"
  using fmt_dec_digits [of n] by (simp add: parse_digits_def fmt_dec_def)

lemma fmt_dec_head: "fmt_dec n \<noteq> [] \<and> is_digit (hd (fmt_dec n))"
  using fmt_dec_digits [of n] by (cases "fmt_dec n") (auto simp: fmt_dec_def)

lemma take_sign_digits: "is_digit c \<Longrightarrow> take_sign (c # cs) = (False, c # cs)"
  by (auto simp: is_digit_def)

lemma take_sign_fmt_dec: "take_sign (fmt_dec n) = (False, fmt_dec n)"
  using fmt_dec_head [of n] take_sign_digits by (cases "fmt_dec n") auto

lemma parse_i64_fmt [simp]: "parse_i64 (fmt_i64 w) = Some w"
proof -
  have "- (2 ^ 63) \<le> sint w" "sint w < 2 ^ 63"
    using sint_greater_eq [of w] sint_less [of w] by simp_all
  moreover have "(of_int (sint w) :: i64) = w" by simp
  ultimately show ?thesis
    by (cases "sint w < 0")
      (simp_all add: parse_i64_def fmt_i64_def take_sign_fmt_dec of_nat_nat nat_le_iff nat_less_iff)
qed

section \<open>Floating point numbers\<close>

definition F64_INFINITY :: nat where
  "F64_INFINITY = 0x7FF0000000000000"

text \<open>Round half to even: \<open>num / den\<close> to an integer.\<close>

definition round_ratio :: "nat \<Rightarrow> nat \<Rightarrow> nat" where
  "round_ratio num den =
     (let q = num div den; r = num mod den
      in if 2 * r < den \<or> 2 * r = den \<and> even q then q else q + 1)"

fun bit_length :: "nat \<Rightarrow> nat" where
  "bit_length n = (if n = 0 then 0 else Suc (bit_length (n div 2)))"

declare bit_length.simps [simp del]

text \<open>
  The binary64 pattern nearest to \<open>num / den\<close>.  The unit in the last place is \<open>2 ^ (k - 1074)\<close> for the
  least \<open>k\<close> with \<open>num / den < 2 ^ (53 + k - 1074)\<close>, so that the pattern is \<open>k * 2 ^ 52\<close> plus the rounded
  significand for normal and subnormal results alike, and a significand that rounds up to \<open>2 ^ 53\<close>
  carries into the exponent.
\<close>

definition f64_of_ratio :: "nat \<Rightarrow> nat \<Rightarrow> nat" where
  "f64_of_ratio num den =
     (let scaled = num * 2 ^ 1074; k = bit_length (scaled div den) - 53
      in min F64_INFINITY (k * 2 ^ 52 + round_ratio scaled (den * 2 ^ k)))"

definition f64_signed :: "bool \<Rightarrow> nat \<Rightarrow> u64" where
  "f64_signed neg pattern = of_nat ((if neg then 2 ^ 63 else 0) + pattern)"

definition ascii_lower :: "char \<Rightarrow> char" where
  "ascii_lower c = (let n = of_char c :: nat in if 65 \<le> n \<and> n \<le> 90 then char_of (n + 32) else c)"

text \<open>The digits after an optional decimal point, and the exponent: \<open>None\<close> when the text is not a number.\<close>

definition parse_exponent :: "string \<Rightarrow> int option" where
  "parse_exponent s =
     (case s of
        [] \<Rightarrow> Some 0
      | c # cs \<Rightarrow>
          if c = CHR ''e'' \<or> c = CHR ''E'' then
            (let (neg, ds) = take_sign cs in map_option (\<lambda>n. if neg then - int n else int n) (parse_digits ds))
          else None)"

definition decimal_f64 :: "string \<Rightarrow> string \<Rightarrow> int \<Rightarrow> nat" where
  "decimal_f64 whole fract ex =
     (let e = ex - int (length fract); n = digits_val (whole @ fract)
      in if 0 \<le> e then f64_of_ratio (n * 10 ^ nat e) 1 else f64_of_ratio n (10 ^ nat (- e)))"

definition parse_decimal :: "string \<Rightarrow> nat option" where
  "parse_decimal s =
     (let whole = takeWhile is_digit s; s1 = dropWhile is_digit s;
          (fract, s2) = (case s1 of
             c # cs \<Rightarrow> if c = CHR ''.'' then (takeWhile is_digit cs, dropWhile is_digit cs) else ([], s1)
           | [] \<Rightarrow> ([], []))
      in if whole = [] \<and> fract = [] then None
         else map_option (decimal_f64 whole fract) (parse_exponent s2))"

definition parse_f64 :: "string \<Rightarrow> u64 option" where
  "parse_f64 s =
     (let (neg, t) = take_sign s; low = map ascii_lower t
      in if low = ''inf'' \<or> low = ''infinity'' then Some (f64_signed neg F64_INFINITY)
         else if low = ''nan'' then Some (f64_signed neg 0x7FF8000000000000)
         else map_option (f64_signed neg) (parse_decimal t))"

text \<open>\<open>f32 as f64\<close> is exact; a NaN stays a NaN (its payload is not specified: it is kept and made quiet here).\<close>

definition f64_of_f32 :: "u32 \<Rightarrow> u64" where
  "f64_of_f32 w =
     (let neg = bit w 31; e = unat (drop_bit 23 w) mod 256; m = unat w mod 2 ^ 23
      in f64_signed neg
           (if e = 255 then (if m = 0 then F64_INFINITY else F64_INFINITY + 2 ^ 51 + m mod 2 ^ 22 * 2 ^ 29)
            else if e = 0 then f64_of_ratio m (2 ^ 149)
            else (e + 896) * 2 ^ 52 + m * 2 ^ 29))"

end
