(* ===== verification/Plist.thy ===== *)
theory Plist
  imports Rust_Text Ordered_Map "HOL-Library.Char_ord" "HOL-Library.List_Lexorder"
begin

text \<open>
  The property-list reader, \<open>crates/ipa/src/plist.rs\<close>: the value type, the errors with their texts, the
  binary decoder and the XML reader.

  A \<open>usize\<close> of the binary decoder is a 64-bit word, because counts and offsets read from the file enter
  its arithmetic unchecked; the XML reader only moves forward through its input, so its position is a
  natural number.  A dictionary is a \<open>BTreeMap\<close>, the sorted association list of the theory of ordered
  maps, with strings ordered by their bytes.
\<close>

section \<open>Values and errors\<close>

datatype plist_value =
    PBool bool
  | PInteger i64
  | PReal u64
  | PString string
  | PData "u8 list"
  | PArray "plist_value list"
  | PDict "(string \<times> plist_value) list"

fun as_str :: "plist_value \<Rightarrow> string option" where
  "as_str (PString s) = Some s"
| "as_str _ = None"

fun as_i64 :: "plist_value \<Rightarrow> i64 option" where
  "as_i64 (PInteger i) = Some i"
| "as_i64 _ = None"

fun as_array :: "plist_value \<Rightarrow> plist_value list option" where
  "as_array (PArray a) = Some a"
| "as_array _ = None"

fun plist_get :: "plist_value \<Rightarrow> string \<Rightarrow> plist_value option" where
  "plist_get (PDict m) key = bt_get m key"
| "plist_get _ key = None"

datatype plist_error =
    Truncated
  | BadTrailer
  | BadReference
  | UnsupportedType u8
  | XmlError string
  | NotAPlist

fun plist_error_text :: "plist_error \<Rightarrow> string" where
  "plist_error_text Truncated = ''truncated plist''"
| "plist_error_text BadTrailer = ''bad binary plist trailer''"
| "plist_error_text BadReference = ''object reference out of range''"
| "plist_error_text (UnsupportedType t) = ''unsupported object marker '' @ fmt_hex_pad 4 (unat t)"
| "plist_error_text (XmlError m) = ''xml plist: '' @ m"
| "plist_error_text NotAPlist = ''not a recognised plist''"

type_synonym 'a plist_result = "('a, plist_error) rust_result"

section \<open>The binary format\<close>

record bplist =
  bp_buf :: "u8 list"
  bp_ref_size :: u64
  bp_offsets :: "u64 list"

definition be_u64 :: "u8 list \<Rightarrow> u64 plist_result" where
  "be_u64 b = and_then (slice_index b 0 8) (\<lambda>arr. Ok (from_be_bytes arr))"

definition be_uint :: "u8 list \<Rightarrow> u64" where
  "be_uint b = fold (\<lambda>x acc. push_bit 8 acc OR ucast x) b 0"

definition be_int :: "u8 list \<Rightarrow> i64 plist_result" where
  "be_int b = (if length b = 8 then be_u64 b else Ok (be_uint b))"

definition bp_slice :: "bplist \<Rightarrow> u64 \<Rightarrow> u64 \<Rightarrow> u8 list plist_result" where
  "bp_slice b off len =
     and_then (ok_or Truncated (checked_add off len)) (\<lambda>fin.
     ok_or Truncated (slice_get (bp_buf b) (unat off) (unat fin)))"

definition buf_get :: "u8 list \<Rightarrow> u64 \<Rightarrow> u8 option" where
  "buf_get buf i = (if unat i < length buf then Some (buf ! unat i) else None)"

definition read_ref :: "bplist \<Rightarrow> u64 \<Rightarrow> u64 plist_result" where
  "read_ref b pos =
     (if unat (pos + bp_ref_size b) > length (bp_buf b) then Err Truncated
      else and_then (slice_index (bp_buf b) (unat pos) (unat (pos + bp_ref_size b))) (\<lambda>bytes. Ok (be_uint bytes)))"

definition count_and_offset :: "bplist \<Rightarrow> u64 \<Rightarrow> u64 \<Rightarrow> (u64 \<times> u64) plist_result" where
  "count_and_offset b off n =
     (if n \<noteq> 0x0f then Ok (n, off + 1)
      else
        and_then (ok_or Truncated (buf_get (bp_buf b) (off + 1))) (\<lambda>size_marker.
        if drop_bit 4 size_marker \<noteq> 0x1 then Err BadTrailer
        else
          (let int_len = push_bit (unat (size_marker AND 0x0f)) 1
           in and_then (bp_slice b (off + 2) int_len) (\<lambda>bytes.
              Ok (be_uint bytes, off + 2 + int_len)))))"

text \<open>\<open>bytes.chunks_exact(2).map(|c| u16::from_be_bytes([c[0], c[1]]))\<close>.\<close>

fun be_units :: "u8 list \<Rightarrow> u16 list" where
  "be_units (x # y # bs) = from_be_bytes [x, y] # be_units bs"
| "be_units _ = []"

text \<open>The objects that hold no references.\<close>

definition scalar_object :: "bplist \<Rightarrow> u64 \<Rightarrow> u8 \<Rightarrow> plist_value plist_result" where
  "scalar_object b off marker =
     (let ty = drop_bit 4 marker; n = ucast (marker AND 0x0f) :: u64
      in if ty = 0x0 then
           (if n = 0x8 then Ok (PBool False)
            else if n = 0x9 then Ok (PBool True)
            else Err (UnsupportedType marker))
         else if ty = 0x1 then
           and_then (bp_slice b (off + 1) (push_bit (unat n) 1)) (\<lambda>bytes.
           and_then (be_int bytes) (\<lambda>i. Ok (PInteger i)))
         else if ty = 0x2 then
           (let len = push_bit (unat n) 1 :: u64
            in and_then (bp_slice b (off + 1) len) (\<lambda>bytes.
               if len = 4 then Ok (PReal (f64_of_f32 (from_be_bytes bytes)))
               else if len = 8 then Ok (PReal (from_be_bytes bytes))
               else Err (UnsupportedType marker)))
         else if ty = 0x3 then
           and_then (bp_slice b (off + 1) 8) (\<lambda>bytes. Ok (PReal (from_be_bytes bytes)))
         else if ty = 0x4 then
           and_then (count_and_offset b off n) (\<lambda>(count, data_off).
           and_then (bp_slice b data_off count) (\<lambda>bytes. Ok (PData bytes)))
         else if ty = 0x5 then
           and_then (count_and_offset b off n) (\<lambda>(count, data_off).
           and_then (bp_slice b data_off count) (\<lambda>bytes. Ok (PString (from_utf8_lossy bytes))))
         else if ty = 0x6 then
           and_then (count_and_offset b off n) (\<lambda>(count, data_off).
           and_then (bp_slice b data_off (count * 2)) (\<lambda>bytes. Ok (PString (from_utf16_lossy (be_units bytes)))))
         else if ty = 0x8 then
           and_then (bp_slice b (off + 1) (n + 1)) (\<lambda>bytes.
           and_then (be_int bytes) (\<lambda>i. Ok (PInteger i)))
         else Err (UnsupportedType marker))"

text \<open>The two loops over references, with the decoder of a referenced object as an argument.\<close>

fun array_items :: "bplist \<Rightarrow> (u64 \<Rightarrow> plist_value plist_result) \<Rightarrow> u64 \<Rightarrow> nat \<Rightarrow> nat \<Rightarrow> plist_value list plist_result" where
  "array_items b obj refs_off i 0 = Ok []"
| "array_items b obj refs_off i (Suc k) =
     and_then (read_ref b (refs_off + of_nat i * bp_ref_size b)) (\<lambda>r.
     and_then (obj r) (\<lambda>v.
     and_then (array_items b obj refs_off (Suc i) k) (\<lambda>vs. Ok (v # vs))))"

fun dict_items ::
    "bplist \<Rightarrow> (u64 \<Rightarrow> plist_value plist_result) \<Rightarrow> u64 \<Rightarrow> u64 \<Rightarrow> nat \<Rightarrow> nat \<Rightarrow> (string \<times> plist_value) list \<Rightarrow>
     (string \<times> plist_value) list plist_result" where
  "dict_items b obj keys_off vals_off i 0 m = Ok m"
| "dict_items b obj keys_off vals_off i (Suc k) m =
     and_then (read_ref b (keys_off + of_nat i * bp_ref_size b)) (\<lambda>kref.
     and_then (read_ref b (vals_off + of_nat i * bp_ref_size b)) (\<lambda>vref.
     and_then (obj kref) (\<lambda>kobj.
     and_then (ok_or BadReference (as_str kobj)) (\<lambda>key.
     and_then (obj vref) (\<lambda>v.
     dict_items b obj keys_off vals_off (Suc i) k (bt_insert key v m))))))"

text \<open>The layout of a node on a 64-bit target: three words of payload and a tag.\<close>

definition PLIST_VALUE_SIZE :: nat where
  "PLIST_VALUE_SIZE = 32"

function object_at :: "bplist \<Rightarrow> u64 \<Rightarrow> nat \<Rightarrow> plist_value plist_result" where
  "object_at b index depth =
     (if depth > 128 then Err BadReference
      else
        and_then (ok_or BadReference (if unat index < length (bp_offsets b) then Some (bp_offsets b ! unat index) else None)) (\<lambda>off.
        and_then (ok_or Truncated (buf_get (bp_buf b) off)) (\<lambda>marker.
        if drop_bit 4 marker = 0xA then
          and_then (count_and_offset b off (ucast (marker AND 0x0f))) (\<lambda>(count, refs_off).
          and_then (vec_with_capacity PLIST_VALUE_SIZE (unat count)) (\<lambda>_.
          and_then (array_items b (\<lambda>r. object_at b r (depth + 1)) refs_off 0 (unat count)) (\<lambda>out.
          Ok (PArray out))))
        else if drop_bit 4 marker = 0xD then
          and_then (count_and_offset b off (ucast (marker AND 0x0f))) (\<lambda>(count, keys_off).
          and_then (dict_items b (\<lambda>r. object_at b r (depth + 1)) keys_off (keys_off + count * bp_ref_size b) 0 (unat count) [])
            (\<lambda>m. Ok (PDict m)))
        else scalar_object b off marker)))"
  by pat_completeness auto
termination
  by (relation "measure (\<lambda>(b, index, depth). 129 - depth)") auto

declare object_at.simps [simp del]

fun offset_table :: "u8 list \<Rightarrow> u64 \<Rightarrow> u64 \<Rightarrow> nat \<Rightarrow> nat \<Rightarrow> u64 list plist_result" where
  "offset_table buf table_offset offset_size i 0 = Ok []"
| "offset_table buf table_offset offset_size i (Suc k) =
     (let start = table_offset + of_nat i * offset_size
      in and_then (slice_index buf (unat start) (unat (start + offset_size))) (\<lambda>bytes.
         and_then (offset_table buf table_offset offset_size (Suc i) k) (\<lambda>rest.
         Ok (be_uint bytes # rest))))"

definition bplist_parse :: "u8 list \<Rightarrow> plist_value plist_result" where
  "bplist_parse buf =
     (if length buf < 8 + 32 then Err Truncated
      else
        (let trailer = drop (length buf - 32) buf;
             offset_size = ucast (trailer ! 6) :: u64;
             ref_size = ucast (trailer ! 7) :: u64
         in
           and_then (and_then (slice_index trailer 8 16) be_u64) (\<lambda>num_objects.
           and_then (and_then (slice_index trailer 16 24) be_u64) (\<lambda>top_object.
           and_then (and_then (slice_index trailer 24 32) be_u64) (\<lambda>table_offset.
           if offset_size = 0 \<or> offset_size > 8 \<or> ref_size = 0 \<or> ref_size > 8 then Err BadTrailer
           else
             and_then (ok_or BadTrailer (checked_mul num_objects offset_size)) (\<lambda>table_len.
             and_then (ok_or BadTrailer (checked_add table_offset table_len)) (\<lambda>table_end.
             if unat table_end > length buf \<or> top_object \<ge> num_objects then Err BadTrailer
             else
               and_then (vec_with_capacity 8 (unat num_objects)) (\<lambda>_.
               and_then (offset_table buf table_offset offset_size 0 (unat num_objects)) (\<lambda>offsets.
               object_at \<lparr>bp_buf = buf, bp_ref_size = ref_size, bp_offsets = offsets\<rparr> top_object 0)))))))))"

section \<open>The XML format\<close>

definition is_ascii_whitespace :: "u8 \<Rightarrow> bool" where
  "is_ascii_whitespace b \<longleftrightarrow> b \<in> {0x20, 0x09, 0x0A, 0x0C, 0x0D}"

function skip_ws :: "u8 list \<Rightarrow> nat \<Rightarrow> nat" where
  "skip_ws s i = (if i < length s \<and> is_ascii_whitespace (s ! i) then skip_ws s (Suc i) else i)"
  by pat_completeness auto
termination
  by (relation "measure (\<lambda>(s, i). length s - i)") auto

declare skip_ws.simps [simp del]

text \<open>\<open>&self.s[self.i..]\<close>, which every test for a tag and every search takes.\<close>

definition px_rest :: "u8 list \<Rightarrow> nat \<Rightarrow> u8 list plist_result" where
  "px_rest s i = slice_index s i (length s)"

definition advance_past :: "u8 list \<Rightarrow> nat \<Rightarrow> string \<Rightarrow> nat plist_result" where
  "advance_past s i fin =
     and_then (px_rest s i) (\<lambda>rest.
     case find_window rest (as_bytes fin) of
       Some pos \<Rightarrow> Ok (i + pos + length fin)
     | None \<Rightarrow> Ok (length s))"

abbreviation tag_at :: "string \<Rightarrow> u8 list \<Rightarrow> bool" where
  "tag_at t rest \<equiv> prefix (as_bytes t) rest"

lemma skip_ws_ge: "i \<le> skip_ws s i"
proof (induction s i rule: skip_ws.induct)
  case (1 s i)
  then show ?case by (cases "i < length s \<and> is_ascii_whitespace (s ! i)") (auto simp: skip_ws.simps [of s i])
qed

lemma skip_ws_le: "i \<le> length s \<Longrightarrow> skip_ws s i \<le> length s"
proof (induction s i rule: skip_ws.induct)
  case (1 s i)
  then show ?case by (simp add: skip_ws.simps [of s i])
qed

lemma advance_past_bounds:
  assumes "advance_past s i fin = Ok j" and "px_rest s i = Ok rest" and "rest \<noteq> []" and "fin \<noteq> []"
  shows "i < j \<and> j \<le> length s"
  using assms find_window_bound [of "drop i s" "as_bytes fin"]
  by (auto simp: advance_past_def px_rest_def result_simps split: option.splits)

lemma advance_past_progress:
  assumes "px_rest s (skip_ws s i) = Ok rest" and "tag_at t rest" and "advance_past s (skip_ws s i) fin = Ok j"
    and "t \<noteq> []" and "fin \<noteq> []"
  shows "Suc (length s) - j < Suc (length s) - i"
proof -
  have "rest \<noteq> []" using assms(2,4) by (auto simp: as_bytes_def)
  from advance_past_bounds [OF assms(3,1) this assms(5)] skip_ws_ge [of i s] show ?thesis by auto
qed

function skip_prologue :: "u8 list \<Rightarrow> nat \<Rightarrow> nat plist_result" where
  "skip_prologue s i =
     (let i = skip_ws s i
      in and_then (px_rest s i) (\<lambda>rest.
         if tag_at ''<?'' rest then and_then (advance_past s i ''?>'') (\<lambda>j. skip_prologue s j)
         else if tag_at ''<!--'' rest then and_then (advance_past s i ''-->'') (\<lambda>j. skip_prologue s j)
         else if tag_at ''<!'' rest then and_then (advance_past s i ''>'') (\<lambda>j. skip_prologue s j)
         else Ok i))"
  by pat_completeness auto
termination
  by (relation "measure (\<lambda>(s, i). Suc (length s) - i)") (auto intro: advance_past_progress)

declare skip_prologue.simps [simp del]

definition expect_open :: "u8 list \<Rightarrow> nat \<Rightarrow> string \<Rightarrow> nat plist_result" where
  "expect_open s i name =
     (let i = skip_ws s i
      in and_then (px_rest s i) (\<lambda>rest.
         if \<not> tag_at (''<'' @ name) rest then Err (XmlError (''expected <'' @ name @ ''>''))
         else advance_past s i ''>''))"

definition unescape :: "string \<Rightarrow> string" where
  "unescape s =
     replace_str ''&amp;'' ''&'' (replace_str ''&apos;'' [CHR 0x27] (replace_str ''&quot;'' [CHR 0x22]
       (replace_str ''&gt;'' ''>'' (replace_str ''&lt;'' ''<'' s))))"

definition text_element :: "u8 list \<Rightarrow> nat \<Rightarrow> string \<Rightarrow> (string \<times> nat) plist_result" where
  "text_element s i name =
     (let open_tag = ''<'' @ name @ ''>''; close_tag = ''</'' @ name @ ''>''; i = i + length open_tag
      in and_then (px_rest s i) (\<lambda>rest.
         and_then (ok_or (XmlError (''unterminated <'' @ name @ ''>'')) (find_window rest (as_bytes close_tag))) (\<lambda>fin.
         Ok (unescape (case from_utf8 (take fin rest) of None \<Rightarrow> [] | Some t \<Rightarrow> t),
             i + fin + length close_tag))))"

function (sequential)
    xml_value :: "u8 list \<Rightarrow> nat \<Rightarrow> (plist_value \<times> nat) plist_result" and
    parse_dict :: "u8 list \<Rightarrow> nat \<Rightarrow> (string \<times> plist_value) list \<Rightarrow> (plist_value \<times> nat) plist_result" and
    parse_array :: "u8 list \<Rightarrow> nat \<Rightarrow> plist_value list \<Rightarrow> (plist_value \<times> nat) plist_result" where
  "xml_value s i =
     (let i = skip_ws s i
      in and_then (px_rest s i) (\<lambda>rest.
         if tag_at ''<dict>'' rest then parse_dict s (i + length ''<dict>'') []
         else if tag_at ''<array>'' rest then parse_array s (i + length ''<array>'') []
         else if tag_at ''<string>'' rest then
           and_then (text_element s i ''string'') (\<lambda>(t, j). Ok (PString t, j))
         else if tag_at ''<integer>'' rest then
           and_then (text_element s i ''integer'') (\<lambda>(t, j).
             Ok (PInteger (case parse_i64 (trim t) of None \<Rightarrow> 0 | Some v \<Rightarrow> v), j))
         else if tag_at ''<real>'' rest then
           and_then (text_element s i ''real'') (\<lambda>(t, j).
             Ok (PReal (case parse_f64 (trim t) of None \<Rightarrow> 0 | Some v \<Rightarrow> v), j))
         else if tag_at ''<true/>'' rest then Ok (PBool True, i + length ''<true/>'')
         else if tag_at ''<false/>'' rest then Ok (PBool False, i + length ''<false/>'')
         else if tag_at ''<data>'' rest then
           and_then (text_element s i ''data'') (\<lambda>(t, j). Ok (PData (as_bytes (trim t)), j))
         else Err (XmlError ''unexpected element'')))"
| "parse_dict s i m =
     (let i = skip_ws s i
      in and_then (px_rest s i) (\<lambda>rest.
         if tag_at ''</dict>'' rest then Ok (PDict m, i + length ''</dict>'')
         else if \<not> tag_at ''<key>'' rest then Err (XmlError ''expected <key> in dict'')
         else
           and_then (text_element s i ''key'') (\<lambda>(key, j).
           and_then (xml_value s j) (\<lambda>(val, k).
           parse_dict s k (bt_insert key val m)))))"
| "parse_array s i out =
     (let i = skip_ws s i
      in and_then (px_rest s i) (\<lambda>rest.
         if tag_at ''</array>'' rest then Ok (PArray out, i + length ''</array>'')
         else and_then (xml_value s i) (\<lambda>(val, j). parse_array s j (out @ [val]))))"
  by pat_completeness auto

lemma text_element_forward: "text_element s i name = Ok (t, j) \<Longrightarrow> i < j"
  by (auto simp: text_element_def Let_def result_simps)

lemma rest_position: "px_rest s (skip_ws s i) = Ok rest \<Longrightarrow> i \<le> skip_ws s i \<and> skip_ws s i \<le> length s"
  by (auto simp: px_rest_def result_simps skip_ws_ge)

text \<open>A value that is read ends behind the place where it started.\<close>

lemma xml_forward_partial:
  "xml_value_parse_dict_parse_array_dom (Inl (s, i)) \<Longrightarrow> xml_value s i = Ok (v, j) \<Longrightarrow> i < j"
  "xml_value_parse_dict_parse_array_dom (Inr (Inl (s, i, m))) \<Longrightarrow> parse_dict s i m = Ok (v, j) \<Longrightarrow> i < j"
  "xml_value_parse_dict_parse_array_dom (Inr (Inr (s, i, out))) \<Longrightarrow> parse_array s i out = Ok (v, j) \<Longrightarrow> i < j"
proof (induction arbitrary: v j and v j and v j rule: xml_value_parse_dict_parse_array.pinduct)
  case (1 s i)
  note unf = xml_value.psimps [OF 1(1)]
  obtain rest where rest: "px_rest s (skip_ws s i) = Ok rest"
    using 1(4) by (cases "px_rest s (skip_ws s i)") (simp_all add: unf)
  note pos = rest_position [OF rest]
  consider (dict) "tag_at ''<dict>'' rest" | (array) "\<not> tag_at ''<dict>'' rest" "tag_at ''<array>'' rest"
    | (leaf) "\<not> tag_at ''<dict>'' rest" "\<not> tag_at ''<array>'' rest" by blast
  then show ?case
  proof cases
    case dict
    from 1(2) [OF refl rest dict, of v j] 1(4) rest dict pos show ?thesis by (simp add: unf)
  next
    case array
    from 1(3) [OF refl rest array, of v j] 1(4) rest array pos show ?thesis by (simp add: unf)
  next
    case leaf
    then show ?thesis
      using 1(4) rest pos by (auto simp: unf Let_def and_then_eq_Ok dest!: text_element_forward split: if_splits)
  qed
next
  case (2 s i m)
  note unf = parse_dict.psimps [OF 2(1)]
  obtain rest where rest: "px_rest s (skip_ws s i) = Ok rest"
    using 2(4) by (cases "px_rest s (skip_ws s i)") (simp_all add: unf)
  note pos = rest_position [OF rest]
  show ?case
  proof (cases "tag_at ''</dict>'' rest \<or> \<not> tag_at ''<key>'' rest")
    case True
    then show ?thesis using 2(4) rest pos by (auto simp: unf Let_def split: if_splits)
  next
    case False
    then obtain key l val k where steps: "text_element s (skip_ws s i) ''key'' = Ok (key, l)" "xml_value s l = Ok (val, k)"
        "parse_dict s k (bt_insert key val m) = Ok (v, j)"
      using 2(4) rest by (auto simp: unf and_then_eq_Ok)
    from False have tags: "\<not> tag_at ''</dict>'' rest" "\<not> \<not> tag_at ''<key>'' rest" by simp_all
    show ?thesis
      using 2(2) [OF refl rest tags steps(1) refl steps(2)] 2(3) [OF refl rest tags steps(1) refl steps(2) refl steps(3)]
        text_element_forward [OF steps(1)] pos by simp
  qed
next
  case (3 s i out)
  note unf = parse_array.psimps [OF 3(1)]
  obtain rest where rest: "px_rest s (skip_ws s i) = Ok rest"
    using 3(4) by (cases "px_rest s (skip_ws s i)") (simp_all add: unf)
  note pos = rest_position [OF rest]
  show ?case
  proof (cases "tag_at ''</array>'' rest")
    case True
    then show ?thesis using 3(4) rest pos by (simp add: unf)
  next
    case False
    then obtain val k where steps: "xml_value s (skip_ws s i) = Ok (val, k)" "parse_array s k (out @ [val]) = Ok (v, j)"
      using 3(4) rest by (auto simp: unf and_then_eq_Ok)
    show ?thesis using 3(2) [OF refl rest False steps(1)] 3(3) [OF refl rest False steps(1) refl steps(2)] pos by simp
  qed
qed

termination xml_value
  by (relation "measures [\<lambda>x. case x of Inl (s, i) \<Rightarrow> Suc (length s) - i | Inr (Inl (s, i, m)) \<Rightarrow> Suc (length s) - i
      | Inr (Inr (s, i, out)) \<Rightarrow> Suc (length s) - i, \<lambda>x. case x of Inl _ \<Rightarrow> 0 | _ \<Rightarrow> 1]")
    (auto dest!: rest_position text_element_forward xml_forward_partial(1))

declare xml_value.simps [simp del] parse_dict.simps [simp del] parse_array.simps [simp del]

definition xml_parse :: "u8 list \<Rightarrow> plist_value plist_result" where
  "xml_parse bytes =
     and_then (ok_or (XmlError ''not utf-8'') (from_utf8 bytes)) (\<lambda>t.
     let s = as_bytes t
     in and_then (skip_prologue s 0) (\<lambda>i.
        and_then (expect_open s i ''plist'') (\<lambda>i.
        and_then (xml_value s i) (\<lambda>(v, _). Ok v))))"

section \<open>Both formats\<close>

definition looks_like_xml :: "u8 list \<Rightarrow> bool" where
  "looks_like_xml bytes =
     (let s = from_utf8_lossy (take (min (length bytes) 256) bytes)
      in find_window s ''<plist'' \<noteq> None \<or> find_window s ''<?xml'' \<noteq> None)"

definition plist_parse :: "u8 list \<Rightarrow> plist_value plist_result" where
  "plist_parse bytes =
     (if prefix (as_bytes ''bplist00'') bytes then bplist_parse bytes
      else if looks_like_xml bytes then xml_parse bytes
      else Err NotAPlist)"

end
