(* ===== verification/Plist_Binary.thy ===== *)
theory Plist_Binary
  imports Plist
begin

text \<open>
  The binary decoder against an abstract reading of the format.  A binary property list is a table of objects
  that refer to each other by number; \<open>unfold_node\<close> reads such a table directly, \<open>encode_plist\<close> lays it
  out in bytes, and the decoder of the source computes on the bytes what \<open>unfold_node\<close> computes on the
  table: for shared, missing and cyclic references too.
\<close>

section \<open>Object tables\<close>

datatype plist_node =
    NBool bool
  | NInt nat nat
  | NReal u64
  | NDate u64
  | NData "u8 list"
  | NText "u8 list"
  | NUnits "u16 list"
  | NArray "nat list"
  | NDict "(nat \<times> nat) list"

fun collect_all :: "('a \<Rightarrow> ('b, 'e) rust_result) \<Rightarrow> 'a list \<Rightarrow> ('b list, 'e) rust_result" where
  "collect_all f [] = Ok []"
| "collect_all f (x # xs) = and_then (f x) (\<lambda>y. and_then (collect_all f xs) (\<lambda>ys. Ok (y # ys)))"

fun collect_dict ::
    "(nat \<Rightarrow> plist_value plist_result) \<Rightarrow> (nat \<times> nat) list \<Rightarrow> (string \<times> plist_value) list \<Rightarrow>
     (string \<times> plist_value) list plist_result" where
  "collect_dict f [] m = Ok m"
| "collect_dict f ((k, v) # kvs) m =
     and_then (f k) (\<lambda>kobj.
     and_then (ok_or BadReference (as_str kobj)) (\<lambda>key.
     and_then (f v) (\<lambda>val. collect_dict f kvs (bt_insert key val m))))"

fun scalar_node :: "plist_node \<Rightarrow> plist_value" where
  "scalar_node (NBool b) = PBool b"
| "scalar_node (NInt w v) = PInteger (of_nat v)"
| "scalar_node (NReal r) = PReal r"
| "scalar_node (NDate r) = PReal r"
| "scalar_node (NData d) = PData d"
| "scalar_node (NText t) = PString (from_utf8_lossy t)"
| "scalar_node (NUnits us) = PString (from_utf16_lossy us)"
| "scalar_node _ = PBool False"

function unfold_node :: "plist_node list \<Rightarrow> nat \<Rightarrow> nat \<Rightarrow> plist_value plist_result" where
  "unfold_node nodes idx depth =
     (if depth > 128 \<or> idx \<ge> length nodes then Err BadReference
      else case nodes ! idx of
        NArray refs \<Rightarrow>
          and_then (collect_all (\<lambda>r. unfold_node nodes r (depth + 1)) refs) (\<lambda>vs. Ok (PArray vs))
      | NDict kvs \<Rightarrow>
          and_then (collect_dict (\<lambda>r. unfold_node nodes r (depth + 1)) kvs []) (\<lambda>m. Ok (PDict m))
      | n \<Rightarrow> Ok (scalar_node n))"
  by pat_completeness auto
termination
  by (relation "measure (\<lambda>(nodes, idx, depth). 129 - depth)") auto

declare unfold_node.simps [simp del]

section \<open>Laying a table out in bytes\<close>

definition nat_be :: "nat \<Rightarrow> nat \<Rightarrow> u8 list" where
  "nat_be k v = rev (nat_le k v)"

definition encode_count :: "u8 \<Rightarrow> nat \<Rightarrow> u8 list" where
  "encode_count ty n = (if n < 15 then [push_bit 4 ty OR of_nat n] else [push_bit 4 ty OR 15, 0x13] @ nat_be 8 n)"

fun encode_node :: "nat \<Rightarrow> plist_node \<Rightarrow> u8 list" where
  "encode_node rs (NBool b) = [if b then 0x09 else 0x08]"
| "encode_node rs (NInt w v) = (0x10 + of_nat w) # nat_be (2 ^ w) v"
| "encode_node rs (NReal r) = 0x23 # nat_be 8 (unat r)"
| "encode_node rs (NDate r) = 0x33 # nat_be 8 (unat r)"
| "encode_node rs (NData d) = encode_count 0x4 (length d) @ d"
| "encode_node rs (NText t) = encode_count 0x5 (length t) @ t"
| "encode_node rs (NUnits us) = encode_count 0x6 (length us) @ concat (map (\<lambda>u. nat_be 2 (unat u)) us)"
| "encode_node rs (NArray refs) = encode_count 0xA (length refs) @ concat (map (nat_be rs) refs)"
| "encode_node rs (NDict kvs) =
     encode_count 0xD (length kvs) @ concat (map (nat_be rs) (map fst kvs)) @ concat (map (nat_be rs) (map snd kvs))"

fun node_offsets :: "nat \<Rightarrow> nat \<Rightarrow> plist_node list \<Rightarrow> nat list" where
  "node_offsets rs off [] = []"
| "node_offsets rs off (n # ns) = off # node_offsets rs (off + length (encode_node rs n)) ns"

definition encode_body :: "nat \<Rightarrow> plist_node list \<Rightarrow> u8 list" where
  "encode_body rs nodes = as_bytes ''bplist00'' @ concat (map (encode_node rs) nodes)"

definition encode_plist :: "nat \<Rightarrow> nat \<Rightarrow> plist_node list \<Rightarrow> nat \<Rightarrow> u8 list" where
  "encode_plist rs os nodes start =
     encode_body rs nodes @ concat (map (nat_be os) (node_offsets rs 8 nodes)) @
     [0, 0, 0, 0, 0, 0, of_nat os, of_nat rs] @ nat_be 8 (length nodes) @ nat_be 8 start @
     nat_be 8 (length (encode_body rs nodes))"

definition node_ok :: "nat \<Rightarrow> plist_node \<Rightarrow> bool" where
  "node_ok rs n =
     (case n of
        NInt w v \<Rightarrow> w \<le> 3 \<and> v < 256 ^ 2 ^ w
      | NArray refs \<Rightarrow> list_all (\<lambda>r. r < 256 ^ rs) refs
      | NDict kvs \<Rightarrow> list_all (\<lambda>(k, v). k < 256 ^ rs \<and> v < 256 ^ rs) kvs
      | _ \<Rightarrow> True)"

definition table_ok :: "nat \<Rightarrow> nat \<Rightarrow> plist_node list \<Rightarrow> nat \<Rightarrow> bool" where
  "table_ok rs os nodes start \<longleftrightarrow>
     1 \<le> rs \<and> rs \<le> 8 \<and> 1 \<le> os \<and> os \<le> 8 \<and> list_all (node_ok rs) nodes \<and> start < length nodes \<and>
     length (encode_body rs nodes) < 256 ^ os \<and> length (encode_plist rs os nodes start) < 2 ^ 58"

section \<open>Big-endian numbers\<close>

lemma length_nat_be [simp]: "length (nat_be k v) = k"
  by (simp add: nat_be_def)

lemma shift_or_byte: "push_bit 8 (acc :: u64) OR ucast (x :: u8) = 256 * acc + ucast x"
proof -
  have "push_bit 8 acc OR ucast x = push_bit 8 acc + (ucast x :: u64)"
    by (rule disjunctive_add [symmetric]) (auto simp: bit_simps dest: bit_imp_le_length)
  then show ?thesis by (simp add: push_bit_eq_mult mult.commute)
qed

lemma be_uint_rev: "be_uint (rev bs) = of_nat (le_nat bs)"
proof (induction bs)
  case (Cons b bs)
  have "be_uint (rev (b # bs)) = push_bit 8 (be_uint (rev bs)) OR ucast b" by (simp add: be_uint_def)
  then show ?case using Cons by (simp add: shift_or_byte unsigned_of_nat [symmetric] word_of_nat_eq_iff)
qed (simp add: be_uint_def)

lemma be_uint_nat_be: "v < 256 ^ k \<Longrightarrow> be_uint (nat_be k v) = of_nat v"
  by (simp add: nat_be_def be_uint_rev le_nat_nat_le)

lemma from_be_nat_be: "v < 256 ^ k \<Longrightarrow> from_be_bytes (nat_be k v) = of_nat v"
  by (simp add: from_be_bytes_def nat_be_def le_nat_nat_le)

lemma be_int_nat_be: "v < 256 ^ k \<Longrightarrow> be_int (nat_be k v) = Ok (of_nat v)"
  using from_be_nat_be [of v k] by (auto simp: be_int_def be_u64_def slice_index_def slice_get_def be_uint_nat_be)

lemma be_units_nat_be: "be_units (concat (map (\<lambda>u. nat_be 2 (unat u)) us)) = us"
proof (induction us)
  case (Cons u us)
  obtain x y where xy: "nat_be 2 (unat u) = [x, y]"
    using length_nat_be [of 2 "unat u"] by (auto simp: length_Suc_conv numeral_2_eq_2 simp del: length_nat_be)
  have "unat u < 256 ^ 2" using unsigned_less [of u] by simp
  from from_be_nat_be [OF this, where 'a = 16] xy Cons show ?case by simp
qed simp

section \<open>Reading encoded pieces\<close>

text \<open>\<open>holds_at buf off bs\<close>: the bytes \<open>bs\<close> stand in the buffer from offset \<open>off\<close> on.\<close>

definition holds_at :: "u8 list \<Rightarrow> nat \<Rightarrow> u8 list \<Rightarrow> bool" where
  "holds_at buf off bs \<longleftrightarrow> off + length bs \<le> length buf \<and> take (length bs) (drop off buf) = bs"

lemma holds_at_append:
  "holds_at buf off (xs @ ys) \<longleftrightarrow> holds_at buf off xs \<and> holds_at buf (off + length xs) ys"
proof (cases "off + length xs + length ys \<le> length buf")
  case True
  then have "take (length xs + length ys) (drop off buf) = xs @ ys \<longleftrightarrow>
      take (length xs) (drop off buf) = xs \<and> take (length ys) (drop (off + length xs) buf) = ys"
    by (simp add: take_add add.commute append_eq_append_conv)
  with True show ?thesis by (simp add: holds_at_def add.assoc)
qed (auto simp: holds_at_def)

lemma holds_at_bound: "holds_at buf off bs \<Longrightarrow> off + length bs \<le> length buf"
  by (simp add: holds_at_def)

lemma holds_at_slice: "holds_at buf off bs \<Longrightarrow> slice_get buf off (off + length bs) = Some bs"
  by (simp add: holds_at_def slice_get_def)

lemma holds_at_Cons: "holds_at buf off (x # xs) \<Longrightarrow> off < length buf \<and> buf ! off = x \<and> holds_at buf (Suc off) xs"
  using holds_at_append [of buf off "[x]" xs] by (auto simp: holds_at_def take_Suc_conv_app_nth hd_drop_conv_nth)

lemma buf_get_held: "holds_at buf (unat off) (x # xs) \<Longrightarrow> buf_get buf off = Some x"
  by (auto simp: buf_get_def dest: holds_at_Cons)

lemma bp_slice_held:
  assumes "holds_at (bp_buf b) (unat off) bs" and "unat len = length bs" and "length (bp_buf b) < 2 ^ 58"
  shows "bp_slice b off len = Ok bs"
proof -
  have "unat off + unat len < 2 ^ 58" using holds_at_bound [OF assms(1)] assms(2,3) by simp
  then have "checked_add off len = Some (off + len)" "unat (off + len) = unat off + length bs"
    using unat_add_u64 [of off len] assms(2) by (simp_all add: checked_add_def)
  then show ?thesis using holds_at_slice [OF assms(1)] by (simp add: bp_slice_def)
qed

lemma read_ref_held:
  assumes "holds_at (bp_buf b) (unat pos) (nat_be rs r)" and "unat (bp_ref_size b) = rs" and "r < 256 ^ rs"
    and "length (bp_buf b) < 2 ^ 58"
  shows "read_ref b pos = Ok (of_nat r)"
proof -
  have bound: "unat pos + rs \<le> length (bp_buf b)" using holds_at_bound [OF assms(1)] by simp
  then have "unat (pos + bp_ref_size b) = unat pos + rs" using unat_add_u64 [of pos "bp_ref_size b"] assms(2,4) by simp
  then show ?thesis
    using holds_at_slice [OF assms(1)] bound assms(3) by (simp add: read_ref_def slice_index_def be_uint_nat_be)
qed

lemma unat_advance: "unat off + k < 2 ^ 58 \<Longrightarrow> unat (off + of_nat k :: u64) = unat off + k"
  using unat_add_u64 [of off "of_nat k"] unat_of_nat_u64 [of k] by simp

lemma marker_nibbles:
  fixes ty w :: u8
  assumes "take_bit 4 ty = ty" and "take_bit 4 w = w"
  shows "drop_bit 4 (push_bit 4 ty OR w) = ty" and "(push_bit 4 ty OR w) AND 0x0f = w"
proof -
  have low: "bit ty k \<Longrightarrow> k < 4" "bit w k \<Longrightarrow> k < 4" for k
    using arg_cong [OF assms(1), of "\<lambda>x. bit x k"] arg_cong [OF assms(2), of "\<lambda>x. bit x k"]
    by (auto simp: bit_take_bit_iff)
  show "drop_bit 4 (push_bit 4 ty OR w) = ty"
    by (rule bit_eqI) (auto simp: bit_simps dest: low)
  have "(push_bit 4 ty OR w) AND mask 4 = w"
    by (rule bit_eqI) (auto simp: bit_simps dest: low)
  then show "(push_bit 4 ty OR w) AND 0x0f = w" by (simp add: mask_eq_exp_minus_1)
qed

lemma count_held:
  assumes "holds_at (bp_buf b) (unat off) (encode_count ty n @ bs)" and "take_bit 4 ty = ty" and "length (bp_buf b) < 2 ^ 58"
    and "n < 2 ^ 58"
  obtains marker where "buf_get (bp_buf b) off = Some marker" and "drop_bit 4 marker = ty"
    and "count_and_offset b off (ucast (marker AND 0x0f)) = Ok (of_nat n, off + of_nat (length (encode_count ty n)))"
    and "holds_at (bp_buf b) (unat (off + of_nat (length (encode_count ty n)))) bs"
proof (cases "n < 15")
  case True
  let ?m = "push_bit 4 ty OR of_nat n :: u8"
  have "take_bit 4 (of_nat n) = (of_nat n :: u8)" using True by (simp add: take_bit_eq_mod unat_mod_distrib unat_of_nat word_unat_eq_iff)
  note nib = marker_nibbles [OF assms(2) this]
  have ec: "encode_count ty n = [?m]" using True by (simp add: encode_count_def)
  have u: "(ucast (of_nat n :: u8) :: u64) = of_nat n" "(of_nat n :: u64) \<noteq> 15"
    using True by (simp_all add: word_unat_eq_iff unat_of_nat unsigned_ucast_eq take_bit_nat_eq_self)
  have held: "holds_at (bp_buf b) (unat off) (?m # bs)" using assms(1) ec by simp
  have "unat (off + 1) = Suc (unat off)"
    using unat_advance [of off 1] holds_at_bound [OF held] assms(3) by simp
  with held nib ec u show ?thesis
    by (intro that [of ?m]) (simp_all add: buf_get_held [OF held] count_and_offset_def holds_at_Cons)
next
  case False
  let ?m = "push_bit 4 ty OR 15 :: u8"
  have "take_bit 4 (15 :: u8) = 15" by (simp add: take_bit_eq_mod)
  note nib = marker_nibbles [OF assms(2) this]
  have ec: "encode_count ty n = ?m # 0x13 # nat_be 8 n" using False by (simp add: encode_count_def)
  have held: "holds_at (bp_buf b) (unat off) (?m # 0x13 # nat_be 8 n @ bs)" using assms(1) ec by simp
  have fits: "unat off + 10 < 2 ^ 58" using holds_at_bound [OF held] assms(3) by simp
  have pos: "unat (off + 1) = Suc (unat off)" "unat (off + 2) = Suc (Suc (unat off))" "unat (off + 10) = unat off + 10"
    using unat_advance [of off 1] unat_advance [of off 2] unat_advance [of off 10] fits by simp_all
  have held2: "holds_at (bp_buf b) (unat (off + 1)) (0x13 # nat_be 8 n @ bs)" using holds_at_Cons [OF held] pos by simp
  then have held3: "holds_at (bp_buf b) (unat (off + 2)) (nat_be 8 n @ bs)" using holds_at_Cons [OF held2] pos by simp
  then have "holds_at (bp_buf b) (unat (off + 2)) (nat_be 8 n)" "holds_at (bp_buf b) (unat (off + 10)) bs"
    using pos by (simp_all add: holds_at_append add.commute)
  moreover from this have "bp_slice b (off + 2) 8 = Ok (nat_be 8 n)" using assms(3) by (intro bp_slice_held) simp_all
  moreover have "be_uint (nat_be 8 n) = of_nat n" using assms(4) by (intro be_uint_nat_be) simp
  moreover have "off + 2 + 8 = off + 10" by simp
  ultimately show ?thesis
    using nib by (intro that [of ?m])
      (simp_all add: buf_get_held [OF held] count_and_offset_def buf_get_held [OF held2] ec)
qed

section \<open>Decoding one object\<close>

lemma after_marker:
  assumes "holds_at (bp_buf b) (unat off) (x # bs)" and "length (bp_buf b) < 2 ^ 58"
  shows "buf_get (bp_buf b) off = Some x" and "holds_at (bp_buf b) (unat (off + 1)) bs"
    and "unat len = length bs \<Longrightarrow> bp_slice b (off + 1) len = Ok bs"
proof -
  show "buf_get (bp_buf b) off = Some x" by (rule buf_get_held [OF assms(1)])
  have "unat (off + 1) = Suc (unat off)" using unat_advance [of off 1] holds_at_bound [OF assms(1)] assms(2) by simp
  then show held: "holds_at (bp_buf b) (unat (off + 1)) bs" using holds_at_Cons [OF assms(1)] by simp
  show "bp_slice b (off + 1) len = Ok bs" if "unat len = length bs" by (rule bp_slice_held [OF held that assms(2)])
qed

lemma scalar_int:
  assumes "holds_at (bp_buf b) (unat off) (encode_node rs (NInt w v))" and "length (bp_buf b) < 2 ^ 58"
    and "w \<le> 3" and "v < 256 ^ 2 ^ w"
  shows "buf_get (bp_buf b) off = Some (0x10 + of_nat w)" and "drop_bit 4 (0x10 + of_nat w :: u8) = 1"
    and "scalar_object b off (0x10 + of_nat w) = Ok (PInteger (of_nat v))"
proof -
  have held: "holds_at (bp_buf b) (unat off) ((0x10 + of_nat w) # nat_be (2 ^ w) v)" using assms(1) by simp
  have "w \<in> {0, 1, 2, 3}" using assms(3) by auto
  then have m: "drop_bit 4 (0x10 + of_nat w :: u8) = 1" "ucast ((0x10 + of_nat w :: u8) AND 0x0f) = (of_nat w :: u64)"
    "unat (of_nat w :: u64) = w" "unat (2 ^ w :: u64) = 2 ^ w"
    by auto
  then show "buf_get (bp_buf b) off = Some (0x10 + of_nat w)" "drop_bit 4 (0x10 + of_nat w :: u8) = 1"
    using after_marker(1) [OF held assms(2)] by simp_all
  have "bp_slice b (off + 1) (2 ^ w) = Ok (nat_be (2 ^ w) v)"
    by (rule after_marker(3) [OF held assms(2)]) (simp add: m(4))
  then show "scalar_object b off (0x10 + of_nat w) = Ok (PInteger (of_nat v))"
    by (simp add: scalar_object_def m be_int_nat_be [OF assms(4)])
qed

lemma scalar_counted:
  assumes "holds_at (bp_buf b) (unat off) (encode_count ty n @ bs)" and "length (bp_buf b) < 2 ^ 58" and "ty \<in> {4, 5, 6}"
    and "length bs = (if ty = 6 then 2 * n else n)"
  obtains marker where "buf_get (bp_buf b) off = Some marker" and "drop_bit 4 marker = ty"
    and "scalar_object b off marker = Ok (if ty = 4 then PData bs else if ty = 5 then PString (from_utf8_lossy bs)
      else PString (from_utf16_lossy (be_units bs)))"
proof -
  have "n \<le> length bs" "length bs < 2 ^ 58" using assms(4) holds_at_bound [OF assms(1)] assms(2) by (auto split: if_splits)
  then have n: "n < 2 ^ 58" "2 * n < 2 ^ 64" by simp_all
  have "take_bit 4 ty = ty" using assms(3) by (auto simp: take_bit_eq_mod)
  from count_held [OF assms(1) this assms(2) n(1)] obtain marker where
      marker: "buf_get (bp_buf b) off = Some marker" "drop_bit 4 marker = ty"
        "count_and_offset b off (ucast (marker AND 0x0f)) = Ok (of_nat n, off + of_nat (length (encode_count ty n)))"
      and held: "holds_at (bp_buf b) (unat (off + of_nat (length (encode_count ty n)))) bs" .
  have "unat (if ty = 6 then of_nat n * 2 else of_nat n :: u64) = length bs"
    using assms(4) n unat_of_nat_u64 [of n] unat_of_nat_u64 [of "2 * n"] by (auto simp: mult.commute)
  from bp_slice_held [OF held this assms(2)] show ?thesis
    using assms(3) marker by (intro that [of marker]) (auto simp: scalar_object_def)
qed

lemma scalar_held:
  assumes "holds_at (bp_buf b) (unat off) (encode_node rs n)" and "length (bp_buf b) < 2 ^ 58" and "node_ok rs n"
    and "\<And>refs. n \<noteq> NArray refs" and "\<And>kvs. n \<noteq> NDict kvs"
  obtains marker where "buf_get (bp_buf b) off = Some marker" and "drop_bit 4 marker \<noteq> 0xA" and "drop_bit 4 marker \<noteq> 0xD"
    and "scalar_object b off marker = Ok (scalar_node n)"
proof (cases n)
  case (NBool v)
  with assms(1,2) show ?thesis
    by (intro that [of "if v then 9 else 8"]) (auto simp: scalar_object_def dest: after_marker(1))
next
  case (NInt w v)
  with assms(3) have "w \<le> 3" "v < 256 ^ 2 ^ w" by (simp_all add: node_ok_def)
  from scalar_int [OF assms(1) [unfolded NInt] assms(2) this] show ?thesis
    by (intro that [of "0x10 + of_nat w"]) (simp_all add: NInt)
next
  case (NReal r)
  have "unat r < 256 ^ 8" by simp
  with after_marker [OF assms(1) [unfolded NReal encode_node.simps] assms(2)] NReal show ?thesis
    by (intro that [of "0x23"]) (simp_all add: scalar_object_def push_bit_eq_mult from_be_nat_be)
next
  case (NDate r)
  have "unat r < 256 ^ 8" by simp
  with after_marker [OF assms(1) [unfolded NDate encode_node.simps] assms(2)] NDate show ?thesis
    by (intro that [of "0x33"]) (simp_all add: scalar_object_def from_be_nat_be)
next
  case (NData d)
  from assms(1,2) show ?thesis unfolding NData encode_node.simps
    by (rule scalar_counted) (use NData that in auto)
next
  case (NText d)
  from assms(1,2) show ?thesis unfolding NText encode_node.simps
    by (rule scalar_counted) (use NText that in auto)
next
  case (NUnits us)
  have "length (concat (map (\<lambda>u. nat_be 2 (unat u)) us)) = 2 * length us" by (induction us) simp_all
  with assms(1,2) show ?thesis unfolding NUnits encode_node.simps
    by - (rule scalar_counted, assumption+, (use NUnits that be_units_nat_be in auto))
qed (use assms(4,5) in auto)

section \<open>Decoding containers\<close>

lemma collect_all_cong: "(\<And>x. x \<in> set xs \<Longrightarrow> f x = g x) \<Longrightarrow> collect_all f xs = collect_all g xs"
  by (induction xs) simp_all

lemma collect_dict_cong:
  "(\<And>k v. (k, v) \<in> set kvs \<Longrightarrow> f k = g k \<and> f v = g v) \<Longrightarrow> collect_dict f kvs m = collect_dict g kvs m"
proof (induction kvs arbitrary: m)
  case (Cons kv kvs)
  obtain k v where kv: "kv = (k, v)" by (cases kv)
  have "f k = g k" "f v = g v" using Cons.prems [of k v] kv by simp_all
  moreover have "collect_dict f kvs m = collect_dict g kvs m" for m by (rule Cons.IH) (use Cons.prems in auto)
  ultimately show ?case by (simp add: kv)
qed simp

lemma unat_ref_position:
  assumes "unat (bp_ref_size b) = rs" and "unat base + i * rs < 2 ^ 58"
  shows "unat (base + of_nat i * bp_ref_size b) = unat base + i * rs"
proof -
  have "bp_ref_size b = of_nat rs" using assms(1) by auto
  then have "of_nat i * bp_ref_size b = of_nat (i * rs)" by simp
  then show ?thesis using unat_advance [OF assms(2)] by simp
qed

lemma read_ref_at:
  assumes "holds_at (bp_buf b) (unat base + i * rs) (nat_be rs r @ bs)" and "unat (bp_ref_size b) = rs" and "r < 256 ^ rs"
    and "length (bp_buf b) < 2 ^ 58"
  shows "read_ref b (base + of_nat i * bp_ref_size b) = Ok (of_nat r)" and "holds_at (bp_buf b) (unat base + Suc i * rs) bs"
proof -
  have "unat base + i * rs < 2 ^ 58" using holds_at_bound [OF assms(1)] assms(4) by simp
  note pos = unat_ref_position [OF assms(2) this]
  from assms(1) have here: "holds_at (bp_buf b) (unat base + i * rs) (nat_be rs r)" and next': "holds_at (bp_buf b) (unat base + i * rs + rs) bs"
    by (simp_all add: holds_at_append)
  show "read_ref b (base + of_nat i * bp_ref_size b) = Ok (of_nat r)"
    by (rule read_ref_held [OF _ assms(2-4)]) (simp add: pos here)
  show "holds_at (bp_buf b) (unat base + Suc i * rs) bs" using next' by (simp add: add_ac)
qed

lemma array_items_held:
  assumes "holds_at (bp_buf b) (unat base + i * rs) (concat (map (nat_be rs) refs))" and "unat (bp_ref_size b) = rs"
    and "list_all (\<lambda>r. r < 256 ^ rs) refs" and "length (bp_buf b) < 2 ^ 58"
  shows "array_items b obj base i (length refs) = collect_all (\<lambda>r. obj (of_nat r)) refs"
  using assms(1,3)
proof (induction refs arbitrary: i)
  case (Cons r refs)
  then have "holds_at (bp_buf b) (unat base + i * rs) (nat_be rs r @ concat (map (nat_be rs) refs))" "r < 256 ^ rs" by simp_all
  from read_ref_at [OF this(1) assms(2) this(2) assms(4)] Cons show ?case by simp
qed simp

lemma dict_items_held:
  assumes "holds_at (bp_buf b) (unat kb + i * rs) (concat (map (nat_be rs) (map fst kvs)))"
    and "holds_at (bp_buf b) (unat vb + i * rs) (concat (map (nat_be rs) (map snd kvs)))" and "unat (bp_ref_size b) = rs"
    and "list_all (\<lambda>(k, v). k < 256 ^ rs \<and> v < 256 ^ rs) kvs" and "length (bp_buf b) < 2 ^ 58"
  shows "dict_items b obj kb vb i (length kvs) m = collect_dict (\<lambda>r. obj (of_nat r)) kvs m"
  using assms(1,2,4)
proof (induction kvs arbitrary: i m)
  case (Cons kv kvs)
  obtain k v where kv: "kv = (k, v)" by (cases kv)
  with Cons.prems have
    "holds_at (bp_buf b) (unat kb + i * rs) (nat_be rs k @ concat (map (nat_be rs) (map fst kvs)))" "k < 256 ^ rs"
    "holds_at (bp_buf b) (unat vb + i * rs) (nat_be rs v @ concat (map (nat_be rs) (map snd kvs)))" "v < 256 ^ rs"
    by simp_all
  note here = read_ref_at [OF this(1) assms(3) this(2) assms(5)] read_ref_at [OF this(3) assms(3) this(4) assms(5)]
  from Cons.IH [OF here(2,4)] Cons.prems(3) here(1,3) kv show ?case by simp
qed simp

definition decodes :: "bplist \<Rightarrow> nat \<Rightarrow> plist_node list \<Rightarrow> bool" where
  "decodes b rs nodes \<longleftrightarrow>
     unat (bp_ref_size b) = rs \<and> 1 \<le> rs \<and> rs \<le> 8 \<and> length (bp_buf b) < 2 ^ 58 \<and> list_all (node_ok rs) nodes \<and>
     length (bp_offsets b) = length nodes \<and>
     (\<forall>i < length nodes. holds_at (bp_buf b) (unat (bp_offsets b ! i)) (encode_node rs (nodes ! i)))"

lemma length_refs: "length (concat (map (nat_be rs) refs)) = rs * length refs"
  by (induction refs) simp_all

lemma array_object:
  assumes "decodes b rs nodes" and "idx < length nodes" and "nodes ! idx = NArray refs" and "depth \<le> 128" and "idx < 2 ^ 64"
  shows "object_at b (of_nat idx) depth =
    and_then (collect_all (\<lambda>r. object_at b (of_nat r) (depth + 1)) refs) (\<lambda>vs. Ok (PArray vs))"
proof -
  let ?off = "bp_offsets b ! idx"
  from assms(1-3) have held: "holds_at (bp_buf b) (unat ?off) (encode_count 0xA (length refs) @ concat (map (nat_be rs) refs))"
    and b: "unat (bp_ref_size b) = rs" "length (bp_buf b) < 2 ^ 58" "1 \<le> rs" "length (bp_offsets b) = length nodes"
    and refs: "list_all (\<lambda>r. r < 256 ^ rs) refs"
    by (fastforce simp: decodes_def node_ok_def list_all_length)+
  have "length refs \<le> rs * length refs" "rs * length refs \<le> length (bp_buf b)"
    using b(3) holds_at_bound [OF held] by (simp_all add: length_refs)
  then have n: "length refs < 2 ^ 58" using b(2) by (meson le_less_trans order_trans)
  have "take_bit 4 (0xA :: u8) = 0xA" by (simp add: take_bit_eq_mod)
  from count_held [OF held this b(2) n] obtain marker where
    marker: "buf_get (bp_buf b) ?off = Some marker" "drop_bit 4 marker = 0xA"
      "count_and_offset b ?off (ucast (marker AND 0x0f)) = Ok (of_nat (length refs), ?off + of_nat (length (encode_count 0xA (length refs))))"
    and rest: "holds_at (bp_buf b) (unat (?off + of_nat (length (encode_count 0xA (length refs))))) (concat (map (nat_be rs) refs))" .
  have "unat (of_nat idx :: u64) = idx" "unat (of_nat (length refs) :: u64) = length refs"
    using unat_of_nat_u64 assms(5) n by simp_all
  moreover have "vec_with_capacity PLIST_VALUE_SIZE (length refs) = (Ok () :: unit plist_result)"
    using n by (simp add: vec_with_capacity_def PLIST_VALUE_SIZE_def)
  moreover note array_items_held [OF _ b(1) refs b(2), where i = 0, simplified, OF rest]
  ultimately show ?thesis using assms(2,4) b(4) marker by (subst object_at.simps) simp
qed

lemma dict_object:
  assumes "decodes b rs nodes" and "idx < length nodes" and "nodes ! idx = NDict kvs" and "depth \<le> 128" and "idx < 2 ^ 64"
  shows "object_at b (of_nat idx) depth =
    and_then (collect_dict (\<lambda>r. object_at b (of_nat r) (depth + 1)) kvs []) (\<lambda>m. Ok (PDict m))"
proof -
  let ?off = "bp_offsets b ! idx" and ?ks = "concat (map (nat_be rs) (map fst kvs))" and ?vs = "concat (map (nat_be rs) (map snd kvs))"
  let ?ec = "encode_count 0xD (length kvs)"
  from assms(1-3) have held: "holds_at (bp_buf b) (unat ?off) (?ec @ ?ks @ ?vs)"
    and b: "unat (bp_ref_size b) = rs" "length (bp_buf b) < 2 ^ 58" "1 \<le> rs" "length (bp_offsets b) = length nodes"
    and kvs: "list_all (\<lambda>(k, v). k < 256 ^ rs \<and> v < 256 ^ rs) kvs"
    by (fastforce simp: decodes_def node_ok_def list_all_length)+
  have len: "length ?ks = length kvs * rs" using length_refs [of rs "map fst kvs"] by simp
  have "length kvs \<le> length kvs * rs" "length kvs * rs \<le> length (bp_buf b)"
    using b(3) len holds_at_bound [OF held] by simp_all
  then have n: "length kvs < 2 ^ 58" using b(2) by (meson le_less_trans order_trans)
  have "take_bit 4 (0xD :: u8) = 0xD" by (simp add: take_bit_eq_mod)
  from count_held [OF held this b(2) n] obtain marker where
    marker: "buf_get (bp_buf b) ?off = Some marker" "drop_bit 4 marker = 0xD"
      "count_and_offset b ?off (ucast (marker AND 0x0f)) = Ok (of_nat (length kvs), ?off + of_nat (length ?ec))"
    and rest: "holds_at (bp_buf b) (unat (?off + of_nat (length ?ec))) (?ks @ ?vs)" .
  let ?kb = "?off + of_nat (length ?ec)" and ?vb = "?off + of_nat (length ?ec) + of_nat (length kvs) * bp_ref_size b"
  have "unat ?kb + length kvs * rs < 2 ^ 58" using holds_at_bound [OF rest] b(2) len by simp
  from unat_ref_position [OF b(1) this] rest len have "holds_at (bp_buf b) (unat ?kb) ?ks" "holds_at (bp_buf b) (unat ?vb) ?vs"
    by (simp_all add: holds_at_append)
  note dict_items_held [OF _ _ b(1) kvs b(2), where i = 0, simplified, OF this [simplified]]
  moreover have "unat (of_nat idx :: u64) = idx" "unat (of_nat (length kvs) :: u64) = length kvs"
    using unat_of_nat_u64 assms(5) n by simp_all
  ultimately show ?thesis using assms(2,4) b(4) marker by (subst object_at.simps) simp
qed

lemma object_at_unfold:
  assumes "decodes b rs nodes" and "idx < 2 ^ 64"
  shows "object_at b (of_nat idx) depth = unfold_node nodes idx depth"
  using assms
proof (induction nodes idx depth rule: unfold_node.induct)
  case (1 nodes idx depth)
  have u: "unat (of_nat idx :: u64) = idx" using unat_of_nat_u64 1(4) by simp
  have b: "rs \<le> 8" "length (bp_offsets b) = length nodes" using 1(3) by (auto simp: decodes_def)
  have "(256 :: nat) ^ rs \<le> 256 ^ 8" using b(1) by (intro power_increasing) simp_all
  then have small: "r < 2 ^ 64" if "r < 256 ^ rs" for r :: nat using that by simp
  show ?case
  proof (cases "depth > 128 \<or> idx \<ge> length nodes")
    case True
    then show ?thesis using u b by (subst object_at.simps, subst unfold_node.simps) auto
  next
    case False
    then have ok: "idx < length nodes" "depth \<le> 128" "node_ok rs (nodes ! idx)" "length (bp_buf b) < 2 ^ 58"
      and held: "holds_at (bp_buf b) (unat (bp_offsets b ! idx)) (encode_node rs (nodes ! idx))"
      using 1(3) by (auto simp: decodes_def list_all_length)
    show ?thesis
    proof (cases "(\<exists>refs. nodes ! idx = NArray refs) \<or> (\<exists>kvs. nodes ! idx = NDict kvs)")
      case container: True
      then consider (array) refs where "nodes ! idx = NArray refs" | (dict) kvs where "nodes ! idx = NDict kvs" by blast
      then show ?thesis
      proof cases
        case (array refs)
        with ok(3) have "object_at b (of_nat r) (depth + 1) = unfold_node nodes r (depth + 1)" if "r \<in> set refs" for r
          using that by (intro 1(1) [OF False array 1(3)] small) (auto simp: node_ok_def list_all_iff)
        then have "collect_all (\<lambda>r. object_at b (of_nat r) (depth + 1)) refs = collect_all (\<lambda>r. unfold_node nodes r (depth + 1)) refs"
          by (intro collect_all_cong)
        then show ?thesis using array_object [OF 1(3) ok(1) array ok(2) 1(4)] False array by (simp add: unfold_node.simps [of nodes idx])
      next
        case (dict kvs)
        with ok(3) have "object_at b (of_nat r) (depth + 1) = unfold_node nodes r (depth + 1)" if "r \<in> fst ` set kvs \<union> snd ` set kvs" for r
          using that by (intro 1(2) [OF False dict 1(3)] small) (auto simp: node_ok_def list_all_iff)
        then have "collect_dict (\<lambda>r. object_at b (of_nat r) (depth + 1)) kvs [] = collect_dict (\<lambda>r. unfold_node nodes r (depth + 1)) kvs []"
          by (intro collect_dict_cong) force
        then show ?thesis using dict_object [OF 1(3) ok(1) dict ok(2) 1(4)] False dict by (simp add: unfold_node.simps [of nodes idx])
      qed
    next
      case scalar: False
      then obtain marker where "buf_get (bp_buf b) (bp_offsets b ! idx) = Some marker" "drop_bit 4 marker \<noteq> 0xA" "drop_bit 4 marker \<noteq> 0xD"
          "scalar_object b (bp_offsets b ! idx) marker = Ok (scalar_node (nodes ! idx))"
        using scalar_held [OF held ok(4,3)] by blast
      moreover have "unfold_node nodes idx depth = Ok (scalar_node (nodes ! idx))"
        using scalar False by (subst unfold_node.simps) (auto split: plist_node.splits)
      ultimately show ?thesis using ok(1,2) u b(2) by (subst object_at.simps) simp
    qed
  qed
qed

section \<open>Decoding a file\<close>

lemma length_node_offsets [simp]: "length (node_offsets rs off nodes) = length nodes"
  by (induction nodes arbitrary: off) simp_all

lemma node_offsets_held:
  assumes "i < length nodes"
  shows "holds_at (pre @ concat (map (encode_node rs) nodes) @ post) (node_offsets rs (length pre) nodes ! i) (encode_node rs (nodes ! i))"
  using assms
proof (induction nodes arbitrary: i pre)
  case (Cons n nodes)
  show ?case
  proof (cases i)
    case (Suc k)
    with Cons.prems Cons.IH [of k "pre @ encode_node rs n"] show ?thesis by simp
  qed (simp add: holds_at_def)
qed simp

lemma node_offsets_bound:
  "off' \<in> set (node_offsets rs off nodes) \<Longrightarrow> off' \<le> off + length (concat (map (encode_node rs) nodes))"
  by (induction nodes arbitrary: off) fastforce+

lemma offset_table_held:
  assumes "holds_at buf (unat tab + i * os) (concat (map (nat_be os) offs))" and "list_all (\<lambda>o'. o' < 256 ^ os) offs"
    and "unat osw = os" and "length buf < 2 ^ 58"
  shows "offset_table buf tab osw i (length offs) = Ok (map of_nat offs)"
  using assms(1,2)
proof (induction offs arbitrary: i)
  case (Cons off offs)
  then have held: "holds_at buf (unat tab + i * os) (nat_be os off)" "holds_at buf (unat tab + Suc i * os) (concat (map (nat_be os) offs))"
    by (simp_all add: holds_at_append add_ac)
  have fits: "unat tab + i * os + os < 2 ^ 58" using holds_at_bound [OF held(1)] assms(4) by simp
  have "osw = of_nat os" using assms(3) by auto
  then have "tab + of_nat i * osw = tab + of_nat (i * os)" "tab + of_nat i * osw + osw = tab + of_nat (i * os + os)" by simp_all
  then have "unat (tab + of_nat i * osw) = unat tab + i * os" "unat (tab + of_nat i * osw + osw) = unat tab + i * os + os"
    using unat_advance [of tab "i * os"] unat_advance [of tab "i * os + os"] fits by (simp_all add: add_ac)
  then show ?case
    using Cons.IH [OF held(2)] Cons.prems(2) holds_at_slice [OF held(1)]
    by (simp add: Let_def slice_index_def be_uint_nat_be)
qed simp

lemma be_u64_nat_be: "v < 2 ^ 58 \<Longrightarrow> be_u64 (nat_be 8 v) = Ok (of_nat v)"
  using be_int_nat_be [of v 8] by (simp add: be_int_def)

lemma trailer_fields:
  fixes os rs n start tab :: nat
  assumes "trailer = [0, 0, 0, 0, 0, 0, of_nat os, of_nat rs] @ nat_be 8 n @ nat_be 8 start @ nat_be 8 tab"
    and "os \<le> 8" and "rs \<le> 8"
  shows "length trailer = 32" and "unat (ucast (trailer ! 6) :: u64) = os" and "unat (ucast (trailer ! 7) :: u64) = rs"
    and "slice_index trailer 8 16 = Ok (nat_be 8 n)" and "slice_index trailer 16 24 = Ok (nat_be 8 start)"
    and "slice_index trailer 24 32 = Ok (nat_be 8 tab)"
proof -
  obtain hd' where hd': "hd' = [0, 0, 0, 0, 0, 0, of_nat os, of_nat rs :: u8]" "length hd' = 8" by simp
  have tr: "trailer = hd' @ nat_be 8 n @ nat_be 8 start @ nat_be 8 tab" using assms(1) hd'(1) by simp
  show "length trailer = 32" using hd'(2) by (simp add: tr)
  have "unat (of_nat os :: u8) = os" "unat (of_nat rs :: u8) = rs" using assms(2,3) by (simp_all add: unat_of_nat)
  then show "unat (ucast (trailer ! 6) :: u64) = os" "unat (ucast (trailer ! 7) :: u64) = rs"
    using assms(2,3) by (simp_all add: assms(1) unsigned_ucast_eq take_bit_nat_eq_self)
  show "slice_index trailer 8 16 = Ok (nat_be 8 n)" "slice_index trailer 16 24 = Ok (nat_be 8 start)"
    "slice_index trailer 24 32 = Ok (nat_be 8 tab)"
    using hd'(2) by (simp_all add: tr slice_index_def slice_get_def)
qed

lemma table_decodes:
  assumes "buf = encode_body rs nodes @ concat (map (nat_be os) (node_offsets rs 8 nodes)) @ trailer" and "length buf < 2 ^ 58"
    and "1 \<le> rs" and "rs \<le> 8" and "list_all (node_ok rs) nodes" and "length (encode_body rs nodes) < 256 ^ os"
    and "unat osw = os" and "unat rsw = rs"
  shows "offset_table buf (of_nat (length (encode_body rs nodes))) osw 0 (length nodes) = Ok (map of_nat (node_offsets rs 8 nodes))"
    and "decodes \<lparr>bp_buf = buf, bp_ref_size = rsw, bp_offsets = map of_nat (node_offsets rs 8 nodes)\<rparr> rs nodes"
proof -
  let ?body = "encode_body rs nodes" and ?offs = "node_offsets rs 8 nodes"
  have body: "length ?body < 2 ^ 58" using assms(1,2) by simp
  have bound: "o' \<le> length ?body" if "o' \<in> set ?offs" for o'
    using node_offsets_bound [OF that] by (simp add: encode_body_def)
  have "holds_at buf (length ?body) (concat (map (nat_be os) ?offs))" by (simp add: assms(1) holds_at_def)
  moreover have "list_all (\<lambda>o'. o' < 256 ^ os) ?offs" using bound assms(6) by (fastforce simp: list_all_iff)
  ultimately show "offset_table buf (of_nat (length ?body)) osw 0 (length nodes) = Ok (map of_nat ?offs)"
    using offset_table_held [of buf "of_nat (length ?body)" 0 os ?offs osw] unat_of_nat_u64 [of "length ?body"] body assms(2,7) by simp
  have magic: "length (as_bytes ''bplist00'') = 8" by simp
  have "holds_at buf (?offs ! i) (encode_node rs (nodes ! i))" if "i < length nodes" for i
    using node_offsets_held [OF that, of "as_bytes ''bplist00''" rs "concat (map (nat_be os) ?offs) @ trailer"] unfolding magic
    by (simp add: assms(1) encode_body_def)
  moreover have "?offs ! i < 2 ^ 64" if "i < length nodes" for i
    using bound [of "?offs ! i"] that body by simp
  ultimately show "decodes \<lparr>bp_buf = buf, bp_ref_size = rsw, bp_offsets = map of_nat ?offs\<rparr> rs nodes"
    using assms(2-5,8) by (simp add: decodes_def unat_of_nat_u64)
qed

lemma table_bounds:
  fixes n body os :: nat and osw :: u64
  assumes "unat osw = os" and "body + os * n < 2 ^ 58" and "1 \<le> os"
  shows "n < 2 ^ 58" and "unat (of_nat n :: u64) = n" and "unat (of_nat body :: u64) = body"
    and "checked_mul (of_nat n) osw = Some (of_nat n * osw)"
    and "checked_add (of_nat body) (of_nat n * osw) = Some (of_nat body + of_nat n * osw)"
    and "unat (of_nat body + of_nat n * osw) = body + os * n"
proof -
  have "n \<le> os * n" using assms(3) by simp
  then show n: "n < 2 ^ 58" by (rule le_less_trans) (use assms(2) in simp)
  then show w: "unat (of_nat n :: u64) = n" "unat (of_nat body :: u64) = body" using unat_of_nat_u64 assms(2) by simp_all
  show "checked_mul (of_nat n) osw = Some (of_nat n * osw)" using w(1) assms(1,2) by (simp add: checked_mul_def mult.commute)
  have mul: "unat (of_nat n * osw) = os * n"
    using w(1) assms(1,2) unat_mult_exact [of "of_nat n" osw] by (simp add: mult.commute)
  have room: "unat (of_nat body :: u64) + unat (of_nat n * osw) < 18446744073709551616"
    unfolding w(2) mul using assms(2) by simp
  then show "checked_add (of_nat body) (of_nat n * osw) = Some (of_nat body + of_nat n * osw)"
    "unat (of_nat body + of_nat n * osw) = body + os * n"
    using unat_add_u64 [OF room] mul unfolding checked_add_def w(2) by simp_all
qed

lemma bplist_parse_encoded:
  assumes "table_ok rs os nodes start"
  shows "bplist_parse (encode_plist rs os nodes start) = unfold_node nodes start 0"
proof -
  let ?body = "encode_body rs nodes" and ?table = "concat (map (nat_be os) (node_offsets rs 8 nodes))" and ?buf = "encode_plist rs os nodes start"
  obtain trailer where tr: "trailer = [0, 0, 0, 0, 0, 0, of_nat os, of_nat rs] @ nat_be 8 (length nodes) @ nat_be 8 start @ nat_be 8 (length ?body)"
    by simp
  have ok: "1 \<le> rs" "rs \<le> 8" "1 \<le> os" "os \<le> 8" "list_all (node_ok rs) nodes" "start < length nodes"
    "length ?body < 256 ^ os" and short: "length ?buf < 2 ^ 58"
    using assms by (auto simp: table_ok_def)
  have buf: "?buf = ?body @ ?table @ trailer" by (simp add: encode_plist_def tr)
  have table: "length ?table = os * length nodes" using length_refs [of os "node_offsets rs 8 nodes"] by simp
  note f = trailer_fields [OF tr ok(4,2)]
  let ?osw = "ucast (trailer ! 6) :: u64" and ?rsw = "ucast (trailer ! 7) :: u64"
  have "length ?buf - 32 = length (?body @ ?table)" using f(1) by (simp add: buf)
  then have drop: "drop (length ?buf - 32) ?buf = trailer" by (simp add: buf)
  have sz: "?osw \<noteq> 0" "\<not> ?osw > 8" "?rsw \<noteq> 0" "\<not> ?rsw > 8" using f(2,3) ok(1-4) by (auto simp: word_less_nat_alt)
  have "length ?body + os * length nodes < 2 ^ 58" using short unfolding buf by (simp add: table)
  note b = table_bounds [OF f(2) this ok(3)]
  note td = table_decodes [OF buf short ok(1,2,5,7) f(2,3)]
  have start: "start < 2 ^ 58" "\<not> (of_nat start :: u64) \<ge> of_nat (length nodes)"
    using b(1,2) ok(6) unat_of_nat_u64 [of start] by (simp_all add: word_le_nat_alt)
  have body: "length ?body < 2 ^ 58" using short unfolding buf by simp
  have "\<not> length ?buf < 40" using f(1) by (simp add: buf encode_body_def)
  moreover have "\<not> unat (of_nat (length ?body) + of_nat (length nodes) * ?osw) > length ?buf" using b(6) table by (simp add: buf)
  moreover have "vec_with_capacity 8 (length nodes) = (Ok () :: unit plist_result)" using b(1) by (simp add: vec_with_capacity_def)
  ultimately show ?thesis
    using object_at_unfold [OF td(2), of start 0] sz b(2,4,5) td(1) start be_u64_nat_be [OF b(1)] be_u64_nat_be [OF start(1)]
      be_u64_nat_be [OF body]
    by (simp add: bplist_parse_def drop Let_def f(4-6))
qed

section \<open>Properties\<close>

text \<open>
  C7. The binary decoder refines the object table: for any reference and offset width up to eight bytes and any
  table whose numbers fit those widths, decoding the encoded file gives what unfolding the table gives, a
  value or an error.  References may be shared, missing or cyclic: a cycle and nesting deeper than the guard
  allows end in \<open>BadReference\<close>, never in a panic or a loop.
\<close>

theorem plist_binary_refines:
  assumes "table_ok rs os nodes start"
  shows "plist_parse (encode_plist rs os nodes start) = unfold_node nodes start 0"
proof -
  have "prefix (as_bytes ''bplist00'') (encode_plist rs os nodes start)"
    by (simp add: encode_plist_def encode_body_def)
  then show ?thesis using bplist_parse_encoded [OF assms] by (simp add: plist_parse_def)
qed

definition sample_nodes :: "plist_node list" where
  "sample_nodes = [NDict [(1, 2), (3, 4)], NText [0x6B], NInt 0 7, NText [0x61], NArray [2, 5], NBool True]"

theorem plist_binary_refines_witness:
  "plist_parse (encode_plist 1 1 sample_nodes 0) =
     Ok (PDict [(''a'', PArray [PInteger 7, PBool True]), (''k'', PInteger 7)])"
proof -
  have "table_ok 1 1 sample_nodes 0"
    by (simp add: table_ok_def sample_nodes_def encode_plist_def encode_body_def encode_count_def node_ok_def)
  moreover have "byte_char 0x6B = CHR ''k''" "byte_char 0x61 = CHR ''a''"
    by (simp_all add: byte_char_def char_of_def bit_Suc_0_iff)
  ultimately show ?thesis
    using plist_binary_refines [of 1 1 sample_nodes 0]
    by (simp add: unfold_node.simps sample_nodes_def from_utf8_lossy_ascii is_ascii_def less_char_def)
qed

section \<open>A count that wraps around\<close>

lemma dict_items_panics:
  assumes "0 < k" and "read_ref b (kb + of_nat i * bp_ref_size b) = Ok kref" and "read_ref b (vb + of_nat i * bp_ref_size b) = Panic"
  shows "dict_items b obj kb vb i k m = Panic"
  using assms by (cases k) simp_all

text \<open>A dictionary of \<open>2 ^ 64 - 19\<close> entries: the references to its values would start at offset \<open>2 ^ 64 - 1\<close>.\<close>

definition wrapping_dict :: "u8 list" where
  "wrapping_dict = as_bytes ''bplist00'' @ [0xDF, 0x13, 0xFF, 0xFF, 0xFF, 0xFF, 0xFF, 0xFF, 0xFF, 0xED] @ [8] @
     [0, 0, 0, 0, 0, 0, 1, 1] @ [0, 0, 0, 0, 0, 0, 0, 1] @ [0, 0, 0, 0, 0, 0, 0, 0] @ [0, 0, 0, 0, 0, 0, 0, 18]"

text \<open>The bounds check of a reference compares the wrapped sum, which the largest positions satisfy.\<close>

lemma read_ref_panics:
  assumes "unat (bp_ref_size b) \<le> length (bp_buf b)" and "2 ^ 64 \<le> unat pos + unat (bp_ref_size b)"
  shows "read_ref b pos = Panic"
proof -
  have "unat (pos + bp_ref_size b) = unat pos + unat (bp_ref_size b) - 2 ^ 64"
    using assms(2) by (simp add: unat_plus_if')
  moreover have "unat pos < 2 ^ 64" "unat (bp_ref_size b) < 2 ^ 64" by simp_all
  ultimately have "unat (pos + bp_ref_size b) \<le> length (bp_buf b)" "unat (pos + bp_ref_size b) < unat pos"
    using assms by linarith+
  then show ?thesis by (simp add: read_ref_def slice_index_def slice_get_def)
qed

lemma read_ref_inside:
  assumes "unat pos + unat (bp_ref_size b) \<le> length (bp_buf b)" and "unat pos + unat (bp_ref_size b) < 2 ^ 64"
  shows "is_ok (read_ref b pos)"
  using assms by (simp add: read_ref_def slice_index_def slice_get_def unat_add_u64 is_ok_iff)

text \<open>
  C37. The binary decoder does not check its arithmetic.  Take any dictionary of a list (at a depth the decoder
  visits) that is not empty and whose first key reference lies in the file.  If its count puts the
  first value reference so high that the end of the reference wraps around the address space, then the
  bounds check of that reference passes and the slice behind it panics: decoding the dictionary aborts the process.
\<close>

theorem plist_dict_count_panics:
  assumes "depth \<le> 128" and "unat index < length (bp_offsets b)" and "bp_offsets b ! unat index = off"
    and "buf_get (bp_buf b) off = Some marker" and "drop_bit 4 marker = 0xD"
    and "count_and_offset b off (ucast (marker AND 0x0f)) = Ok (count, keys_off)" and "0 < unat count"
    and "unat keys_off + unat (bp_ref_size b) \<le> length (bp_buf b)" and "length (bp_buf b) < 2 ^ 64"
    and "2 ^ 64 \<le> unat (keys_off + count * bp_ref_size b) + unat (bp_ref_size b)"
  shows "object_at b index depth = Panic"
proof -
  obtain kref where key: "read_ref b keys_off = Ok kref"
    using read_ref_inside [of keys_off b] assms(8,9) by (auto simp: is_ok_iff)
  have val: "read_ref b (keys_off + count * bp_ref_size b) = Panic"
    by (rule read_ref_panics) (use assms(8,10) in simp_all)
  have "dict_items b obj keys_off (keys_off + count * bp_ref_size b) 0 (unat count) [] = Panic" for obj
    using dict_items_panics [of "unat count" b keys_off 0 kref] assms(7) key val by simp
  with assms(1-6) show ?thesis by (subst object_at.simps) simp
qed

theorem plist_dict_count_panics_witness: "plist_parse wrapping_dict = Panic"
proof -
  let ?b = "\<lparr>bp_buf = wrapping_dict, bp_ref_size = 1, bp_offsets = [8]\<rparr>"
  have len: "length wrapping_dict = 51" by (simp add: wrapping_dict_def)
  have bytes: "drop 19 wrapping_dict = [0, 0, 0, 0, 0, 0, 1, 1] @ [0, 0, 0, 0, 0, 0, 0, 1] @ [0, 0, 0, 0, 0, 0, 0, 0] @ [0, 0, 0, 0, 0, 0, 0, 18]"
    "wrapping_dict ! 18 = 8" "wrapping_dict ! 8 = 0xDF" "wrapping_dict ! 9 = 0x13"
    "take 8 (drop 10 wrapping_dict) = [0xFF, 0xFF, 0xFF, 0xFF, 0xFF, 0xFF, 0xFF, 0xED]" "take 1 (drop 18 wrapping_dict) = [8]"
    by (simp_all add: wrapping_dict_def as_bytes_def)
  have count: "count_and_offset ?b 8 0x0f = Ok (0xFFFFFFFFFFFFFFED, 18)"
    by (simp add: count_and_offset_def buf_get_def len bytes bp_slice_def checked_add_def slice_get_def be_uint_def push_bit_eq_mult)
  have "object_at ?b 0 0 = Panic"
    by (rule plist_dict_count_panics [of _ _ _ 8 "0xDF" "0xFFFFFFFFFFFFFFED" 18])
      (simp_all add: count buf_get_def len bytes)
  moreover have "tag_at ''bplist00'' wrapping_dict" by (simp add: wrapping_dict_def)
  moreover have "offset_table wrapping_dict 18 1 0 1 = Ok [8]"
    using bytes(6) by (simp add: len slice_index_def slice_get_def be_uint_def)
  ultimately show ?thesis
    by (simp add: plist_parse_def bplist_parse_def len bytes Let_def slice_index_def slice_get_def be_u64_def from_be_bytes_def
        checked_mul_def checked_add_def vec_with_capacity_def)
qed

end
