(* ===== verification/Ipa.thy ===== *)
theory Ipa
  imports Plist Vfs Effects
begin

text \<open>
  The crate \<open>ipa\<close>: finding applications in a directory (\<open>discovery.rs\<close>) and unpacking one
  (\<open>extract.rs\<close>).  The archive library and the host's file system are parameters, the record
  \<open>ipa_host\<close> of the calls the crate makes; \<open>to_lowercase\<close>, whose Unicode tables are data of the
  standard library, is an argument of the one function that uses it.
\<close>

section \<open>Paths\<close>

text \<open>The end of a path that names no component: empty pieces between separators and \<open>.\<close>.\<close>

definition strip_blank :: "string list \<Rightarrow> string list" where
  "strip_blank cs = rev (dropWhile (\<lambda>c. c = '''' \<or> c = ''.'') (rev cs))"

fun join_pieces :: "string list \<Rightarrow> string" where
  "join_pieces [] = ''''"
| "join_pieces [c] = c"
| "join_pieces (c # cs) = c @ ''/'' @ join_pieces cs"

text \<open>\<open>Path::parent\<close>: without the last component; the root and the empty path have none.\<close>

definition path_parent :: "string \<Rightarrow> string option" where
  "path_parent p =
     (case split_char (CHR ''/'') p of
        [] \<Rightarrow> None
      | c # cs \<Rightarrow>
          (if strip_blank cs = [] then (if c = '''' then None else Some '''')
           else (let rest = c # strip_blank (butlast (strip_blank cs))
                 in Some (if rest = [''''] then ''/'' else join_pieces rest))))"

text \<open>\<open>Path::extension\<close>: what follows the last dot of the file name, unless the name starts with that dot.\<close>

definition path_extension :: "string \<Rightarrow> string option" where
  "path_extension p =
     (case path_file_name p of
        None \<Rightarrow> None
      | Some f \<Rightarrow>
          (let pieces = split_char (CHR ''.'') f
           in if length pieces < 2 \<or> butlast pieces = [''''] then None else Some (last pieces)))"

section \<open>The outside\<close>

datatype zip_error = ZipFileNotFound | ZipOther string

text \<open>
  \<open>File::open\<close>, the calls of the archive library, and the calls of \<open>std::fs\<close>, over a state \<open>'w\<close> of the host,
  file handles \<open>'f\<close>, open archives \<open>'z\<close> and archive entries \<open>'e\<close>.  A directory listing is a list of
  outcomes, one per entry.
\<close>

record ('w, 'f, 'z, 'e) ipa_host =
  ih_open :: "string \<Rightarrow> ('w, 'f, io_kind) act"
  ih_zip_new :: "'f \<Rightarrow> ('w, 'z, zip_error) act"
  ih_file_names :: "'z \<Rightarrow> string list"
  ih_len :: "'z \<Rightarrow> nat"
  ih_by_name :: "'z \<Rightarrow> string \<Rightarrow> ('w, 'e, zip_error) act"
  ih_by_index :: "'z \<Rightarrow> nat \<Rightarrow> ('w, 'e, zip_error) act"
  ih_entry_name :: "'e \<Rightarrow> string"
  ih_entry_size :: "'e \<Rightarrow> u64"
  ih_read_to_end :: "'e \<Rightarrow> ('w, u8 list, io_kind) act"
  ih_create_dir_all :: "'w \<Rightarrow> string \<Rightarrow> 'w \<times> (unit, io_kind) rust_result"
  ih_write :: "string \<Rightarrow> u8 list \<Rightarrow> ('w, unit, io_kind) act"
  ih_read :: "string \<Rightarrow> ('w, u8 list, io_kind) act"
  ih_read_dir :: "string \<Rightarrow> ('w, (string, io_kind) rust_result list, io_kind) act"
  ih_zip_text :: "zip_error \<Rightarrow> string"

definition open_archive :: "('w, 'f, 'z, 'e) ipa_host \<Rightarrow> string \<Rightarrow> ('w, 'z, emu_error) act" where
  "open_archive h ipa_path =
     act_then (act_map_err Io (ih_open h ipa_path)) (\<lambda>file.
     act_map_err (\<lambda>e. Archive (''zip open: '' @ ih_zip_text h e)) (ih_zip_new h file))"

text \<open>\<open>Vec::with_capacity(size)\<close> followed by \<open>read_to_end\<close>.\<close>

definition entry_bytes :: "('w, 'f, 'z, 'e) ipa_host \<Rightarrow> 'e \<Rightarrow> ('w, u8 list, emu_error) act" where
  "entry_bytes h e =
     act_then (act_query (\<lambda>_. vec_with_capacity 1 (unat (ih_entry_size h e)))) (\<lambda>_.
     act_map_err Io (ih_read_to_end h e))"

section \<open>Discovery\<close>

record app_metadata =
  am_name :: string
  am_bundle_identifier :: string
  am_minimum_os_version :: string
  am_executable :: string
  am_icon_png :: "u8 list option"

record ipa_bundle =
  ib_ipa_path :: string
  ib_bundle_dir :: string
  ib_executable_path :: string
  ib_metadata :: app_metadata

definition slash_count :: "string \<Rightarrow> nat" where
  "slash_count dir = length (filter (\<lambda>c. c = CHR ''/'') dir)"

definition bundle_candidate :: "string \<Rightarrow> string option" where
  "bundle_candidate name =
     (case strip_suffix ''/Info.plist'' name of
        None \<Rightarrow> None
      | Some dir \<Rightarrow> if suffix ''.app'' dir \<and> prefix ''Payload/'' dir then Some dir else None)"

definition better_bundle :: "string \<Rightarrow> string option \<Rightarrow> string option" where
  "better_bundle name best =
     (case bundle_candidate name of
        None \<Rightarrow> best
      | Some dir \<Rightarrow>
          (case best of
             None \<Rightarrow> Some dir
           | Some b \<Rightarrow> if slash_count dir < slash_count b then Some dir else best))"

definition find_bundle_dir :: "string list \<Rightarrow> string emu_result" where
  "find_bundle_dir names = ok_or (Archive ''no Payload/*.app/Info.plist found'') (fold better_bundle names None)"

definition read_entry :: "('w, 'f, 'z, 'e) ipa_host \<Rightarrow> 'z \<Rightarrow> string \<Rightarrow> ('w, u8 list option, emu_error) act" where
  "read_entry h archive name =
     act_match (ih_by_name h archive name)
       (\<lambda>e. act_then (entry_bytes h e) (\<lambda>buf. act_return (Some buf)))
       (\<lambda>err. case err of
          ZipFileNotFound \<Rightarrow> act_return None
        | _ \<Rightarrow> act_fail (Archive (''read '' @ name @ '': '' @ ih_zip_text h err)))"

definition plist_str :: "plist_value \<Rightarrow> string \<Rightarrow> string" where
  "plist_str plist k = (case Option.bind (plist_get plist k) as_str of None \<Rightarrow> '''' | Some s \<Rightarrow> s)"

definition metadata_from_plist :: "plist_value \<Rightarrow> app_metadata" where
  "metadata_from_plist plist =
     \<lparr>am_name = (let disp = plist_str plist ''CFBundleDisplayName'' in if disp = '''' then plist_str plist ''CFBundleName'' else disp),
      am_bundle_identifier = plist_str plist ''CFBundleIdentifier'',
      am_minimum_os_version = (let v = plist_str plist ''MinimumOSVersion'' in if v = '''' then plist_str plist ''LSMinimumSystemVersion'' else v),
      am_executable = plist_str plist ''CFBundleExecutable'',
      am_icon_png = None\<rparr>"

definition last_str :: "plist_value option \<Rightarrow> string option" where
  "last_str v = Option.bind (Option.bind v as_array) (\<lambda>a. if a = [] then None else as_str (last a))"

definition pick_icon_name :: "plist_value \<Rightarrow> string option" where
  "pick_icon_name plist =
     (case last_str (Option.bind (Option.bind (plist_get plist ''CFBundleIcons'')
             (\<lambda>i. plist_get i ''CFBundlePrimaryIcon'')) (\<lambda>p. plist_get p ''CFBundleIconFiles'')) of
        Some primary \<Rightarrow> Some primary
      | None \<Rightarrow>
          (case last_str (plist_get plist ''CFBundleIconFiles'') of
             Some name \<Rightarrow> Some name
           | None \<Rightarrow> Option.bind (plist_get plist ''CFBundleIconFile'') as_str))"

text \<open>\<open>str::trim_end_matches\<close> with a pattern that is not empty.\<close>

function trim_end_matches :: "string \<Rightarrow> string \<Rightarrow> string" where
  "trim_end_matches pat s =
     (if pat \<noteq> [] \<and> suffix pat s then trim_end_matches pat (take (length s - length pat) s) else s)"
  by pat_completeness auto
termination
  by (relation "measure (\<lambda>(pat, s). length s)") (auto simp: suffix_def)

declare trim_end_matches.simps [simp del]

definition icon_candidates :: "string \<Rightarrow> string list" where
  "icon_candidates base =
     (let stem = trim_end_matches ''.png'' base
      in [stem @ ''@2x.png'', stem @ ''.png'', stem @ ''@3x.png'', base])"

text \<open>\<open>rsplit('/')\<close> always yields a first piece, the last one of the path.\<close>

definition default_executable_name :: "string \<Rightarrow> string" where
  "default_executable_name dir =
     (case strip_suffix ''.app'' (last (split_char (CHR ''/'') dir)) of None \<Rightarrow> ''App'' | Some s \<Rightarrow> s)"

fun probe_icon :: "('w, 'f, 'z, 'e) ipa_host \<Rightarrow> 'z \<Rightarrow> string \<Rightarrow> string list \<Rightarrow> ('w, u8 list option, emu_error) act" where
  "probe_icon h archive dir [] = act_return None"
| "probe_icon h archive dir (candidate # cs) =
     act_match (read_entry h archive (dir @ ''/'' @ candidate))
       (\<lambda>found. case found of Some bytes \<Rightarrow> act_return (Some bytes) | None \<Rightarrow> probe_icon h archive dir cs)
       (\<lambda>_. probe_icon h archive dir cs)"

definition inspect_ipa :: "('w, 'f, 'z, 'e) ipa_host \<Rightarrow> string \<Rightarrow> ('w, ipa_bundle, emu_error) act" where
  "inspect_ipa h ipa_path =
     act_then (open_archive h ipa_path) (\<lambda>archive.
     act_then (act_query (\<lambda>_. find_bundle_dir (ih_file_names h archive))) (\<lambda>dir.
     let info_path = dir @ ''/Info.plist''
     in act_then (read_entry h archive info_path) (\<lambda>found.
        act_then (act_query (\<lambda>_. ok_or (Archive (''missing '' @ info_path)) found)) (\<lambda>info_bytes.
        act_then (act_query (\<lambda>_. map_err (\<lambda>e. Plist (plist_error_text e)) (plist_parse info_bytes))) (\<lambda>plist.
        let md = metadata_from_plist plist;
            md = (if am_executable md = '''' then md\<lparr>am_executable := default_executable_name dir\<rparr> else md);
            executable_path = dir @ ''/'' @ am_executable md
        in act_then
             (case pick_icon_name plist of
                None \<Rightarrow> act_return None
              | Some icon_name \<Rightarrow> probe_icon h archive dir (icon_candidates icon_name)) (\<lambda>icon.
           act_return \<lparr>ib_ipa_path = ipa_path, ib_bundle_dir = dir, ib_executable_path = executable_path,
                       ib_metadata = (case icon of None \<Rightarrow> md | Some bytes \<Rightarrow> md\<lparr>am_icon_png := Some bytes\<rparr>)\<rparr>))))))"

definition is_ipa_path :: "string \<Rightarrow> bool" where
  "is_ipa_path path =
     (case path_extension path of
        None \<Rightarrow> False
      | Some e \<Rightarrow> utf8_valid (as_bytes e) \<and> map ascii_lower e = ''ipa'')"

fun scan_entries :: "('w, 'f, 'z, 'e) ipa_host \<Rightarrow> (string, io_kind) rust_result list \<Rightarrow> ('w, ipa_bundle list, emu_error) act" where
  "scan_entries h [] = act_return []"
| "scan_entries h (entry # es) =
     act_then (act_query (\<lambda>_. map_err Io entry)) (\<lambda>path.
     if \<not> is_ipa_path path then scan_entries h es
     else
       act_match (inspect_ipa h path)
         (\<lambda>b. act_then (scan_entries h es) (\<lambda>out. act_return (b # out)))
         (\<lambda>_. scan_entries h es))"

definition scan_directory ::
    "(string \<Rightarrow> string) \<Rightarrow> ('w, 'f, 'z, 'e) ipa_host \<Rightarrow> string \<Rightarrow> ('w, ipa_bundle list, emu_error) act" where
  "scan_directory to_lowercase h dir =
     act_then (act_map_err Io (ih_read_dir h dir)) (\<lambda>entries.
     act_then (scan_entries h entries) (\<lambda>out.
     act_return (sort_key (\<lambda>b. to_lowercase (am_name (ib_metadata b))) out)))"

section \<open>Extraction\<close>

definition extract_file :: "('w, 'f, 'z, 'e) ipa_host \<Rightarrow> string \<Rightarrow> 'e \<Rightarrow> ('w, unit, emu_error) act" where
  "extract_file h out entry =
     act_then (case path_parent out of
                 None \<Rightarrow> act_return ()
               | Some parent \<Rightarrow> act_map_err Io (\<lambda>w. ih_create_dir_all h w parent)) (\<lambda>_.
     act_then (entry_bytes h entry) (\<lambda>buf.
     act_map_err Io (ih_write h out buf)))"

definition extract_entry ::
    "('w, 'f, 'z, 'e) ipa_host \<Rightarrow> string \<Rightarrow> string \<Rightarrow> 'e \<Rightarrow> ('w, unit, emu_error) act" where
  "extract_entry h pre dest_root entry =
     (let name = ih_entry_name h entry
      in case strip_prefix pre name of
           None \<Rightarrow> act_return ()
         | Some rel \<Rightarrow>
             if rel = '''' then act_return ()
             else if prefix ''/'' rel \<or> ''..'' \<in> set (split_char (CHR ''/'') rel)
             then act_fail (Archive (''unsafe archive path: '' @ name))
             else
               (let out = path_join dest_root rel
                in if suffix ''/'' name then act_map_err Io (\<lambda>w. ih_create_dir_all h w out)
                   else extract_file h out entry))"

fun extract_entries ::
    "('w, 'f, 'z, 'e) ipa_host \<Rightarrow> 'z \<Rightarrow> string \<Rightarrow> string \<Rightarrow> nat \<Rightarrow> nat \<Rightarrow> ('w, unit, emu_error) act" where
  "extract_entries h archive pre dest_root i 0 = act_return ()"
| "extract_entries h archive pre dest_root i (Suc k) =
     act_then (act_map_err (\<lambda>e. Archive (''entry '' @ fmt_dec i @ '': '' @ ih_zip_text h e)) (ih_by_index h archive i)) (\<lambda>entry.
     act_then (extract_entry h pre dest_root entry) (\<lambda>_.
     extract_entries h archive pre dest_root (Suc i) k))"

definition extract_app :: "('w, 'f, 'z, 'e) ipa_host \<Rightarrow> string \<Rightarrow> string \<Rightarrow> string \<Rightarrow> ('w, unit, emu_error) act" where
  "extract_app h ipa_path dir dest_root =
     act_then (open_archive h ipa_path) (\<lambda>archive.
     extract_entries h archive (dir @ ''/'') dest_root 0 (ih_len h archive))"

section \<open>The main bundle\<close>

text \<open>The archive lists an application directory: a directory below \<open>Payload/\<close> with an \<open>Info.plist\<close>.\<close>

definition lists_bundle :: "string list \<Rightarrow> string \<Rightarrow> bool" where
  "lists_bundle names dir \<longleftrightarrow> dir @ ''/Info.plist'' \<in> set names \<and> suffix ''.app'' dir \<and> prefix ''Payload/'' dir"

lemma bundle_candidate_Some:
  "bundle_candidate name = Some dir \<longleftrightarrow> name = dir @ ''/Info.plist'' \<and> suffix ''.app'' dir \<and> prefix ''Payload/'' dir"
proof -
  have "strip_suffix s t = None \<Longrightarrow> t \<noteq> u @ s" for s t u by (metis option.distinct(1) strip_suffix_Some)
  then show ?thesis by (auto simp: bundle_candidate_def strip_suffix_Some split: option.splits if_splits)
qed

lemma lists_bundle_Cons: "lists_bundle (n # ns) dir \<longleftrightarrow> bundle_candidate n = Some dir \<or> lists_bundle ns dir"
  by (auto simp: lists_bundle_def bundle_candidate_Some)

lemma fold_better_bundle:
  "case fold better_bundle names best of
     None \<Rightarrow> best = None \<and> (\<forall>d. \<not> lists_bundle names d)
   | Some d \<Rightarrow> (best = Some d \<or> lists_bundle names d) \<and>
       (\<forall>d'. best = Some d' \<or> lists_bundle names d' \<longrightarrow> slash_count d \<le> slash_count d')"
proof (induction names arbitrary: best)
  case Nil
  show ?case by (auto simp: lists_bundle_def split: option.splits)
next
  case (Cons n ns)
  have step: "better_bundle n best = None \<longleftrightarrow> best = None \<and> bundle_candidate n = None"
    "\<And>b. better_bundle n best = Some b \<Longrightarrow> (best = Some b \<or> bundle_candidate n = Some b) \<and>
       (\<forall>d'. best = Some d' \<or> bundle_candidate n = Some d' \<longrightarrow> slash_count b \<le> slash_count d')"
    by (auto simp: better_bundle_def split: option.splits if_splits)
  show ?case
  proof (cases "better_bundle n best")
    case None
    with step(1) Cons.IH [of None] show ?thesis by (auto simp: lists_bundle_Cons split: option.splits)
  next
    case (Some b)
    with step(2) [of b] Cons.IH [of "Some b"] show ?thesis
      by (auto simp: lists_bundle_Cons split: option.splits intro: order_trans)
  qed
qed

section \<open>Properties\<close>

text \<open>
  C38. The main bundle: the directory chosen is one the archive lists with its \<open>Info.plist\<close>, ends in \<open>.app\<close> below
  \<open>Payload/\<close>, and no other such directory has fewer path separators, so that bundles nested in it (plug-ins,
  extensions) never win; the search fails exactly if there is none.
\<close>

theorem find_bundle_shallowest:
  "case find_bundle_dir names of
     Ok d \<Rightarrow> lists_bundle names d \<and> (\<forall>d'. lists_bundle names d' \<longrightarrow> slash_count d \<le> slash_count d')
   | Err e \<Rightarrow> e = Archive ''no Payload/*.app/Info.plist found'' \<and> (\<nexists>d. lists_bundle names d)
   | Panic \<Rightarrow> False"
  using fold_better_bundle [of None names] by (auto simp: find_bundle_dir_def split: option.splits)

theorem find_bundle_shallowest_witness:
  "find_bundle_dir [''Payload/A.app/PlugIns/B.app/Info.plist'', ''Payload/A.app/Info.plist''] = Ok ''Payload/A.app''"
proof -
  let ?names = "[''Payload/A.app/PlugIns/B.app/Info.plist'', ''Payload/A.app/Info.plist'']"
  have "lists_bundle ?names ''Payload/A.app''" by (simp add: lists_bundle_def suffix_def)
  moreover have "d = ''Payload/A.app'' \<or> d = ''Payload/A.app/PlugIns/B.app''" if "lists_bundle ?names d" for d
    using that append_same_eq [of d "''/Info.plist''" "''Payload/A.app''"]
      append_same_eq [of d "''/Info.plist''" "''Payload/A.app/PlugIns/B.app''"] by (auto simp: lists_bundle_def)
  ultimately show ?thesis
    using find_bundle_shallowest [of ?names] by (cases "find_bundle_dir ?names") (fastforce simp: slash_count_def)+
qed

end
