(* ===== verification/Ipa_Confined.thy ===== *)
theory Ipa_Confined
  imports Ipa
begin

text \<open>
  What unpacking an archive can touch: no entry name, however crafted, makes the extractor write outside the
  directory it was given.  The argument follows a path through \<open>join\<close> and \<open>parent\<close> on its components.
\<close>

section \<open>Splitting and joining pieces\<close>

lemma join_split: "join_pieces (split_char (CHR ''/'') s) = s"
proof (induction s)
  case (Cons c s)
  obtain y ys where y: "split_char (CHR ''/'') s = y # ys" by (cases "split_char (CHR ''/'') s") simp_all
  show ?case using Cons y by (cases ys) auto
qed simp

lemma join_append: "xs \<noteq> [] \<Longrightarrow> ys \<noteq> [] \<Longrightarrow> join_pieces (xs @ ys) = join_pieces xs @ ''/'' @ join_pieces ys"
proof (induction xs rule: join_pieces.induct)
  case (2 c)
  then show ?case by (cases ys) simp_all
qed simp_all

lemma split_join: "xs \<noteq> [] \<Longrightarrow> (\<And>x. x \<in> set xs \<Longrightarrow> CHR ''/'' \<notin> set x) \<Longrightarrow> split_char (CHR ''/'') (join_pieces xs) = xs"
proof (induction xs rule: join_pieces.induct)
  case (3 c d cs)
  then have "split_char (CHR ''/'') (c @ CHR ''/'' # join_pieces (d # cs)) = split_char (CHR ''/'') c @ (d # cs)"
    by (simp add: split_char_append_sep)
  with 3(3) [of c] show ?case by (simp add: split_char_no_sep)
qed (simp_all add: split_char_no_sep)

section \<open>Blank ends\<close>

abbreviation blank :: "string \<Rightarrow> bool" where
  "blank c \<equiv> c = '''' \<or> c = ''.''"

lemma strip_blank_append: "strip_blank (xs @ ys) = (if strip_blank ys = [] then strip_blank xs else xs @ strip_blank ys)"
  by (auto simp: strip_blank_def dropWhile_append dropWhile_eq_Nil_conv)

lemma strip_blank_id: "xs = [] \<or> \<not> blank (last xs) \<Longrightarrow> strip_blank xs = xs"
  by (cases xs rule: rev_cases) (auto simp: strip_blank_def)

lemma strip_blank_prefix: "\<exists>zs. xs = strip_blank xs @ zs"
  unfolding strip_blank_def by (metis rev_append rev_rev_ident takeWhile_dropWhile_id)

lemma strip_blank_last: "strip_blank xs \<noteq> [] \<Longrightarrow> \<not> blank (last (strip_blank xs))"
  using hd_dropWhile [of blank "rev xs"] by (auto simp: strip_blank_def last_rev)

section \<open>Paths under a directory\<close>

text \<open>A relative path without parent references, and the paths it leads to from a directory.\<close>

definition safe_rel :: "string \<Rightarrow> bool" where
  "safe_rel rel \<longleftrightarrow> rel \<noteq> '''' \<and> \<not> prefix ''/'' rel \<and> ''..'' \<notin> set (split_char (CHR ''/'') rel)"

definition under :: "string \<Rightarrow> string \<Rightarrow> bool" where
  "under dest p \<longleftrightarrow> (\<exists>rel. safe_rel rel \<and> p = path_join dest rel)"

definition named_dir :: "string \<Rightarrow> bool" where
  "named_dir dest \<longleftrightarrow> \<not> blank (last (split_char (CHR ''/'') dest))"

lemma named_dir_path: "named_dir dest \<Longrightarrow> dir_path dest"
proof -
  assume n: "named_dir dest"
  have "dest \<noteq> ''''" using n by (auto simp: named_dir_def)
  moreover have "last dest \<noteq> CHR ''/''"
  proof
    assume "last dest = CHR ''/''"
    with \<open>dest \<noteq> ''''\<close> obtain d where "dest = d @ CHR ''/'' # ''''" by (metis append_butlast_last_id)
    then show False using n by (simp add: named_dir_def split_char_append_sep)
  qed
  ultimately show ?thesis by (simp add: dir_path_def)
qed

lemma path_join_rel: "dir_path dest \<Longrightarrow> \<not> prefix ''/'' rel \<Longrightarrow> path_join dest rel = dest @ ''/'' @ rel"
  by (simp add: path_join_def dir_path_def)

lemma split_rel:
  "dir_path dest \<Longrightarrow> \<not> prefix ''/'' rel \<Longrightarrow>
     split_char (CHR ''/'') (path_join dest rel) = split_char (CHR ''/'') dest @ split_char (CHR ''/'') rel"
  by (simp add: path_join_rel split_char_append_sep)

lemma safe_rel_pieces:
  assumes "safe_rel rel" and "split_char (CHR ''/'') rel = ps @ qs" and "ps \<noteq> []"
  shows "safe_rel (join_pieces ps)"
proof -
  have no_sep: "CHR ''/'' \<notin> set x" if "x \<in> set ps" for x
    using split_char_components [of x "CHR ''/''" rel] that assms(2) by auto
  obtain p ps' where p: "ps = p # ps'" using assms(3) by (cases ps) simp_all
  obtain c rel' where c: "rel = c # rel'" "c \<noteq> CHR ''/''" using assms(1) by (cases rel) (auto simp: safe_rel_def)
  then obtain p' where "p = c # p'" using assms(2) p by (auto split: list.splits)
  then have "join_pieces ps = c # (case ps' of [] \<Rightarrow> p' | _ \<Rightarrow> p' @ ''/'' @ join_pieces ps')"
    using p by (cases ps') simp_all
  moreover have "split_char (CHR ''/'') (join_pieces ps) = ps" by (rule split_join [OF assms(3)]) (use no_sep in auto)
  ultimately show ?thesis using assms(1,2) c(2) by (simp add: safe_rel_def)
qed

text \<open>
  The parent of a path under a directory is under it, or the directory, or (for a path such as \<open>dir/.\<close>) the parent
  of the directory.
\<close>

lemma parent_under:
  assumes "named_dir dest" and "safe_rel rel" and "path_parent (path_join dest rel) = Some p"
  shows "under dest p \<or> p = dest \<or> path_parent dest = Some p"
proof -
  note dir = named_dir_path [OF assms(1)]
  have norm: "\<not> prefix ''/'' rel" using assms(2) by (simp add: safe_rel_def)
  obtain c ds where d: "split_char (CHR ''/'') dest = c # ds" by (cases "split_char (CHR ''/'') dest") simp_all
  let ?rs = "split_char (CHR ''/'') rel"
  have sp: "split_char (CHR ''/'') (path_join dest rel) = c # ds @ ?rs" using split_rel [OF dir norm] d by simp
  have ds: "strip_blank ds = ds" using assms(1) d by (intro strip_blank_id) (auto simp: named_dir_def)
  have dest: "join_pieces (c # ds) = dest" using join_split [of dest] d by simp
  show ?thesis
  proof (cases "strip_blank ?rs = []")
    case True
    then have "path_parent (path_join dest rel) = path_parent dest" by (simp add: path_parent_def sp d strip_blank_append)
    with assms(3) show ?thesis by simp
  next
    case False
    let ?qs = "butlast (strip_blank ?rs)"
    from False have parent: "path_parent (path_join dest rel) =
        Some (if c # strip_blank (ds @ ?qs) = [''''] then ''/'' else join_pieces (c # strip_blank (ds @ ?qs)))"
      by (simp add: path_parent_def sp strip_blank_append butlast_append Let_def)
    have notroot: "c # ds \<noteq> ['''']" using assms(1) d by (auto simp: named_dir_def)
    show ?thesis
    proof (cases "strip_blank ?qs = []")
      case True
      then have "strip_blank (ds @ ?qs) = ds" using ds by (simp add: strip_blank_append)
      then have "p = dest" using assms(3) notroot dest unfolding parent by (auto split: if_splits)
      then show ?thesis by simp
    next
      case qs: False
      obtain zs where "?rs = strip_blank ?rs @ zs" using strip_blank_prefix by blast
      moreover obtain zs' where "?qs = strip_blank ?qs @ zs'" using strip_blank_prefix by blast
      moreover have "strip_blank ?rs = ?qs @ [last (strip_blank ?rs)]" using False by simp
      ultimately have "?rs = strip_blank ?qs @ (zs' @ [last (strip_blank ?rs)] @ zs)" by (metis append.assoc)
      then have safe: "safe_rel (join_pieces (strip_blank ?qs))" by (rule safe_rel_pieces [OF assms(2) _ qs])
      have "p = join_pieces ((c # ds) @ strip_blank ?qs)" using assms(3) parent qs by (simp add: strip_blank_append)
      also have "\<dots> = dest @ ''/'' @ join_pieces (strip_blank ?qs)" using join_append [of "c # ds" "strip_blank ?qs"] qs dest by simp
      also have "\<dots> = path_join dest (join_pieces (strip_blank ?qs))"
        using path_join_rel [OF dir] safe by (simp add: safe_rel_def)
      finally show ?thesis using safe by (auto simp: under_def)
    qed
  qed
qed

section \<open>Extraction\<close>

text \<open>
  An invariant of the host that reading keeps, that creating directories at or above the target keeps, and that
  writing under the target keeps, is kept by the extraction of any archive.
\<close>

definition guards :: "('w, 'f, 'z, 'e) ipa_host \<Rightarrow> string \<Rightarrow> ('w \<Rightarrow> bool) \<Rightarrow> bool" where
  "guards h dest P \<longleftrightarrow>
     (\<forall>p. keeps P (ih_open h p)) \<and> (\<forall>f. keeps P (ih_zip_new h f)) \<and> (\<forall>z i. keeps P (ih_by_index h z i)) \<and>
     (\<forall>e. keeps P (ih_read_to_end h e)) \<and>
     (\<forall>p. under dest p \<or> p = dest \<or> path_parent dest = Some p \<longrightarrow> keeps P (\<lambda>w. ih_create_dir_all h w p)) \<and>
     (\<forall>p bytes. under dest p \<longrightarrow> keeps P (ih_write h p bytes))"

lemma guardsD:
  assumes "guards h dest P"
  shows "keeps P (ih_open h p)" "keeps P (ih_zip_new h f)" "keeps P (ih_by_index h z i)" "keeps P (ih_read_to_end h e)"
    "under dest p \<or> p = dest \<or> path_parent dest = Some p \<Longrightarrow> keeps P (\<lambda>w. ih_create_dir_all h w p)"
    "under dest p \<Longrightarrow> keeps P (ih_write h p bytes)"
proof -
  show "keeps P (\<lambda>w. ih_create_dir_all h w p)" if "under dest p \<or> p = dest \<or> path_parent dest = Some p"
    using assms that by (auto simp: guards_def)
qed (use assms in \<open>simp_all add: guards_def\<close>)

lemma open_archive_keeps: "guards h dest P \<Longrightarrow> keeps P (open_archive h p)"
  unfolding open_archive_def by (intro keeps_rules guardsD(1,2))

lemma entry_bytes_keeps: "guards h dest P \<Longrightarrow> keeps P (entry_bytes h e)"
  unfolding entry_bytes_def by (intro keeps_rules guardsD(4))

lemma extract_file_keeps:
  assumes "guards h dest P" and "named_dir dest" and "safe_rel rel"
  shows "keeps P (extract_file h (path_join dest rel) e)"
proof -
  have "under dest (path_join dest rel)" using assms(3) by (auto simp: under_def)
  then have "keeps P (ih_write h (path_join dest rel) bytes)" for bytes by (rule guardsD(6) [OF assms(1)])
  moreover have "keeps P (case path_parent (path_join dest rel) of None \<Rightarrow> act_return ()
      | Some parent \<Rightarrow> act_map_err Io (\<lambda>w. ih_create_dir_all h w parent))"
  proof (cases "path_parent (path_join dest rel)")
    case (Some p)
    from parent_under [OF assms(2,3) Some] have "keeps P (\<lambda>w. ih_create_dir_all h w p)" by (rule guardsD(5) [OF assms(1)])
    then show ?thesis using Some by (simp add: keeps_map_err)
  qed (simp add: keeps_rules)
  ultimately show ?thesis unfolding extract_file_def by (intro keeps_then keeps_map_err entry_bytes_keeps [OF assms(1)])
qed

lemma extract_entry_keeps:
  assumes "guards h dest P" and "named_dir dest"
  shows "keeps P (extract_entry h pre dest e)"
proof (cases "strip_prefix pre (ih_entry_name h e)")
  case (Some rel)
  show ?thesis
  proof (cases "safe_rel rel")
    case True
    then have "under dest (path_join dest rel)" by (auto simp: under_def)
    then have "keeps P (\<lambda>w. ih_create_dir_all h w (path_join dest rel))" by (intro guardsD(5) [OF assms(1)]) simp
    then show ?thesis
      using Some True extract_file_keeps [OF assms True] by (simp add: extract_entry_def Let_def safe_rel_def keeps_map_err)
  next
    case False
    then show ?thesis using Some by (auto simp: extract_entry_def Let_def safe_rel_def intro: keeps_rules)
  qed
qed (simp add: extract_entry_def Let_def keeps_rules)

lemma extract_entries_keeps:
  assumes "guards h dest P" and "named_dir dest"
  shows "keeps P (extract_entries h z pre dest i k)"
proof (induction k arbitrary: i)
  case (Suc k)
  then show ?case
    by (simp add: keeps_then keeps_map_err guardsD(3) [OF assms(1)] extract_entry_keeps [OF assms])
qed (simp add: keeps_rules)

lemma extract_app_keeps:
  assumes "guards h dest P" and "named_dir dest"
  shows "keeps P (extract_app h ipa dir dest)"
  unfolding extract_app_def by (intro keeps_then open_archive_keeps [OF assms(1)] extract_entries_keeps [OF assms])

section \<open>A recording host\<close>

text \<open>An archive as a list of named files; the host state is the list of paths created or written.\<close>

definition listed_host :: "(string \<times> u8 list) list \<Rightarrow> (string list, unit, unit, string \<times> u8 list) ipa_host" where
  "listed_host files =
     \<lparr>ih_open = (\<lambda>_. act_return ()), ih_zip_new = (\<lambda>_. act_return ()), ih_file_names = (\<lambda>_. map fst files),
      ih_len = (\<lambda>_. length files),
      ih_by_name = (\<lambda>_ name. case map_of files name of None \<Rightarrow> act_fail ZipFileNotFound | Some d \<Rightarrow> act_return (name, d)),
      ih_by_index = (\<lambda>_ i. if i < length files then act_return (files ! i) else act_fail ZipFileNotFound),
      ih_entry_name = fst, ih_entry_size = (\<lambda>e. of_nat (length (snd e))), ih_read_to_end = (\<lambda>e. act_return (snd e)),
      ih_create_dir_all = (\<lambda>w p. (w @ [p], Ok ())), ih_write = (\<lambda>p _ w. (w @ [p], Ok ())),
      ih_read = (\<lambda>_. act_fail NotFound), ih_read_dir = (\<lambda>_. act_return []), ih_zip_text = (\<lambda>_. ''not found'')\<rparr>"

definition paths_confined :: "string \<Rightarrow> string list \<Rightarrow> bool" where
  "paths_confined dest ps \<longleftrightarrow> list_all (\<lambda>p. under dest p \<or> p = dest \<or> path_parent dest = Some p) ps"

lemma listed_host_guards: "guards (listed_host files) dest (paths_confined dest)"
  unfolding guards_def listed_host_def paths_confined_def
  by (auto simp: keeps_def split: option.splits)

section \<open>Properties\<close>

text \<open>
  C4. Extraction cannot leave its target: whatever the archive holds, the only host paths passed to a write are the
  target directory joined with a relative path without parent references, and the only directories created
  are such paths, the target itself and its parent.  (Any invariant of the host that such calls and reading
  keep is kept by the whole extraction, on success and on every error path.)
\<close>

theorem extract_confined:
  assumes "guards h dest P" and "named_dir dest" and "P w"
  shows "P (fst (extract_app h ipa dir dest w))"
  using extract_app_keeps [OF assms(1,2)] assms(3) by (simp add: keeps_def)

theorem extract_confined_witness:
  "let files = [(''Payload/D.app/a/b'', [1]), (''Payload/D.app/./c'', [2]), (''Payload/D.app/../x'', [3])]
   in paths_confined ''/c/D.app'' (fst (extract_app (listed_host files) ''d.ipa'' ''Payload/D.app'' ''/c/D.app'' []))"
proof -
  have "named_dir ''/c/D.app''" by (simp add: named_dir_def)
  then show ?thesis
    unfolding Let_def by (rule extract_confined [OF listed_host_guards]) (simp add: paths_confined_def)
qed

end
