(* ===== verification/Plist_Xml.thy ===== *)
theory Plist_Xml
  imports Plist
begin

text \<open>
  The XML reader: it never panics, and it reads back what a printer of the format writes, with any amount of
  white space between the elements, escaped text and the prologue of a real file.
\<close>

section \<open>Concatenating well-formed UTF-8\<close>

lemma continuation_high: "is_continuation b \<Longrightarrow> \<not> b < 0x80"
proof
  assume c: "is_continuation b" and "b < 0x80"
  then have "take_bit 7 b = b" by (simp add: word_unat_eq_iff unsigned_take_bit_eq take_bit_nat_eq_self_iff word_less_nat_alt)
  then have "\<not> bit b 7" by (metis bit_take_bit_iff less_irrefl)
  moreover have "bit (b AND 0xC0) 7 \<longleftrightarrow> bit (0x80 :: u8) 7" using c by (simp add: is_continuation_def)
  ultimately show False by (simp add: bit_and_iff)
qed

text \<open>The four shapes of a well-formed character.\<close>

lemma utf8_chunk_valid:
  assumes "fst (utf8_chunk bs)"
  obtains (one) "safe_get bs 0 < 0x80" "utf8_chunk bs = (True, 1)"
  | (two) "\<not> safe_get bs 0 < 0x80" "0xC2 \<le> safe_get bs 0" "safe_get bs 0 \<le> 0xDF" "is_continuation (safe_get bs 1)"
      "utf8_chunk bs = (True, 2)"
  | (three) "\<not> safe_get bs 0 < 0x80" "\<not> (0xC2 \<le> safe_get bs 0 \<and> safe_get bs 0 \<le> 0xDF)"
      "0xE0 \<le> safe_get bs 0" "safe_get bs 0 \<le> 0xEF"
      "second_of_three (safe_get bs 0) (safe_get bs 1)" "is_continuation (safe_get bs 2)" "utf8_chunk bs = (True, 3)"
  | (four) "\<not> safe_get bs 0 < 0x80" "\<not> (0xC2 \<le> safe_get bs 0 \<and> safe_get bs 0 \<le> 0xDF)"
      "\<not> (0xE0 \<le> safe_get bs 0 \<and> safe_get bs 0 \<le> 0xEF)" "0xF0 \<le> safe_get bs 0" "safe_get bs 0 \<le> 0xF4"
      "second_of_four (safe_get bs 0) (safe_get bs 1)" "is_continuation (safe_get bs 2)" "is_continuation (safe_get bs 3)"
      "utf8_chunk bs = (True, 4)"
proof -
  consider "safe_get bs 0 < 0x80"
    | "\<not> safe_get bs 0 < 0x80" "0xC2 \<le> safe_get bs 0 \<and> safe_get bs 0 \<le> 0xDF"
    | "\<not> safe_get bs 0 < 0x80" "\<not> (0xC2 \<le> safe_get bs 0 \<and> safe_get bs 0 \<le> 0xDF)" "0xE0 \<le> safe_get bs 0 \<and> safe_get bs 0 \<le> 0xEF"
    | "\<not> safe_get bs 0 < 0x80" "\<not> (0xC2 \<le> safe_get bs 0 \<and> safe_get bs 0 \<le> 0xDF)"
      "\<not> (0xE0 \<le> safe_get bs 0 \<and> safe_get bs 0 \<le> 0xEF)"
    by blast
  then show ?thesis
  proof cases
    case 1
    then show ?thesis by (intro one) (simp_all add: utf8_chunk_def)
  next
    case 2
    then show ?thesis using assms by (intro two) (simp_all add: utf8_chunk_def split: if_splits)
  next
    case 3
    then show ?thesis using assms by (intro three) (simp_all add: utf8_chunk_def Let_def del: not_less split: if_splits)
  next
    case 4
    then show ?thesis using assms by (intro four) (simp_all add: utf8_chunk_def Let_def del: not_less split: if_splits)
  qed
qed

lemma utf8_chunk_local:
  assumes "fst (utf8_chunk bs)" and "\<And>i. i < snd (utf8_chunk bs) \<Longrightarrow> safe_get bs' i = safe_get bs i"
  shows "utf8_chunk bs' = utf8_chunk bs"
  using assms(1)
proof (cases rule: utf8_chunk_valid)
  case one
  then show ?thesis using assms(2) [of 0] by (simp add: utf8_chunk_def Let_def del: not_less)
next
  case two
  then show ?thesis using assms(2) [of 0] assms(2) [of 1] by (simp add: utf8_chunk_def [of bs'] Let_def del: not_less)
next
  case three
  then show ?thesis using assms(2) [of 0] assms(2) [of 1] assms(2) [of 2] by (simp add: utf8_chunk_def [of bs'] Let_def del: not_less)
next
  case four
  then show ?thesis using assms(2) [of 0] assms(2) [of 1] assms(2) [of 2] assms(2) [of 3]
    by (simp add: utf8_chunk_def [of bs'] Let_def del: not_less)
qed

lemma utf8_chunk_within:
  assumes "fst (utf8_chunk bs)" and "bs \<noteq> []"
  shows "snd (utf8_chunk bs) \<le> length bs"
proof -
  have z: "safe_get bs i = 0" if "length bs \<le> i" for i using that by (simp add: safe_get_def)
  have n: "\<not> is_continuation 0" "\<not> second_of_three b 0" "\<not> second_of_four b 0" for b
    by (simp_all add: is_continuation_def second_of_three_def second_of_four_def)
  show ?thesis
    using assms(1)
  proof (cases rule: utf8_chunk_valid)
    case one
    with assms(2) show ?thesis by (cases bs) simp_all
  next
    case two
    with z [of 1] n show ?thesis by (cases "length bs \<le> 1") simp_all
  next
    case three
    with z [of 2] n show ?thesis by (cases "length bs \<le> 2") simp_all
  next
    case four
    with z [of 3] n show ?thesis by (cases "length bs \<le> 3") simp_all
  qed
qed

lemma utf8_valid_append:
  assumes "utf8_valid xs" and "utf8_valid ys"
  shows "utf8_valid (xs @ ys)"
  using assms(1)
proof (induction xs rule: utf8_valid.induct)
  case (1 xs)
  show ?case
  proof (cases "xs = []")
    case False
    let ?k = "snd (utf8_chunk xs)"
    from 1(2) False have ok: "fst (utf8_chunk xs)" "utf8_valid (drop ?k xs)" by (auto simp: utf8_valid.simps [of xs] split: if_splits)
    have k: "?k \<le> length xs" by (rule utf8_chunk_within [OF ok(1) False])
    then have "utf8_chunk (xs @ ys) = utf8_chunk xs"
      by (intro utf8_chunk_local [OF ok(1)]) (simp add: safe_get_def nth_append)
    with 1(1) [OF False ok] k ok(1) show ?thesis by (simp add: utf8_valid.simps [of "xs @ ys"])
  qed (use assms(2) in simp)
qed

lemma utf8_valid_ascii: "is_ascii bs \<Longrightarrow> utf8_valid bs"
  by (induction bs) (simp_all add: is_ascii_def)

lemma utf8_chunk_high:
  assumes "fst (utf8_chunk bs)" and "bs \<noteq> []" and "\<not> safe_get bs 0 < 0x80" and "b \<in> set (take (snd (utf8_chunk bs)) bs)"
  shows "\<not> b < 0x80"
proof -
  from assms(4) obtain i where i: "i < snd (utf8_chunk bs)" "i < length bs" "b = safe_get bs i"
    by (auto simp: in_set_conv_nth safe_get_def)
  have second: "\<not> safe_get bs 1 < 0x80" if "second_of_three (safe_get bs 0) (safe_get bs 1) \<or> second_of_four (safe_get bs 0) (safe_get bs 1)"
    using that by (auto simp: second_of_three_def second_of_four_def word_less_nat_alt word_le_nat_alt split: if_splits)
  have four: "i = 0 \<or> i = 1 \<or> i = 2 \<or> i = 3"
    using assms(1) i(1) by (cases rule: utf8_chunk_valid) (auto simp del: One_nat_def)
  from assms(1) show ?thesis
    using assms(3) i second four continuation_high by (cases rule: utf8_chunk_valid) (auto simp del: One_nat_def not_less)
qed

section \<open>Printing\<close>

definition xml_escape_char :: "char \<Rightarrow> string" where
  "xml_escape_char c =
     (if c = CHR ''&'' then ''&amp;''
      else if c = CHR ''<'' then ''&lt;''
      else if c = CHR ''>'' then ''&gt;''
      else if c = CHR 0x22 then ''&quot;''
      else if c = CHR 0x27 then ''&apos;''
      else [c])"

definition xml_escape :: "string \<Rightarrow> string" where
  "xml_escape s = concat (map xml_escape_char s)"

definition element :: "string \<Rightarrow> u8 list \<Rightarrow> u8 list" where
  "element name body = as_bytes (''<'' @ name @ ''>'') @ body @ as_bytes (''</'' @ name @ ''>'')"

fun xml_print :: "u8 list \<Rightarrow> plist_value \<Rightarrow> u8 list" where
  "xml_print ws (PBool b) = as_bytes (if b then ''<true/>'' else ''<false/>'')"
| "xml_print ws (PInteger i) = element ''integer'' (as_bytes (fmt_i64 i))"
| "xml_print ws (PReal r) = element ''real'' (as_bytes ''0'')"
| "xml_print ws (PString s) = element ''string'' (as_bytes (xml_escape s))"
| "xml_print ws (PData d) = element ''data'' (as_bytes (xml_escape (map byte_char d)))"
| "xml_print ws (PArray vs) = element ''array'' (concat (map (\<lambda>v. ws @ xml_print ws v) vs) @ ws)"
| "xml_print ws (PDict m) =
     element ''dict'' (concat (map (\<lambda>(k, v). ws @ element ''key'' (as_bytes (xml_escape k)) @ ws @ xml_print ws v) m) @ ws)"

definition xml_document :: "u8 list \<Rightarrow> plist_value \<Rightarrow> u8 list" where
  "xml_document ws v =
     as_bytes ''<?xml version=1.0?>'' @ ws @ as_bytes ''<!DOCTYPE plist>'' @ ws @ as_bytes ''<plist version=1.0>'' @ ws @
     xml_print ws v @ ws @ as_bytes ''</plist>''"

text \<open>
  What the format can carry: text in UTF-8, data as text without surrounding white space (the reader leaves
  base64 encoded), and dictionaries in key order.  Real numbers are left to the binary format.
\<close>

fun xml_ok :: "plist_value \<Rightarrow> bool" where
  "xml_ok (PReal r) = False"
| "xml_ok (PString s) = utf8_valid (as_bytes s)"
| "xml_ok (PData d) = (utf8_valid d \<and> trim (map byte_char d) = map byte_char d)"
| "xml_ok (PArray vs) = list_all xml_ok vs"
| "xml_ok (PDict m) = (bt_invar m \<and> list_all (\<lambda>(k, v). utf8_valid (as_bytes k) \<and> xml_ok v) m)"
| "xml_ok _ = True"

section \<open>Escaping\<close>

lemma replace_str_skip_entity:
  assumes "hd p = CHR ''&''" and "p \<noteq> []" and "\<not> prefix p (CHR ''&'' # w @ rest)" and "CHR ''&'' \<notin> set w"
  shows "replace_str p q (CHR ''&'' # w @ rest) = CHR ''&'' # w @ replace_str p q rest"
  using assms replace_str_skips [of p w q rest] by (subst replace_str.simps) simp

lemma replace_str_tokens:
  assumes "\<And>c rest. replace_str p q (tok c @ rest) = tok' c @ replace_str p q rest"
  shows "replace_str p q (concat (map tok s)) = concat (map tok' s)"
  by (induction s) (simp_all add: assms)

text \<open>Escaping with the characters of a set left as they are.\<close>

definition escape_but :: "char set \<Rightarrow> char \<Rightarrow> string" where
  "escape_but C c = (if c \<in> C then [c] else xml_escape_char c)"

lemmas entity_rules = replace_str_skip_entity [where w = "''amp;''", simplified] replace_str_skip_entity [where w = "''gt;''", simplified]
  replace_str_skip_entity [where w = "''quot;''", simplified] replace_str_skip_entity [where w = "''apos;''", simplified]

lemmas entity_match = replace_str_match [of "''&lt;''" "''<''", simplified] replace_str_match [of "''&gt;''" "''>''", simplified]
  replace_str_match [of "''&quot;''" "[CHR 0x22]", simplified] replace_str_match [of "''&apos;''" "[CHR 0x27]", simplified]
  replace_str_match [of "''&amp;''" "''&''", simplified]

lemma replace_entity:
  "replace_str ''&lt;'' ''<'' (concat (map (escape_but {}) s)) = concat (map (escape_but {CHR ''<''}) s)"
  "replace_str ''&gt;'' ''>'' (concat (map (escape_but {CHR ''<''}) s)) = concat (map (escape_but {CHR ''<'', CHR ''>''}) s)"
  "replace_str ''&quot;'' [CHR 0x22] (concat (map (escape_but {CHR ''<'', CHR ''>''}) s)) =
     concat (map (escape_but {CHR ''<'', CHR ''>'', CHR 0x22}) s)"
  "replace_str ''&apos;'' [CHR 0x27] (concat (map (escape_but {CHR ''<'', CHR ''>'', CHR 0x22}) s)) =
     concat (map (escape_but {CHR ''<'', CHR ''>'', CHR 0x22, CHR 0x27}) s)"
  "replace_str ''&amp;'' ''&'' (concat (map (escape_but {CHR ''<'', CHR ''>'', CHR 0x22, CHR 0x27}) s)) =
     concat (map (escape_but UNIV) s)"
  by (rule replace_str_tokens; auto simp: escape_but_def xml_escape_char_def entity_match entity_rules replace_str_skip)+

lemma unescape_escape: "unescape (xml_escape s) = s"
proof -
  have "xml_escape s = concat (map (escape_but {}) s)" by (simp add: xml_escape_def escape_but_def [abs_def])
  moreover have "concat (map (escape_but UNIV) s) = s" by (induction s) (simp_all add: escape_but_def)
  ultimately show ?thesis by (simp only: unescape_def replace_entity)
qed

lemma char_byte_eq_iff [simp]: "char_byte c = char_byte d \<longleftrightarrow> c = d"
  by (metis char_byte_inverse)

lemma escape_no_tag: "char_byte (CHR ''<'') \<notin> set (as_bytes (xml_escape s))"
  by (induction s) (auto simp: xml_escape_def xml_escape_char_def as_bytes_def)

lemma as_bytes_append [simp]: "as_bytes (s @ t) = as_bytes s @ as_bytes t"
  by (simp add: as_bytes_def)

lemma xml_escape_append: "xml_escape (s @ t) = xml_escape s @ xml_escape t"
  by (simp add: xml_escape_def)

lemma xml_escape_high: "list_all (\<lambda>c. \<not> char_byte c < 0x80) s \<Longrightarrow> xml_escape s = s"
  by (induction s) (auto simp: xml_escape_def xml_escape_char_def char_byte_def)

lemma xml_escape_ascii: "char_byte c < 0x80 \<Longrightarrow> is_ascii (as_bytes (xml_escape [c]))"
  by (simp add: xml_escape_def xml_escape_char_def is_ascii_def as_bytes_def) (simp add: char_byte_def)

lemma escape_valid: "utf8_valid (as_bytes s) \<Longrightarrow> utf8_valid (as_bytes (xml_escape s))"
proof (induction "as_bytes s" arbitrary: s rule: utf8_valid.induct)
  case 1
  show ?case
  proof (cases "s = []")
    case False
    let ?bs = "as_bytes s" and ?k = "snd (utf8_chunk (as_bytes s))"
    from False have ne: "?bs \<noteq> []" by (simp add: as_bytes_def)
    from 1(2) ne have ok: "fst (utf8_chunk ?bs)" "utf8_valid (drop ?k ?bs)" by (auto simp: utf8_valid.simps [of ?bs] split: if_splits)
    have k: "?k \<le> length s" using utf8_chunk_within [OF ok(1) ne] by simp
    have "utf8_valid (as_bytes (xml_escape (drop ?k s)))"
      by (rule 1(1) [OF ne ok(1)]) (use ok(2) in \<open>simp_all add: as_bytes_def drop_map\<close>)
    moreover have "utf8_valid (as_bytes (xml_escape (take ?k s)))"
    proof (cases "safe_get ?bs 0 < 0x80")
      case True
      from ok(1) have "?k = 1" using True by (cases rule: utf8_chunk_valid) simp_all
      with True False show ?thesis
        using utf8_valid_ascii xml_escape_ascii by (cases s) (simp_all add: safe_get_def as_bytes_def)
    next
      case high: False
      have "list_all (\<lambda>c. \<not> char_byte c < 0x80) (take ?k s)"
        using utf8_chunk_high [OF ok(1) ne high] by (force simp: list_all_iff as_bytes_def take_map)
      moreover have "utf8_valid (take ?k ?bs)"
      proof -
        have "utf8_chunk (take ?k ?bs) = utf8_chunk ?bs"
          using k by (intro utf8_chunk_local [OF ok(1)]) (simp add: safe_get_def)
        then show ?thesis using ok(1) by (simp add: utf8_valid.simps [of "take ?k ?bs"])
      qed
      ultimately show ?thesis by (simp add: xml_escape_high as_bytes_def take_map)
    qed
    ultimately have "utf8_valid (as_bytes (xml_escape (take ?k s @ drop ?k s)))"
      by (simp only: xml_escape_append as_bytes_append utf8_valid_append)
    then show ?thesis by simp
  qed (simp add: xml_escape_def as_bytes_def)
qed

section \<open>Reading what was printed\<close>

lemma px_rest_at: "drop i s = x # r \<Longrightarrow> px_rest s i = Ok (x # r)"
proof -
  assume "drop i s = x # r"
  moreover from this have "i < length s" by (metis drop_eq_Nil2 leI list.distinct(1))
  moreover from this have "px_rest s i = Ok (drop i s)" by (simp add: px_rest_def slice_index_def slice_get_def)
  ultimately show ?thesis by simp
qed

lemma skip_ws_at:
  "drop i s = ws @ x # r \<Longrightarrow> list_all is_ascii_whitespace ws \<Longrightarrow> \<not> is_ascii_whitespace x \<Longrightarrow> skip_ws s i = i + length ws"
proof (induction ws arbitrary: i)
  case Nil
  then show ?case using nth_via_drop [of i s x r] by (simp add: skip_ws.simps [of s i])
next
  case (Cons w ws)
  then have here: "drop i s = w # (ws @ x # r)" by simp
  then have "i < length s" "s ! i = w" "drop (Suc i) s = ws @ x # r"
    by (metis drop_eq_Nil2 leI list.distinct(1), metis nth_via_drop, metis drop_Suc drop_tl list.sel(3))
  with Cons show ?case by (simp add: skip_ws.simps [of s i])
qed

lemma drop_past: "drop i s = t @ r \<Longrightarrow> drop (i + length t) s = r"
  by (metis add.commute append_eq_conv_conj drop_drop)

lemma byte_char_as_bytes [simp]: "map byte_char (as_bytes s) = s"
  by (simp add: as_bytes_def comp_def)

lemma as_bytes_map [simp]: "as_bytes (map byte_char bs) = bs"
  by (induction bs) (simp_all add: as_bytes_def)

lemma text_element_at:
  assumes "drop i s = element name (as_bytes t) @ r" and "char_byte (CHR ''<'') \<notin> set (as_bytes t)" and "utf8_valid (as_bytes t)"
  shows "text_element s i name = Ok (unescape t, i + length (element name (as_bytes t)))"
proof -
  let ?open = "as_bytes (''<'' @ name @ ''>'')" and ?close = "as_bytes (''</'' @ name @ ''>'')"
  have "drop (i + length ?open) s = as_bytes t @ ?close @ r"
    by (rule drop_past) (simp add: assms(1) element_def)
  moreover obtain x xs where xs: "as_bytes t @ ?close @ r = x # xs" by (cases "as_bytes t @ ?close @ r") (auto simp: as_bytes_def)
  ultimately have rest: "px_rest s (i + length ?open) = Ok (as_bytes t @ ?close @ r)" using px_rest_at by simp
  have "?close = char_byte (CHR ''<'') # as_bytes (''/'' @ name @ ''>'')" by (simp add: as_bytes_def)
  then have "find_window (as_bytes t @ ?close @ r) ?close = Some (length (as_bytes t))"
    using find_window_skip [OF assms(2), of "as_bytes (''/'' @ name @ ''>'')" r] by simp
  with rest assms(3) show ?thesis
    by (simp add: text_element_def Let_def from_utf8_def element_def del: as_bytes_append)
qed

lemma tag_not_ws [simp]: "\<not> is_ascii_whitespace (char_byte (CHR ''<''))"
  by (simp add: is_ascii_whitespace_def char_byte_def)

lemma at_tag:
  assumes "drop i s = w @ char_byte (CHR ''<'') # t" and "list_all is_ascii_whitespace w"
  shows "skip_ws s i = i + length w" and "px_rest s (i + length w) = Ok (char_byte (CHR ''<'') # t)"
proof -
  show "skip_ws s i = i + length w" by (rule skip_ws_at [OF assms tag_not_ws])
  show "px_rest s (i + length w) = Ok (char_byte (CHR ''<'') # t)" by (rule px_rest_at [OF drop_past [OF assms(1)]])
qed

lemma element_starts: "element name body = char_byte (CHR ''<'') # as_bytes (name @ ''>'') @ body @ as_bytes (''</'' @ name @ ''>'')"
  by (simp add: element_def as_bytes_def)

lemma xml_print_head: "\<exists>c t. xml_print ws v = char_byte (CHR ''<'') # char_byte c # t \<and> c \<noteq> CHR ''/''"
  by (cases v) (auto simp: element_starts as_bytes_def)

text \<open>A printed value is read back from the place where its leading white space starts.\<close>

definition reads_back :: "u8 list \<Rightarrow> u8 list \<Rightarrow> plist_value \<Rightarrow> bool" where
  "reads_back ws s v \<longleftrightarrow>
     (\<forall>i w r. drop i s = w @ xml_print ws v @ r \<longrightarrow> list_all is_ascii_whitespace w \<longrightarrow>
        xml_value s i = Ok (v, i + length w + length (xml_print ws v)))"

lemma reads_backD:
  "reads_back ws s v \<Longrightarrow> drop i s = w @ xml_print ws v @ r \<Longrightarrow> list_all is_ascii_whitespace w \<Longrightarrow>
     xml_value s i = Ok (v, i + length w + length (xml_print ws v))"
  by (auto simp: reads_back_def)

lemma parse_array_at:
  assumes "list_all is_ascii_whitespace ws" and "list_all (reads_back ws s) vs"
    and "drop i s = concat (map (\<lambda>v. ws @ xml_print ws v) vs) @ ws @ as_bytes ''</array>'' @ r"
  shows "parse_array s i out = Ok (PArray (out @ vs), i + length (concat (map (\<lambda>v. ws @ xml_print ws v) vs) @ ws @ as_bytes ''</array>''))"
  using assms(2,3)
proof (induction vs arbitrary: i out)
  case Nil
  then have "drop i s = ws @ char_byte (CHR ''<'') # as_bytes ''/array>'' @ r" by (simp add: as_bytes_def)
  from at_tag [OF this assms(1)] show ?case by (simp add: parse_array.simps [of s i] Let_def as_bytes_def)
next
  case (Cons v vs)
  let ?tail = "concat (map (\<lambda>v. ws @ xml_print ws v) vs) @ ws @ as_bytes ''</array>'' @ r"
  have here: "drop i s = ws @ xml_print ws v @ ?tail" using Cons.prems(2) by simp
  obtain c t where head: "xml_print ws v = char_byte (CHR ''<'') # char_byte c # t" "c \<noteq> CHR ''/''" using xml_print_head by blast
  from here head(1) have "drop i s = ws @ char_byte (CHR ''<'') # (char_byte c # t @ ?tail)" by simp
  note pos = at_tag [OF this assms(1)]
  have "drop (i + length ws) s = [] @ xml_print ws v @ ?tail" using drop_past [OF here] by simp
  with Cons.prems(1) have val: "xml_value s (i + length ws) = Ok (v, i + length ws + length (xml_print ws v))"
    using reads_backD [of ws s v "i + length ws" "[]"] by simp
  have "drop (i + length (ws @ xml_print ws v)) s = ?tail" by (rule drop_past) (simp add: here)
  with Cons.IH [of "i + length (ws @ xml_print ws v)" "out @ [v]"] Cons.prems(1)
  have "parse_array s (i + length ws + length (xml_print ws v)) (out @ [v]) =
      Ok (PArray (out @ v # vs), i + length (concat (map (\<lambda>v. ws @ xml_print ws v) (v # vs)) @ ws @ as_bytes ''</array>''))"
    by (simp add: add.assoc)
  with pos val head(2) show ?case by (simp add: parse_array.simps [of s i] Let_def as_bytes_def)
qed

lemma bt_insert_last: "list_all (\<lambda>p. fst p < k) m \<Longrightarrow> bt_insert k v m = m @ [(k, v)]"
  by (induction m) simp_all

definition entry_print :: "u8 list \<Rightarrow> string \<times> plist_value \<Rightarrow> u8 list" where
  "entry_print ws kv = ws @ element ''key'' (as_bytes (xml_escape (fst kv))) @ ws @ xml_print ws (snd kv)"

lemma xml_print_dict:
  "xml_print ws (PDict m) = as_bytes ''<dict>'' @ concat (map (entry_print ws) m) @ ws @ as_bytes ''</dict>''"
proof -
  have "(\<lambda>(k, v). ws @ element ''key'' (as_bytes (xml_escape k)) @ ws @ xml_print ws v) = entry_print ws"
    by (auto simp: entry_print_def)
  then show ?thesis by (simp add: element_def [of "''dict''"] as_bytes_def)
qed

lemma key_element_at:
  assumes "drop i s = entry_print ws (k, v) @ r" and "list_all is_ascii_whitespace ws" and "utf8_valid (as_bytes k)" and "reads_back ws s v"
  obtains t j where "skip_ws s i = i + length ws" and "px_rest s (i + length ws) = Ok (as_bytes ''<key>'' @ t)"
    and "text_element s (i + length ws) ''key'' = Ok (k, j)" and "xml_value s j = Ok (v, i + length (entry_print ws (k, v)))"
proof -
  let ?key = "element ''key'' (as_bytes (xml_escape k))"
  have here: "drop i s = ws @ ?key @ ws @ xml_print ws v @ r" using assms(1) by (simp add: entry_print_def)
  then have "drop i s = ws @ char_byte (CHR ''<'') # (as_bytes ''key>'' @ as_bytes (xml_escape k) @ as_bytes ''</key>'' @ ws @ xml_print ws v @ r)"
    by (simp add: element_starts as_bytes_def)
  note pos = at_tag [OF this assms(2)]
  have at_key: "drop (i + length ws) s = ?key @ ws @ xml_print ws v @ r" by (rule drop_past [OF here])
  have read: "text_element s (i + length ws) ''key'' = Ok (k, i + length ws + length ?key)"
    using text_element_at [OF at_key escape_no_tag escape_valid [OF assms(3)]] by (simp add: unescape_escape)
  have "drop (i + length ws + length ?key) s = ws @ xml_print ws v @ r" by (rule drop_past [OF at_key])
  from reads_backD [OF assms(4) this assms(2)]
  have "xml_value s (i + length ws + length ?key) = Ok (v, i + length (entry_print ws (k, v)))"
    by (simp add: entry_print_def)
  with pos read show ?thesis
    by (intro that [of "as_bytes (xml_escape k) @ as_bytes ''</key>'' @ ws @ xml_print ws v @ r"]) (simp_all add: as_bytes_def)
qed

lemma parse_dict_at:
  assumes "list_all is_ascii_whitespace ws" and "list_all (\<lambda>(k, v). utf8_valid (as_bytes k) \<and> reads_back ws s v) kvs"
    and "drop i s = concat (map (entry_print ws) kvs) @ ws @ as_bytes ''</dict>'' @ r" and "bt_invar (m @ kvs)"
  shows "parse_dict s i m = Ok (PDict (m @ kvs), i + length (concat (map (entry_print ws) kvs) @ ws @ as_bytes ''</dict>''))"
  using assms(2-4)
proof (induction kvs arbitrary: i m)
  case Nil
  then have "drop i s = ws @ char_byte (CHR ''<'') # as_bytes ''/dict>'' @ r" by (simp add: as_bytes_def)
  from at_tag [OF this assms(1)] show ?case by (simp add: parse_dict.simps [of s i] Let_def as_bytes_def)
next
  case (Cons kv kvs)
  obtain k v where kv: "kv = (k, v)" by (cases kv)
  let ?tail = "concat (map (entry_print ws) kvs) @ ws @ as_bytes ''</dict>'' @ r"
  have here: "drop i s = entry_print ws (k, v) @ ?tail" using Cons.prems(2) kv by simp
  from Cons.prems(1) kv have ok: "utf8_valid (as_bytes k)" "reads_back ws s v" by simp_all
  obtain t j where step: "skip_ws s i = i + length ws" "px_rest s (i + length ws) = Ok (as_bytes ''<key>'' @ t)"
      "text_element s (i + length ws) ''key'' = Ok (k, j)" "xml_value s j = Ok (v, i + length (entry_print ws (k, v)))"
    by (rule key_element_at [OF here assms(1) ok])
  have "list_all (\<lambda>p. fst p < k) m"
    using Cons.prems(3) kv by (auto simp: bt_invar_def sorted_wrt_append list_all_iff)
  then have ins: "bt_insert k v m = m @ [(k, v)]" by (rule bt_insert_last)
  have "drop (i + length (entry_print ws (k, v))) s = ?tail" by (rule drop_past [OF here])
  with Cons.IH [of "i + length (entry_print ws (k, v))" "m @ [(k, v)]"] Cons.prems(1,3) kv
  have "parse_dict s (i + length (entry_print ws (k, v))) (bt_insert k v m) =
      Ok (PDict (m @ kv # kvs), i + length (concat (map (entry_print ws) (kv # kvs)) @ ws @ as_bytes ''</dict>''))"
    by (simp add: ins add.assoc)
  with step show ?case by (simp add: parse_dict.simps [of s i] Let_def) (simp add: as_bytes_def)
qed

subsection \<open>Numbers as text\<close>

lemma unescape_plain: "CHR ''&'' \<notin> set t \<Longrightarrow> unescape t = t"
  using replace_str_skips [of _ t _ "[]"] by (simp add: unescape_def)

lemma digit_plain: "is_digit c \<Longrightarrow> c \<noteq> CHR ''&'' \<and> c \<noteq> CHR ''<'' \<and> char_byte c < 0x80 \<and> graphic c"
  by (auto simp: is_digit_def graphic_def char_byte_def)

lemma fmt_i64_chars:
  assumes "c \<in> set (fmt_i64 w)"
  shows "c \<noteq> CHR ''&'' \<and> c \<noteq> CHR ''<'' \<and> char_byte c < 0x80 \<and> graphic c"
proof -
  from assms consider "c = CHR ''-''" | n where "c \<in> set (fmt_dec n)" by (auto simp: fmt_i64_def split: if_splits)
  then show ?thesis
  proof cases
    case 1
    then show ?thesis by (simp add: graphic_def char_byte_def)
  next
    case 2
    then have "is_digit c" using fmt_dec_digits [of n] by (auto simp: fmt_dec_def list_all_iff)
    then show ?thesis by (rule digit_plain)
  qed
qed

lemma fmt_i64_text:
  "fmt_i64 w \<noteq> []" "unescape (fmt_i64 w) = fmt_i64 w" "trim (fmt_i64 w) = fmt_i64 w" "utf8_valid (as_bytes (fmt_i64 w))"
  "char_byte (CHR ''<'') \<notin> set (as_bytes (fmt_i64 w))"
proof -
  show ne: "fmt_i64 w \<noteq> []" using fmt_dec_head by (auto simp: fmt_i64_def)
  show "unescape (fmt_i64 w) = fmt_i64 w" by (rule unescape_plain) (use fmt_i64_chars in blast)
  show "trim (fmt_i64 w) = fmt_i64 w"
    by (rule trim_graphic [OF ne])
      (use fmt_i64_chars [of "hd (fmt_i64 w)" w] fmt_i64_chars [of "last (fmt_i64 w)" w] ne in simp_all)
  show "utf8_valid (as_bytes (fmt_i64 w))"
    by (rule utf8_valid_ascii) (use fmt_i64_chars in \<open>auto simp: is_ascii_def as_bytes_def list_all_iff\<close>)
  show "char_byte (CHR ''<'') \<notin> set (as_bytes (fmt_i64 w))" using fmt_i64_chars [of "CHR ''<''" w] by (auto simp: as_bytes_def)
qed

subsection \<open>Values\<close>

lemma xml_value_text:
  "px_rest s (skip_ws s i) = Ok (as_bytes ''<string>'' @ rest) \<Longrightarrow>
     xml_value s i = and_then (text_element s (skip_ws s i) ''string'') (\<lambda>(t, j). Ok (PString t, j))"
  "px_rest s (skip_ws s i) = Ok (as_bytes ''<integer>'' @ rest) \<Longrightarrow>
     xml_value s i = and_then (text_element s (skip_ws s i) ''integer'') (\<lambda>(t, j).
       Ok (PInteger (case parse_i64 (trim t) of None \<Rightarrow> 0 | Some v \<Rightarrow> v), j))"
  "px_rest s (skip_ws s i) = Ok (as_bytes ''<data>'' @ rest) \<Longrightarrow>
     xml_value s i = and_then (text_element s (skip_ws s i) ''data'') (\<lambda>(t, j). Ok (PData (as_bytes (trim t)), j))"
  by (simp add: xml_value.simps [of s i] Let_def, simp add: as_bytes_def)+

lemma reads_back_text:
  assumes "xml_print ws v = element name (as_bytes t)" and "char_byte (CHR ''<'') \<notin> set (as_bytes t)" and "utf8_valid (as_bytes t)"
    and "\<And>i rest j. px_rest s (skip_ws s i) = Ok (as_bytes (''<'' @ (name @ ''>'')) @ rest) \<Longrightarrow>
      text_element s (skip_ws s i) name = Ok (unescape t, j) \<Longrightarrow> xml_value s i = Ok (v, j)"
  shows "reads_back ws s v"
  unfolding reads_back_def
proof (intro allI impI)
  fix i w r
  assume here: "drop i s = w @ xml_print ws v @ r" and ws: "list_all is_ascii_whitespace w"
  then have "drop i s = w @ char_byte (CHR ''<'') # (as_bytes (name @ ''>'') @ as_bytes t @ as_bytes (''</'' @ name @ ''>'') @ r)"
    by (simp add: assms(1) element_starts as_bytes_def)
  note pos = at_tag [OF this ws]
  have "drop (i + length w) s = element name (as_bytes t) @ r" using drop_past [OF here] assms(1) by simp
  from text_element_at [OF this assms(2,3)] pos assms(1) show "xml_value s i = Ok (v, i + length w + length (xml_print ws v))"
    by (intro assms(4) [of i "as_bytes t @ as_bytes (''</'' @ name @ ''>'') @ r"]) (simp_all add: as_bytes_def)
qed

lemma reads_back_bool: "reads_back ws s (PBool b)"
  unfolding reads_back_def
proof (intro allI impI)
  fix i w r
  assume here: "drop i s = w @ xml_print ws (PBool b) @ r" and ws: "list_all is_ascii_whitespace w"
  then have "drop i s = w @ char_byte (CHR ''<'') # (as_bytes (if b then ''true/>'' else ''false/>'') @ r)" by (simp add: as_bytes_def)
  from at_tag [OF this ws] show "xml_value s i = Ok (PBool b, i + length w + length (xml_print ws (PBool b)))"
    by (cases b) (simp_all add: xml_value.simps [of s i] Let_def as_bytes_def)
qed

lemma reads_back_array:
  assumes "list_all is_ascii_whitespace ws" and "list_all (reads_back ws s) vs"
  shows "reads_back ws s (PArray vs)"
  unfolding reads_back_def
proof (intro allI impI)
  fix i w r
  assume here: "drop i s = w @ xml_print ws (PArray vs) @ r" and ws: "list_all is_ascii_whitespace w"
  let ?body = "concat (map (\<lambda>v. ws @ xml_print ws v) vs) @ ws @ as_bytes ''</array>'' @ r"
  have tag: "drop i s = (w @ as_bytes ''<array>'') @ ?body" using here by (simp add: element_def as_bytes_def)
  then have "drop i s = w @ char_byte (CHR ''<'') # (as_bytes ''array>'' @ ?body)" by (simp add: as_bytes_def)
  note pos = at_tag [OF this ws]
  from parse_array_at [OF assms drop_past [OF tag], of "[]"] pos
  show "xml_value s i = Ok (PArray vs, i + length w + length (xml_print ws (PArray vs)))"
    by (simp add: xml_value.simps [of s i] Let_def element_def as_bytes_def add.assoc)
qed

lemma reads_back_dict:
  assumes "list_all is_ascii_whitespace ws" and "list_all (\<lambda>(k, v). utf8_valid (as_bytes k) \<and> reads_back ws s v) m" and "bt_invar m"
  shows "reads_back ws s (PDict m)"
  unfolding reads_back_def
proof (intro allI impI)
  fix i w r
  assume here: "drop i s = w @ xml_print ws (PDict m) @ r" and ws: "list_all is_ascii_whitespace w"
  let ?body = "concat (map (entry_print ws) m) @ ws @ as_bytes ''</dict>'' @ r"
  have tag: "drop i s = (w @ as_bytes ''<dict>'') @ ?body" using here by (simp add: xml_print_dict del: xml_print.simps)
  then have "drop i s = w @ char_byte (CHR ''<'') # (as_bytes ''dict>'' @ ?body)" by (simp add: as_bytes_def)
  note pos = at_tag [OF this ws]
  from parse_dict_at [OF assms(1,2) drop_past [OF tag], of "[]"] assms(3) pos
  show "xml_value s i = Ok (PDict m, i + length w + length (xml_print ws (PDict m)))"
    by (simp add: xml_value.simps [of s i] Let_def xml_print_dict as_bytes_def add.assoc del: xml_print.simps)
qed

lemma reads_back_print:
  assumes "list_all is_ascii_whitespace ws" and "xml_ok v"
  shows "reads_back ws s v"
  using assms(2)
proof (induction v)
  case (PBool b)
  show ?case by (rule reads_back_bool)
next
  case (PInteger n)
  show ?case
  proof (rule reads_back_text [OF _ fmt_i64_text(5,4)])
    fix i rest j
    assume "px_rest s (skip_ws s i) = Ok (as_bytes (''<'' @ (''integer'' @ ''>'')) @ rest)"
      and "text_element s (skip_ws s i) ''integer'' = Ok (unescape (fmt_i64 n), j)"
    with xml_value_text(2) [of s i rest] show "xml_value s i = Ok (PInteger n, j)" by (simp add: fmt_i64_text)
  qed simp
next
  case (PString t)
  then have valid: "utf8_valid (as_bytes t)" by simp
  show ?case
  proof (rule reads_back_text [OF _ escape_no_tag escape_valid [OF valid]])
    fix i rest j
    assume "px_rest s (skip_ws s i) = Ok (as_bytes (''<'' @ (''string'' @ ''>'')) @ rest)"
      and "text_element s (skip_ws s i) ''string'' = Ok (unescape (xml_escape t), j)"
    with xml_value_text(1) [of s i rest] show "xml_value s i = Ok (PString t, j)" by (simp add: unescape_escape)
  qed simp
next
  case (PData d)
  then have valid: "utf8_valid (as_bytes (map byte_char d))" by simp
  show ?case
  proof (rule reads_back_text [OF _ escape_no_tag escape_valid [OF valid]])
    fix i rest j
    assume "px_rest s (skip_ws s i) = Ok (as_bytes (''<'' @ (''data'' @ ''>'')) @ rest)"
      and "text_element s (skip_ws s i) ''data'' = Ok (unescape (xml_escape (map byte_char d)), j)"
    with xml_value_text(3) [of s i rest] PData show "xml_value s i = Ok (PData d, j)" by (simp add: unescape_escape)
  qed simp
next
  case (PArray vs)
  then show ?case by (intro reads_back_array [OF assms(1)]) (simp add: list_all_iff)
next
  case (PDict m)
  then show ?case by (intro reads_back_dict [OF assms(1)]) (auto simp: list_all_iff)
qed simp

subsection \<open>Documents\<close>

lemma ws_valid: "list_all is_ascii_whitespace ws \<Longrightarrow> utf8_valid ws"
  by (rule utf8_valid_ascii) (auto simp: is_ascii_def list_all_iff is_ascii_whitespace_def)

lemma literal_valid [simp]:
  "utf8_valid (as_bytes s) \<Longrightarrow> char_byte c < 0x80 \<Longrightarrow> utf8_valid (as_bytes (c # s))" "utf8_valid (as_bytes [])"
  by (simp_all add: as_bytes_def)

lemma utf8_valid_concat: "(\<And>x. x \<in> set xss \<Longrightarrow> utf8_valid x) \<Longrightarrow> utf8_valid (concat xss)"
  by (induction xss) (simp_all add: utf8_valid_append)

lemma element_valid:
  assumes "utf8_valid body" and "is_ascii (as_bytes name)"
  shows "utf8_valid (element name body)"
proof -
  have "is_ascii (as_bytes (''<'' @ name @ ''>''))" "is_ascii (as_bytes (''</'' @ name @ ''>''))"
    using assms(2) by (simp_all add: is_ascii_def as_bytes_def) (simp_all add: char_byte_def)
  then show ?thesis using assms(1) by (simp add: element_def utf8_valid_append utf8_valid_ascii del: as_bytes_append)
qed

lemma is_ascii_literal: "is_ascii (as_bytes s) \<longleftrightarrow> list_all (\<lambda>c. char_byte c < 0x80) s"
  by (simp add: is_ascii_def as_bytes_def list_all_iff)

lemma names_ascii [simp]:
  "is_ascii (as_bytes ''integer'')" "is_ascii (as_bytes ''string'')" "is_ascii (as_bytes ''data'')" "is_ascii (as_bytes ''array'')"
  "is_ascii (as_bytes ''key'')" "is_ascii (as_bytes ''<dict>'')" "is_ascii (as_bytes ''</dict>'')"
  "is_ascii (as_bytes ''<true/>'')" "is_ascii (as_bytes ''<false/>'')"
  by (simp_all add: is_ascii_literal char_byte_def)

lemma xml_print_valid:
  assumes "list_all is_ascii_whitespace ws"
  shows "xml_ok v \<Longrightarrow> utf8_valid (xml_print ws v)"
proof (induction v)
  case (PBool b)
  show ?case by (rule utf8_valid_ascii) simp
next
  case (PInteger n)
  show ?case by (simp add: element_valid fmt_i64_text)
next
  case (PString t)
  then show ?case by (simp add: element_valid escape_valid)
next
  case (PData d)
  then have "utf8_valid (as_bytes (map byte_char d))" by simp
  then show ?case by (simp add: element_valid escape_valid)
next
  case (PArray vs)
  then have "utf8_valid (concat (map (\<lambda>v. ws @ xml_print ws v) vs))"
    using ws_valid [OF assms] by (intro utf8_valid_concat) (auto simp: list_all_iff intro: utf8_valid_append)
  then show ?case
    using ws_valid [OF assms] by (simp add: element_valid utf8_valid_append)
next
  case (PDict m)
  from PDict have "utf8_valid (concat (map (entry_print ws) m))"
    using ws_valid [OF assms] names_ascii(5)
    by (intro utf8_valid_concat) (fastforce simp: list_all_iff entry_print_def intro!: utf8_valid_append element_valid escape_valid)
  then show ?case
    unfolding xml_print_dict using ws_valid [OF assms] by (simp add: utf8_valid_append utf8_valid_ascii)
qed simp

lemma advance_past_at:
  assumes "drop i s = as_bytes t @ r" and "find_window (as_bytes t @ r) (as_bytes fin) = Some n" and "t \<noteq> []"
    and "n + length fin = length t"
  shows "advance_past s i fin = Ok (i + length t)"
proof -
  obtain c t' where "t = c # t'" using assms(3) by (cases t) auto
  then have "drop i s = char_byte c # (as_bytes t' @ r)" using assms(1) by (simp add: as_bytes_def)
  from px_rest_at [OF this] assms show ?thesis by (simp add: advance_past_def \<open>drop i s = char_byte c # (as_bytes t' @ r)\<close> [symmetric])
qed

lemma prologue_at:
  assumes "drop i s = w @ as_bytes t @ r" and "list_all is_ascii_whitespace w" and "t = CHR ''<'' # t'"
    and "tag_at ''<?'' (as_bytes t) \<and> fin = ''?>'' \<or> tag_at ''<!D'' (as_bytes t) \<and> fin = ''>''"
    and "\<And>r. find_window (as_bytes t @ r) (as_bytes fin) = Some n" and "n + length fin = length t"
  shows "skip_prologue s i = skip_prologue s (i + length w + length t)"
proof -
  have "drop i s = w @ char_byte (CHR ''<'') # (as_bytes t' @ r)" using assms(1,3) by (simp add: as_bytes_def)
  note pos = at_tag [OF this assms(2)]
  have rest: "char_byte (CHR ''<'') # (as_bytes t' @ r) = as_bytes t @ r" using assms(3) by (simp add: as_bytes_def)
  have "drop (i + length w) s = as_bytes t @ r" by (rule drop_past [OF assms(1)])
  note adv = advance_past_at [OF this assms(5) _ assms(6)]
  have tags: "tag_at ''<?'' (as_bytes t @ r) \<and> fin = ''?>'' \<or>
      \<not> tag_at ''<?'' (as_bytes t @ r) \<and> \<not> tag_at ''<!--'' (as_bytes t @ r) \<and> tag_at ''<!'' (as_bytes t @ r) \<and> fin = ''>''"
    using assms(4) by (auto simp: prefix_def as_bytes_def)
  show ?thesis
    using tags pos adv assms(3) unfolding rest by (subst skip_prologue.simps) (auto simp: Let_def simp del: skip_prologue.simps)
qed

lemma xml_parse_document:
  assumes "list_all is_ascii_whitespace ws" and "xml_ok v"
  shows "xml_parse (xml_document ws v) = Ok v"
proof -
  let ?a = "''<?xml version=1.0?>''" and ?b = "''<!DOCTYPE plist>''" and ?c = "''<plist version=1.0>''"
  let ?body = "ws @ xml_print ws v @ ws @ as_bytes ''</plist>''"
  let ?s = "xml_document ws v" and ?i = "length ?a + length ws + length ?b + length ws"
  have s: "?s = as_bytes ?a @ ws @ as_bytes ?b @ ws @ as_bytes ?c @ ?body" by (simp only: xml_document_def append_assoc)
  have ascii: "is_ascii (as_bytes ?a)" "is_ascii (as_bytes ?b)" "is_ascii (as_bytes ?c)" "is_ascii (as_bytes ''</plist>'')"
    by (simp_all add: is_ascii_literal char_byte_def)
  have valid: "utf8_valid ?s"
    unfolding s by (intro utf8_valid_append utf8_valid_ascii ascii ws_valid [OF assms(1)] xml_print_valid [OF assms])
  have at_b: "drop (0 + length ([] :: u8 list) + length ?a) ?s = ws @ as_bytes ?b @ ws @ as_bytes ?c @ ?body"
    using drop_past [of 0 ?s "as_bytes ?a"] s by simp
  have at_c: "drop (0 + length ([] :: u8 list) + length ?a + length ws + length ?b) ?s = ws @ as_bytes ?c @ ?body"
    using drop_past [OF drop_past [OF at_b]] by simp
  have "skip_prologue ?s 0 = skip_prologue ?s (0 + length ([] :: u8 list) + length ?a)"
    by (rule prologue_at [where t' = "tl ?a" and fin = "''?>''" and n = 17]) (simp_all add: s, simp_all add: as_bytes_def)
  also have "\<dots> = skip_prologue ?s (0 + length ([] :: u8 list) + length ?a + length ws + length ?b)"
    by (rule prologue_at [OF at_b assms(1), where t' = "tl ?b" and fin = "''>''" and n = 15]) (simp_all, simp_all add: as_bytes_def)
  also have "\<dots> = Ok ?i"
  proof -
    have "drop (0 + length ([] :: u8 list) + length ?a + length ws + length ?b) ?s =
        ws @ char_byte (CHR ''<'') # (as_bytes (tl ?c) @ ?body)" using at_c by (simp add: as_bytes_def)
    from at_tag [OF this assms(1)] show ?thesis
      by (subst skip_prologue.simps) (simp add: Let_def as_bytes_def)
  qed
  finally have pro: "skip_prologue ?s 0 = Ok ?i" .
  have at_c': "drop ?i ?s = as_bytes ?c @ ?body" using drop_past [OF at_c] by simp
  then have "drop ?i ?s = [] @ char_byte (CHR ''<'') # (as_bytes (tl ?c) @ ?body)" by (simp add: as_bytes_def)
  note pos = at_tag [OF this]
  have "advance_past ?s ?i ''>'' = Ok (?i + length ?c)"
    by (rule advance_past_at [OF at_c', where n = 18]) (simp_all add: as_bytes_def)
  with pos have open': "expect_open ?s ?i ''plist'' = Ok (?i + length ?c)" by (simp add: expect_open_def Let_def as_bytes_def)
  have "drop (?i + length ?c) ?s = ws @ xml_print ws v @ ws @ as_bytes ''</plist>''" using drop_past [OF at_c'] by simp
  from reads_backD [OF reads_back_print [OF assms] this assms(1)] valid pro open'
  show ?thesis by (simp add: xml_parse_def from_utf8_def del: length_Cons)
qed

lemma lossy_bytes_ascii_append: "is_ascii xs \<Longrightarrow> lossy_bytes (xs @ ys) = xs @ lossy_bytes ys"
  by (induction xs) (simp_all add: is_ascii_def)

lemma document_looks_like_xml: "looks_like_xml (xml_document ws v)"
proof -
  obtain R where R: "xml_document ws v = as_bytes ''<?xml'' @ R"
    by (simp add: xml_document_def as_bytes_def)
  have ascii: "is_ascii (as_bytes ''<?xml'')" by (simp add: is_ascii_literal char_byte_def)
  have "take (min (length (xml_document ws v)) 256) (xml_document ws v) = as_bytes ''<?xml'' @ take (min (length R) 251) R"
    by (simp add: R min_def as_bytes_def)
  then have "from_utf8_lossy (take (min (length (xml_document ws v)) 256) (xml_document ws v)) =
      ''<?xml'' @ map byte_char (lossy_bytes (take (min (length R) 251) R))"
    unfolding from_utf8_lossy_def by (simp only: lossy_bytes_ascii_append [OF ascii] map_append byte_char_as_bytes)
  then show ?thesis by (simp add: looks_like_xml_def Let_def)
qed

section \<open>No panic\<close>

lemma px_rest_ok: "i \<le> length s \<Longrightarrow> px_rest s i = Ok (drop i s)"
  by (simp add: px_rest_def slice_index_def slice_get_def)

lemma advance_past_ok: "i \<le> length s \<Longrightarrow> \<exists>j \<le> length s. advance_past s i fin = Ok j"
  using find_window_bound [of "drop i s" "as_bytes fin"] by (auto simp: advance_past_def px_rest_ok split: option.splits)

lemma skip_prologue_ok: "i \<le> length s \<Longrightarrow> \<exists>j \<le> length s. skip_prologue s i = Ok j"
proof (induction s i rule: skip_prologue.induct)
  case (1 s i)
  let ?i = "skip_ws s i"
  have pos: "?i \<le> length s" by (rule skip_ws_le [OF 1(4)])
  note rest = px_rest_ok [OF pos]
  note step = advance_past_ok [OF pos]
  show ?case
    using 1(1) [OF refl rest] 1(2) [OF refl rest] 1(3) [OF refl rest] step [of "''?>''"] step [of "''-->''"] step [of "''>''"] pos
    by (subst skip_prologue.simps) (auto simp: Let_def rest simp del: skip_prologue.simps)
qed

lemma expect_open_ok:
  assumes "i \<le> length s"
  shows "expect_open s i name \<noteq> Panic \<and> (\<forall>j. expect_open s i name = Ok j \<longrightarrow> j \<le> length s)"
proof -
  obtain j where "advance_past s (skip_ws s i) ''>'' = Ok j" "j \<le> length s"
    using advance_past_ok [OF skip_ws_le [OF assms]] by blast
  then show ?thesis by (simp add: expect_open_def Let_def px_rest_ok skip_ws_le assms)
qed

definition reads_within :: "u8 list \<Rightarrow> ('a \<times> nat) plist_result \<Rightarrow> bool" where
  "reads_within s r \<longleftrightarrow> r \<noteq> Panic \<and> (\<forall>v j. r = Ok (v, j) \<longrightarrow> j \<le> length s)"

lemma reads_within_simps [simp]:
  "reads_within s (Ok (v, j)) \<longleftrightarrow> j \<le> length s" "reads_within s (Err e)" "\<not> reads_within s Panic"
  by (auto simp: reads_within_def)

lemma reads_within_then:
  "reads_within s m \<Longrightarrow> (\<And>x j. m = Ok (x, j) \<Longrightarrow> j \<le> length s \<Longrightarrow> reads_within s (f (x, j))) \<Longrightarrow> reads_within s (and_then m f)"
  by (cases m) auto

lemma text_element_within:
  assumes "tag_at (''<'' @ name @ ''>'') (drop i s)" and "i \<le> length s"
  shows "reads_within s (text_element s i name)"
proof -
  have "length (as_bytes (''<'' @ name @ ''>'')) \<le> length (drop i s)" using assms(1) by (rule prefix_length_le)
  then have "i + length (''<'' @ name @ ''>'') \<le> length s" using assms(2) by simp
  then show ?thesis
    using find_window_bound [of "drop (i + length (''<'' @ name @ ''>'')) s" "as_bytes (''</'' @ name @ ''>'')"]
    by (auto simp: text_element_def Let_def px_rest_ok reads_within_def result_simps)
qed

lemma tag_within: "tag_at t (drop i s) \<Longrightarrow> i \<le> length s \<Longrightarrow> i + length t \<le> length s"
  by (drule prefix_length_le) simp

lemma xml_within:
  "i \<le> length s \<Longrightarrow> reads_within s (xml_value s i)"
  "i \<le> length s \<Longrightarrow> reads_within s (parse_dict s i m)"
  "i \<le> length s \<Longrightarrow> reads_within s (parse_array s i out)"
proof (induction s i and s i m and s i out rule: xml_value_parse_dict_parse_array.induct)
  case (1 s i)
  let ?i = "skip_ws s i"
  have pos: "?i \<le> length s" by (rule skip_ws_le [OF 1(3)])
  note rest = px_rest_ok [OF pos]
  note ih = 1(1) [OF refl rest] 1(2) [OF refl rest]
  have leaf: "reads_within s (and_then (text_element s ?i name) (\<lambda>(t, j). Ok (f t, j)))"
    if "tag_at (''<'' @ name @ ''>'') (drop ?i s)" for name f
    by (rule reads_within_then [OF text_element_within [OF that pos]]) simp
  note w = tag_within [OF _ pos]
  show ?case
    using ih w [of "''<dict>''"] w [of "''<array>''"] w [of "''<true/>''"] w [of "''<false/>''"] leaf [of "''string''" PString]
      leaf [of "''integer''" "\<lambda>t. PInteger (case parse_i64 (trim t) of None \<Rightarrow> 0 | Some v \<Rightarrow> v)"]
      leaf [of "''real''" "\<lambda>t. PReal (case parse_f64 (trim t) of None \<Rightarrow> 0 | Some v \<Rightarrow> v)"]
      leaf [of "''data''" "\<lambda>t. PData (as_bytes (trim t))"]
    by (subst xml_value.simps) (simp add: Let_def rest del: as_bytes_append)
next
  case (2 s i m)
  let ?i = "skip_ws s i"
  have pos: "?i \<le> length s" by (rule skip_ws_le [OF 2(3)])
  note rest = px_rest_ok [OF pos]
  show ?case
  proof (cases "tag_at ''</dict>'' (drop ?i s) \<or> \<not> tag_at ''<key>'' (drop ?i s)")
    case True
    then show ?thesis using tag_within [of "''</dict>''", OF _ pos] by (subst parse_dict.simps) (auto simp: Let_def rest)
  next
    case False
    then have tags: "\<not> tag_at ''</dict>'' (drop ?i s)" "\<not> \<not> tag_at ''<key>'' (drop ?i s)" by simp_all
    then have "reads_within s (text_element s ?i ''key'')" by (intro text_element_within pos) simp
    then have "reads_within s (and_then (text_element s ?i ''key'') (\<lambda>(key, j).
        and_then (xml_value s j) (\<lambda>(val, k). parse_dict s k (bt_insert key val m))))"
      using 2(1) [OF refl rest tags _ refl] 2(2) [OF refl rest tags _ refl _ refl]
      by (intro reads_within_then) (auto intro!: reads_within_then)
    with tags show ?thesis by (subst parse_dict.simps) (simp add: Let_def rest)
  qed
next
  case (3 s i out)
  let ?i = "skip_ws s i"
  have pos: "?i \<le> length s" by (rule skip_ws_le [OF 3(3)])
  note rest = px_rest_ok [OF pos]
  show ?case
  proof (cases "tag_at ''</array>'' (drop ?i s)")
    case True
    then show ?thesis using tag_within [OF True pos] by (subst parse_array.simps) (simp add: Let_def rest)
  next
    case False
    have "reads_within s (and_then (xml_value s ?i) (\<lambda>(val, j). parse_array s j (out @ [val])))"
      using 3(1) [OF refl rest False pos] 3(2) [OF refl rest False _ refl]
      by (intro reads_within_then) auto
    with False show ?thesis by (subst parse_array.simps) (simp add: Let_def rest)
  qed
qed

lemma xml_parse_no_panic: "xml_parse bytes \<noteq> Panic"
proof (cases "from_utf8 bytes")
  case (Some t)
  let ?s = "as_bytes t"
  obtain i where i: "i \<le> length ?s" "skip_prologue ?s 0 = Ok i" using skip_prologue_ok [of 0 ?s] by auto
  show ?thesis
  proof (cases "expect_open ?s i ''plist''")
    case (Ok j)
    then have "reads_within ?s (xml_value ?s j)" using expect_open_ok [OF i(1)] by (intro xml_within) simp
    then show ?thesis using Some i(2) Ok by (cases "xml_value ?s j") (auto simp: xml_parse_def)
  qed (use Some i expect_open_ok [OF i(1), of "''plist''"] in \<open>simp_all add: xml_parse_def\<close>)
qed (simp add: xml_parse_def)

lemma plist_parse_document:
  assumes "list_all is_ascii_whitespace ws" and "xml_ok v"
  shows "plist_parse (xml_document ws v) = Ok v"
proof -
  have "\<not> prefix (as_bytes ''bplist00'') (xml_document ws v)" by (simp add: xml_document_def as_bytes_def)
  then show ?thesis using document_looks_like_xml xml_parse_document [OF assms] by (simp add: plist_parse_def)
qed

section \<open>Properties\<close>

text \<open>
  C12. XML property lists read back: printing a value (text in UTF-8 with the five predefined entities escaped, integers,
  booleans, data, nested arrays and dictionaries in key order) after a prologue, with any white space between the
  elements, and parsing the file gives the value.
\<close>

theorem plist_xml_roundtrip:
  assumes "list_all is_ascii_whitespace ws" and "xml_ok v"
  shows "plist_parse (xml_document ws v) = Ok v"
  by (rule plist_parse_document [OF assms])

theorem plist_xml_roundtrip_witness:
  "\<exists>ws v. xml_ok v \<and> ws \<noteq> [] \<and> v = PDict [(''A&B'', PArray [PInteger (- 7), PBool True]), (''C'', PString ''<x>'')] \<and>
     plist_parse (xml_document ws v) = Ok v"
proof -
  let ?v = "PDict [(''A&B'', PArray [PInteger (- 7), PBool True]), (''C'', PString ''<x>'')]"
  have "xml_ok ?v" by (simp add: bt_invar_def less_char_def as_bytes_def char_byte_def)
  moreover have "list_all is_ascii_whitespace [0x0A, 0x20]" by (simp add: is_ascii_whitespace_def)
  ultimately show ?thesis using plist_xml_roundtrip [of "[0x0A, 0x20]" ?v] by blast
qed

text \<open>
  C36. No text makes the property-list reader panic: an input that does not start with the binary magic is parsed or
  rejected with an error, whatever its bytes.  The host's stack is outside the model: the reader recurses once
  per nested element without a limit, so deep nesting can still exhaust it.
\<close>

theorem plist_text_no_panic:
  assumes "\<not> prefix (as_bytes ''bplist00'') bytes"
  shows "plist_parse bytes \<noteq> Panic"
  using assms xml_parse_no_panic by (simp add: plist_parse_def)

theorem plist_text_no_panic_witness: "plist_parse (as_bytes ''<plist><array>'') \<noteq> Panic"
proof -
  have "\<not> prefix (as_bytes ''bplist00'') (as_bytes ''<plist><array>'')" by (simp add: as_bytes_def)
  then show ?thesis by (rule plist_text_no_panic)
qed

end
