(* ===== verification/Ipa_Scan.thy ===== *)
theory Ipa_Scan
  imports Ipa_Confined Plist_Xml "HOL-Library.Multiset"
begin

text \<open>
  What the scan of a directory returns: the applications of the archives that parse, in the order of their
  names.  The statement is for a host whose files do not change during the scan; it covers every way the
  scan can end, an abort of the process included.
\<close>

section \<open>Scanning an unchanging directory\<close>

definition ipa_panics :: "('w, 'f, 'z, 'e) ipa_host \<Rightarrow> 'w \<Rightarrow> string \<Rightarrow> bool" where
  "ipa_panics h w p \<longleftrightarrow> is_ipa_path p \<and> snd (inspect_ipa h p w) = Panic"

fun parsed_bundles :: "('w, 'f, 'z, 'e) ipa_host \<Rightarrow> 'w \<Rightarrow> string list \<Rightarrow> ipa_bundle list" where
  "parsed_bundles h w [] = []"
| "parsed_bundles h w (p # ps) =
     (case snd (inspect_ipa h p w) of
        Ok b \<Rightarrow> if is_ipa_path p then b # parsed_bundles h w ps else parsed_bundles h w ps
      | _ \<Rightarrow> parsed_bundles h w ps)"

text \<open>A listing whose leading entries are readable: the loop goes through these and then meets the rest.\<close>

lemma scan_entries_readable:
  assumes "\<And>p. p \<in> set paths \<Longrightarrow> is_ipa_path p \<Longrightarrow> fst (inspect_ipa h p w) = w"
  shows "scan_entries h (map Ok paths @ rest) w =
    (if \<exists>p \<in> set paths. ipa_panics h w p then (w, Panic)
     else act_then (scan_entries h rest) (\<lambda>bs. act_return (parsed_bundles h w paths @ bs)) w)"
  using assms
proof (induction paths)
  case Nil
  show ?case by (simp add: act_then_def split: prod.splits rust_result.splits)
next
  case (Cons p ps)
  then have rest: "scan_entries h (map Ok ps @ rest) w =
    (if \<exists>p \<in> set ps. ipa_panics h w p then (w, Panic)
     else act_then (scan_entries h rest) (\<lambda>bs. act_return (parsed_bundles h w ps @ bs)) w)" by simp
  show ?case
  proof (cases "is_ipa_path p")
    case True
    with Cons.prems [of p] obtain r where "inspect_ipa h p w = (w, r)" by (cases "inspect_ipa h p w") simp
    with True rest show ?thesis
      by (cases r) (auto simp: ipa_panics_def act_match_def act_then_def act_query_def split: prod.splits rust_result.splits)
  next
    case False
    with rest show ?thesis
      by (auto simp: ipa_panics_def act_then_def act_query_def split: prod.splits rust_result.splits)
  qed
qed

section \<open>A shelf of archives\<close>

definition shelf_host :: "(string \<times> (string \<times> u8 list) list) list \<Rightarrow>
    (unit, string, (string \<times> u8 list) list, string \<times> u8 list) ipa_host" where
  "shelf_host shelf =
     \<lparr>ih_open = act_return, ih_zip_new = (\<lambda>f. case map_of shelf f of None \<Rightarrow> act_fail (ZipOther ''bad'') | Some z \<Rightarrow> act_return z),
      ih_file_names = map fst, ih_len = length,
      ih_by_name = (\<lambda>z name. case map_of z name of None \<Rightarrow> act_fail ZipFileNotFound | Some d \<Rightarrow> act_return (name, d)),
      ih_by_index = (\<lambda>z i. if i < length z then act_return (z ! i) else act_fail ZipFileNotFound),
      ih_entry_name = fst, ih_entry_size = (\<lambda>e. of_nat (length (snd e))), ih_read_to_end = (\<lambda>e. act_return (snd e)),
      ih_create_dir_all = (\<lambda>w p. (w, Ok ())), ih_write = (\<lambda>p _. act_return ()),
      ih_read = (\<lambda>_. act_fail NotFound), ih_read_dir = (\<lambda>_. act_return [Ok ''b.ipa'', Ok ''notes.txt'', Ok ''a.IPA'']),
      ih_zip_text = (\<lambda>_. ''bad'')\<rparr>"

definition demo_document :: "u8 list" where
  "demo_document = xml_document [] (PDict [(''CFBundleName'', PString ''Demo'')])"

text \<open>An archive with one application; the other file with the extension is no archive.\<close>

definition sample_shelf :: "(string \<times> (string \<times> u8 list) list) list" where
  "sample_shelf = [(''b.ipa'', [(''Payload/D.app/Info.plist'', demo_document)])]"

definition demo_bundle :: ipa_bundle where
  "demo_bundle =
     \<lparr>ib_ipa_path = ''b.ipa'', ib_bundle_dir = ''Payload/D.app'', ib_executable_path = ''Payload/D.app/D'',
      ib_metadata = \<lparr>am_name = ''Demo'', am_bundle_identifier = '''', am_minimum_os_version = '''', am_executable = ''D'', am_icon_png = None\<rparr>\<rparr>"

lemma demo_document_parses: "plist_parse demo_document = Ok (PDict [(''CFBundleName'', PString ''Demo'')])"
  unfolding demo_document_def
  by (rule plist_parse_document) (simp_all add: bt_invar_def as_bytes_def char_byte_def)

lemma sample_shelf_inspected:
  "inspect_ipa (shelf_host sample_shelf) ''b.ipa'' () = ((), Ok demo_bundle)"
  "\<not> is_ipa_path ''notes.txt''" "is_ipa_path ''b.ipa''"
  "inspect_ipa (shelf_host sample_shelf) ''notes.txt'' () = ((), Err (Archive ''zip open: bad''))"
  "inspect_ipa (shelf_host sample_shelf) ''a.IPA'' () = ((), Err (Archive ''zip open: bad''))"
proof -
  have size: "unat (of_nat (length demo_document) :: u64) < 1000"
    by (simp add: demo_document_def xml_document_def element_def as_bytes_def xml_escape_def xml_escape_char_def)
  have dir: "find_bundle_dir [''Payload/D.app/Info.plist''] = Ok ''Payload/D.app''"
    by (simp add: find_bundle_dir_def better_bundle_def bundle_candidate_def strip_suffix_def suffix_def)
  show "inspect_ipa (shelf_host sample_shelf) ''b.ipa'' () = ((), Ok demo_bundle)"
    using size
    by (simp add: inspect_ipa_def open_archive_def shelf_host_def sample_shelf_def act_then_def act_map_err_def act_query_def act_match_def
        dir read_entry_def entry_bytes_def vec_with_capacity_def demo_document_parses metadata_from_plist_def plist_str_def bt_get_def
        default_executable_name_def pick_icon_name_def last_str_def demo_bundle_def Let_def strip_suffix_def suffix_to_prefix)
  show "\<not> is_ipa_path ''notes.txt''" "is_ipa_path ''b.ipa''"
    by (simp_all add: is_ipa_path_def path_extension_def path_file_name_def ascii_lower_def Let_def as_bytes_def char_byte_def)
  show "inspect_ipa (shelf_host sample_shelf) ''notes.txt'' () = ((), Err (Archive ''zip open: bad''))"
    "inspect_ipa (shelf_host sample_shelf) ''a.IPA'' () = ((), Err (Archive ''zip open: bad''))"
    by (simp_all add: inspect_ipa_def open_archive_def shelf_host_def sample_shelf_def act_then_def act_map_err_def)
qed

section \<open>Properties\<close>

text \<open>
  C24. One bad archive does not hide the rest of the library.  If the files do not change during the scan: an
  unreadable directory fails it with the error of the listing; an archive whose inspection panics (the
  property list findings show such files) aborts it, if the loop reaches it; a listing
  entry that cannot be read fails it with its error.  Otherwise the scan returns exactly the applications of the archives that
  can be inspected, each once, sorted by lower-case name, with those of equal name in the order of the
  directory listing; a file whose inspection returns an error is skipped.
\<close>

theorem scan_lists_parsable:
  assumes "ih_read_dir h dir w = (w, r)"
    and "\<forall>entries p. r = Ok entries \<and> Ok p \<in> set entries \<and> is_ipa_path p \<longrightarrow> fst (inspect_ipa h p w) = w"
  shows "(\<forall>e. r = Err e \<longrightarrow> scan_directory lower h dir w = (w, Err (Io e))) \<and>
    (\<forall>paths rest. r = Ok (map Ok paths @ rest) \<longrightarrow>
      (if \<exists>p \<in> set paths. is_ipa_path p \<and> snd (inspect_ipa h p w) = Panic then scan_directory lower h dir w = (w, Panic)
       else
         (\<forall>e es. rest = Err e # es \<longrightarrow> scan_directory lower h dir w = (w, Err (Io e))) \<and>
         (rest = [] \<longrightarrow>
           (\<exists>bs. scan_directory lower h dir w = (w, Ok bs) \<and> mset bs = mset (parsed_bundles h w paths) \<and>
              sorted (map (\<lambda>b. lower (am_name (ib_metadata b))) bs) \<and>
              (\<forall>k. filter (\<lambda>b. lower (am_name (ib_metadata b)) = k) bs =
                   filter (\<lambda>b. lower (am_name (ib_metadata b)) = k) (parsed_bundles h w paths))))))"
proof (intro conjI allI impI)
  fix e
  assume "r = Err e"
  with assms(1) show "scan_directory lower h dir w = (w, Err (Io e))"
    by (simp add: scan_directory_def act_then_def act_map_err_def)
next
  fix paths rest
  assume r: "r = Ok (map Ok paths @ rest)"
  let ?key = "\<lambda>b. lower (am_name (ib_metadata b))"
  have loop: "scan_entries h (map Ok paths @ rest) w =
    (if \<exists>p \<in> set paths. ipa_panics h w p then (w, Panic)
     else act_then (scan_entries h rest) (\<lambda>bs. act_return (parsed_bundles h w paths @ bs)) w)"
    using assms(2) r by (intro scan_entries_readable) auto
  have scan: "scan_directory lower h dir w =
      act_then (scan_entries h (map Ok paths @ rest)) (\<lambda>out. act_return (sort_key ?key out)) w"
    using assms(1) r by (simp add: scan_directory_def act_then_def act_map_err_def split: prod.splits rust_result.splits)
  show "if \<exists>p \<in> set paths. is_ipa_path p \<and> snd (inspect_ipa h p w) = Panic then scan_directory lower h dir w = (w, Panic)
       else
         (\<forall>e es. rest = Err e # es \<longrightarrow> scan_directory lower h dir w = (w, Err (Io e))) \<and>
         (rest = [] \<longrightarrow>
           (\<exists>bs. scan_directory lower h dir w = (w, Ok bs) \<and> mset bs = mset (parsed_bundles h w paths) \<and> sorted (map ?key bs) \<and>
              (\<forall>k. filter (\<lambda>b. ?key b = k) bs = filter (\<lambda>b. ?key b = k) (parsed_bundles h w paths))))"
    using loop scan by (auto simp: ipa_panics_def act_then_def act_query_def sort_key_stable)
qed

theorem scan_lists_parsable_witness:
  "\<exists>b. scan_directory id (shelf_host sample_shelf) ''/ipas'' () = ((), Ok [b]) \<and> am_name (ib_metadata b) = ''Demo''"
proof -
  let ?h = "shelf_host sample_shelf" and ?paths = "[''b.ipa'', ''notes.txt'', ''a.IPA'']"
  have dir: "ih_read_dir ?h ''/ipas'' () = ((), Ok (map Ok ?paths @ []))" by (simp add: shelf_host_def)
  have sound: "\<not> (\<exists>p \<in> set ?paths. is_ipa_path p \<and> snd (inspect_ipa ?h p ()) = Panic)"
    using sample_shelf_inspected by simp
  have "\<forall>entries p. Ok (map Ok ?paths @ []) = Ok entries \<and> Ok p \<in> set entries \<and> is_ipa_path p \<longrightarrow>
      fst (inspect_ipa ?h p ()) = ()" by simp
  from scan_lists_parsable [OF dir this, of id, THEN conjunct2, rule_format, OF refl] sound obtain bs
    where bs: "scan_directory id ?h ''/ipas'' () = ((), Ok bs)" "mset bs = mset (parsed_bundles ?h () ?paths)"
    by (simp only: if_False simp_thms) blast
  have "parsed_bundles ?h () ?paths = [demo_bundle]"
    using sample_shelf_inspected by simp
  with bs(2) have "bs = [demo_bundle]" by simp
  with bs(1) show ?thesis by (auto simp: demo_bundle_def)
qed

end
