(* ===== verification/Container_Id.thy ===== *)
theory Container_Id
  imports Rust_Text
begin

text \<open>
  The directory name of a launched application, \<open>generate_uuid\<close> of \<open>crates/jni/src/session.rs\<close>: the text made of
  a time stamp, the process id and a counter, and that it determines the time stamp and the counter.
\<close>

section \<open>Container names\<close>

text \<open>\<open>{:08X}\<close> and its like: upper-case hexadecimal, padded with zeros to a width.\<close>

definition ascii_upper :: "char \<Rightarrow> char" where
  "ascii_upper c = (let n = of_char c :: nat in if 97 \<le> n \<and> n \<le> 122 then char_of (n - 32) else c)"

definition fmt_HEX :: "nat \<Rightarrow> nat \<Rightarrow> string" where
  "fmt_HEX width n =
     (let digits = map ascii_upper (fmt_radix 16 n)
      in replicate (width - length digits) (CHR ''0'') @ digits)"

definition uuid_text :: "u64 \<Rightarrow> u32 \<Rightarrow> u64 \<Rightarrow> string" where
  "uuid_text nanos pid seq =
     (let a = nanos XOR push_bit 32 (ucast pid);
          b = word_rotl 17 nanos XOR seq * 0x9e3779b97f4a7c15
      in fmt_HEX 8 (unat (ucast (drop_bit 32 a) :: u32)) @ ''-'' @ fmt_HEX 4 (unat (ucast (drop_bit 16 a) :: u16)) @ ''-'' @
         fmt_HEX 4 (unat (ucast a :: u16)) @ ''-'' @ fmt_HEX 4 (unat (ucast (drop_bit 48 b) :: u16)) @ ''-'' @
         fmt_HEX 12 (unat (b AND 0xffffffffffff)))"

section \<open>Container names are unique\<close>

definition hex_val :: "string \<Rightarrow> nat" where
  "hex_val s = fold (\<lambda>c acc. 16 * acc + (if is_digit c then digit_val c else of_char c - 55)) s 0"

lemma hex_digit: "d < 16 \<Longrightarrow> hex_val (ds @ [ascii_upper (''0123456789abcdef'' ! d)]) = 16 * hex_val ds + d"
proof -
  assume "d < 16"
  then have "d = 0 \<or> d = 1 \<or> d = 2 \<or> d = 3 \<or> d = 4 \<or> d = 5 \<or> d = 6 \<or> d = 7 \<or> d = 8 \<or> d = 9 \<or> d = 10 \<or>
      d = 11 \<or> d = 12 \<or> d = 13 \<or> d = 14 \<or> d = 15" by presburger
  then show ?thesis by (elim disjE) (simp_all add: hex_val_def ascii_upper_def is_digit_def digit_val_def char_of_def bit_Suc_0_iff)
qed

lemma hex_val_radix: "hex_val (map ascii_upper (fmt_radix 16 n)) = n"
proof (induction n rule: less_induct)
  case (less n)
  show ?case
  proof (cases "n < 16")
    case True
    then show ?thesis using hex_digit [of n "[]"] by (simp add: fmt_radix.simps [of 16 n] hex_val_def [of "[]"])
  next
    case False
    with less [of "n div 16"] hex_digit [of "n mod 16"] show ?thesis by (simp add: fmt_radix.simps [of 16 n])
  qed
qed

lemma hex_val_pad: "hex_val (replicate k (CHR ''0'') @ s) = hex_val s"
  by (induction k) (simp_all add: hex_val_def is_digit_def digit_val_def)

lemma hex_val_fmt: "hex_val (fmt_HEX k n) = n"
  by (simp add: fmt_HEX_def Let_def hex_val_pad hex_val_radix)

lemma length_radix: "n < 16 ^ k \<Longrightarrow> 0 < k \<Longrightarrow> length (fmt_radix 16 n) \<le> k"
proof (induction k arbitrary: n)
  case (Suc k)
  show ?case
  proof (cases "n < 16")
    case False
    then have "0 < k" using Suc.prems(1) by (cases k) simp_all
    moreover have "n div 16 < 16 ^ k" using Suc.prems(1) by (simp add: div_less_iff_less_mult mult.commute)
    ultimately show ?thesis using False Suc.IH [of "n div 16"] by (simp add: fmt_radix.simps [of 16 n])
  qed (simp add: fmt_radix.simps [of 16 n])
qed simp

lemma length_fmt_HEX: "n < 16 ^ k \<Longrightarrow> 0 < k \<Longrightarrow> length (fmt_HEX k n) = k"
  using length_radix [of n k] by (simp add: fmt_HEX_def Let_def)

lemma fmt_HEX_split:
  assumes "fmt_HEX k m @ s = fmt_HEX k n @ t" and "m < 16 ^ k" and "n < 16 ^ k" and "0 < k"
  shows "m = n \<and> s = t"
proof -
  have "length (fmt_HEX k m) = length (fmt_HEX k n)" by (simp only: length_fmt_HEX assms(2-4))
  then have eq: "fmt_HEX k m = fmt_HEX k n" "s = t" using append_eq_append_conv assms(1) by blast+
  from arg_cong [OF eq(1), of hex_val] have "m = n" unfolding hex_val_fmt .
  with eq(2) show ?thesis by simp
qed

lemma drop_bit_ucast_u64: "bit (ucast (drop_bit k (a :: u64)) :: 'a::len word) n \<longleftrightarrow> n < LENGTH('a) \<and> bit a (k + n)"
  by (auto simp: bit_simps dest: bit_imp_le_length)

lemma u64_from_parts:
  fixes a a' :: u64
  assumes "ucast (drop_bit 32 a) = (ucast (drop_bit 32 a') :: u32)" and "ucast (drop_bit 16 a) = (ucast (drop_bit 16 a') :: u16)"
    and "ucast a = (ucast a' :: u16)"
  shows "a = a'"
proof (rule bit_word_eqI)
  fix k
  assume "k < LENGTH(64)"
  then have "k < 16 \<or> (\<exists>n < 16. k = 16 + n) \<or> (\<exists>n < 32. k = 32 + n)" by simp presburger
  moreover have "bit a (32 + n) = bit a' (32 + n)" if "n < 32" for n
    using arg_cong [OF assms(1), of "\<lambda>x. bit x n"] that by (simp add: drop_bit_ucast_u64)
  moreover have "bit a (16 + n) = bit a' (16 + n)" if "n < 16" for n
    using arg_cong [OF assms(2), of "\<lambda>x. bit x n"] that by (simp add: drop_bit_ucast_u64)
  moreover have "bit a n = bit a' n" if "n < 16" for n
    using arg_cong [OF assms(3), of "\<lambda>x. bit x n"] that by (simp add: bit_simps)
  ultimately show "bit a k = bit a' k" by blast
qed

lemma u64_from_halves:
  fixes b b' :: u64
  assumes "ucast (drop_bit 48 b) = (ucast (drop_bit 48 b') :: u16)" and "b AND mask 48 = b' AND mask 48"
  shows "b = b'"
proof (rule bit_word_eqI)
  fix k
  assume "k < LENGTH(64)"
  then have "k < 48 \<or> (\<exists>n < 16. k = 48 + n)" by simp presburger
  moreover have "bit b (48 + n) = bit b' (48 + n)" if "n < 16" for n
    using arg_cong [OF assms(1), of "\<lambda>x. bit x n"] that by (simp add: drop_bit_ucast_u64)
  moreover have "bit b n = bit b' n" if "n < 48" for n
    using arg_cong [OF assms(2), of "\<lambda>x. bit x n"] that by (simp add: bit_simps)
  ultimately show "bit b k = bit b' k" by blast
qed

lemma uuid_words:
  fixes a b a' b' :: u64
  assumes "fmt_HEX 8 (unat (ucast (drop_bit 32 a) :: u32)) @ ''-'' @ fmt_HEX 4 (unat (ucast (drop_bit 16 a) :: u16)) @ ''-'' @
      fmt_HEX 4 (unat (ucast a :: u16)) @ ''-'' @ fmt_HEX 4 (unat (ucast (drop_bit 48 b) :: u16)) @ ''-'' @
      fmt_HEX 12 (unat (b AND 0xffffffffffff)) =
    fmt_HEX 8 (unat (ucast (drop_bit 32 a') :: u32)) @ ''-'' @ fmt_HEX 4 (unat (ucast (drop_bit 16 a') :: u16)) @ ''-'' @
      fmt_HEX 4 (unat (ucast a' :: u16)) @ ''-'' @ fmt_HEX 4 (unat (ucast (drop_bit 48 b') :: u16)) @ ''-'' @
      fmt_HEX 12 (unat (b' AND 0xffffffffffff))"
  shows "a = a'" and "b = b'"
proof -
  have u16: "unat (w :: u16) < 16 ^ 4" and u32: "unat (v :: u32) < 16 ^ 8" for w v
    using unsigned_less [of w] unsigned_less [of v] by simp_all
  have m: "(0xffffffffffff :: u64) = mask 48" by (simp add: mask_eq_exp_minus_1)
  have u48: "unat (x AND 0xffffffffffff) < 16 ^ 12" for x :: u64
  proof -
    have "unat (x AND mask 48) = unat x mod 2 ^ 48" by (simp add: take_bit_eq_mask [symmetric] take_bit_eq_mod unat_mod_distrib)
    then show ?thesis unfolding m by simp
  qed
  from fmt_HEX_split [OF assms u32 u32] have 1: "unat (ucast (drop_bit 32 a) :: u32) = unat (ucast (drop_bit 32 a') :: u32)" by simp
  note r1 = fmt_HEX_split [OF assms u32 u32, simplified, THEN conjunct2]
  from fmt_HEX_split [OF r1 u16 u16] have 2: "unat (ucast (drop_bit 16 a) :: u16) = unat (ucast (drop_bit 16 a') :: u16)" by simp
  note r2 = fmt_HEX_split [OF r1 u16 u16, simplified, THEN conjunct2]
  from fmt_HEX_split [OF r2 u16 u16] have 3: "unat (ucast a :: u16) = unat (ucast a' :: u16)" by simp
  note r3 = fmt_HEX_split [OF r2 u16 u16, simplified, THEN conjunct2]
  from fmt_HEX_split [OF r3 u16 u16] have 4: "unat (ucast (drop_bit 48 b) :: u16) = unat (ucast (drop_bit 48 b') :: u16)" by simp
  note r4 = fmt_HEX_split [OF r3 u16 u16, simplified, THEN conjunct2]
  from fmt_HEX_split [of 12 _ "''''" _ "''''", OF _ u48 u48] r4 have 5: "b AND mask 48 = b' AND mask 48" unfolding m by (simp add: word_unat_eq_iff)
  have w: "ucast (drop_bit 32 a) = (ucast (drop_bit 32 a') :: u32)" "ucast (drop_bit 16 a) = (ucast (drop_bit 16 a') :: u16)"
    "ucast a = (ucast a' :: u16)" "ucast (drop_bit 48 b) = (ucast (drop_bit 48 b') :: u16)"
    using 1 2 3 4 by (simp_all only: word_unat_eq_iff)
  show "a = a'" by (rule u64_from_parts [OF w(1-3)])
  show "b = b'" by (rule u64_from_halves [OF w(4) 5])
qed

section \<open>Properties\<close>

text \<open>
  C39. Container names do not collide: two names made by one process are equal only if both the time stamp and the
  counter are, so launches that read the same clock value still get different directories until the
  counter has gone through all \<open>2 ^ 64\<close> values.
\<close>

theorem uuid_unique: "uuid_text nanos pid seq = uuid_text nanos' pid seq' \<longleftrightarrow> nanos = nanos' \<and> seq = seq'"
proof
  let ?K = "0x9e3779b97f4a7c15 :: u64"
  assume "uuid_text nanos pid seq = uuid_text nanos' pid seq'"
  then have a: "nanos XOR push_bit 32 (ucast pid) = nanos' XOR push_bit 32 (ucast pid)"
    and b: "word_rotl 17 nanos XOR seq * ?K = word_rotl 17 nanos' XOR seq' * ?K"
    unfolding uuid_text_def Let_def by (rule uuid_words)+
  have cancel: "x = y" if "z XOR x = z XOR y" for x y z :: u64
    using arg_cong [OF that, of "\<lambda>w. z XOR w"] by (simp add: xor.assoc [symmetric])
  have "x = y" if "x XOR z = y XOR z" for x y z :: u64
    using arg_cong [OF that, of "\<lambda>w. w XOR z"] by (simp add: xor.assoc)
  from this [OF a] have n: "nanos = nanos'" .
  from b have "seq * ?K = seq' * ?K" unfolding n by (rule cancel)
  from arg_cong [OF this, of "\<lambda>w. w * 0xf1de83e19937733d"]
  have eq: "seq * (?K * 0xf1de83e19937733d) = seq' * (?K * 0xf1de83e19937733d)" by (simp only: mult.assoc)
  have "?K * 0xf1de83e19937733d = 1" by simp
  from eq [unfolded this] have "seq = seq'" by simp
  with n show "nanos = nanos' \<and> seq = seq'" by simp
qed simp

section \<open>Container names are file names\<close>

lemma fmt_radix_chars: "c \<in> set (fmt_radix 16 n) \<Longrightarrow> c \<in> set ''0123456789abcdef''"
proof (induction n rule: less_induct)
  case (less n)
  have digit: "''0123456789abcdef'' ! d \<in> set ''0123456789abcdef''" if "d < 16" for d using that by (intro nth_mem) simp
  show ?case
  proof (cases "n < 16")
    case True
    then have "c = ''0123456789abcdef'' ! n" using less.prems by (simp add: fmt_radix.simps [of 16 n])
    then show ?thesis using digit [OF True] by (simp only:)
  next
    case False
    then have "fmt_radix 16 n = fmt_radix 16 (n div 16) @ [''0123456789abcdef'' ! (n mod 16)]"
      by (simp add: fmt_radix.simps [of 16 n])
    with less.prems consider "c \<in> set (fmt_radix 16 (n div 16))" | "c = ''0123456789abcdef'' ! (n mod 16)" by auto
    then show ?thesis
    proof cases
      case 1
      with False show ?thesis by (intro less.IH [of "n div 16"]) simp_all
    next
      case 2
      have "''0123456789abcdef'' ! (n mod 16) \<in> set ''0123456789abcdef''" by (rule digit) simp
      with 2 show ?thesis by (simp only:)
    qed
  qed
qed

lemma uuid_text_chars: "c \<in> set (uuid_text nanos pid seq) \<Longrightarrow> c \<noteq> CHR ''/'' \<and> c \<noteq> CHR ''.'' \<and> c \<noteq> CHR 0x00"
proof -
  have hex: "c \<noteq> CHR ''/'' \<and> c \<noteq> CHR ''.'' \<and> c \<noteq> CHR 0x00" if "c \<in> set (fmt_HEX k n)" for k n
  proof -
    from that consider "c = CHR ''0''" | d where "d \<in> set ''0123456789abcdef''" "c = ascii_upper d"
      using fmt_radix_chars by (auto simp: fmt_HEX_def Let_def split: if_splits)
    then show ?thesis by cases (auto simp: ascii_upper_def char_of_def bit_Suc_0_iff)
  qed
  assume "c \<in> set (uuid_text nanos pid seq)"
  then consider k n where "c \<in> set (fmt_HEX k n)" | "c = CHR ''-''" by (auto simp: uuid_text_def Let_def)
  then show ?thesis by cases (use hex in auto)
qed

lemma uuid_text_nonempty: "uuid_text nanos pid seq \<noteq> ''''"
  by (simp add: uuid_text_def Let_def)

end
