(* ===== verification/Session.thy ===== *)
theory Session
  imports Ipa_Confined Container_Id Machine Hle_Shims
begin

text \<open>
  Discovering and launching applications, \<open>crates/jni/src/session.rs\<close>: the composition of the archive reader, the
  sandbox, the loader, the library emulation and the run loop.  The archive library, the file system, the
  clock and the process id are parameters, and so is the executor, so that the definitions cover the
  device and the host build; the launch counter, a static of the source, is part of the state.
\<close>

section \<open>Records\<close>

record app_info =
  ai_name :: string
  ai_bundle_identifier :: string
  ai_minimum_os_version :: string
  ai_ipa_path :: string
  ai_icon_png :: "u8 list option"

record launch_outcome =
  lo_exit_code :: i32
  lo_message :: string

record 'w session =
  ss_world :: 'w
  ss_counter :: u64

definition in_world :: "('w, 'a, 'e) act \<Rightarrow> ('w session, 'a, 'e) act" where
  "in_world m s = (case m (ss_world s) of (w, r) \<Rightarrow> (s\<lparr>ss_world := w\<rparr>, r))"

section \<open>Scanning\<close>

definition app_info_of :: "ipa_bundle \<Rightarrow> app_info" where
  "app_info_of b =
     \<lparr>ai_name = am_name (ib_metadata b), ai_bundle_identifier = am_bundle_identifier (ib_metadata b),
      ai_minimum_os_version = am_minimum_os_version (ib_metadata b), ai_ipa_path = from_utf8_lossy (as_bytes (ib_ipa_path b)),
      ai_icon_png = am_icon_png (ib_metadata b)\<rparr>"

definition scan :: "(string \<Rightarrow> string) \<Rightarrow> ('w, 'f, 'z, 'e) ipa_host \<Rightarrow> string \<Rightarrow> ('w, app_info list, unit) act" where
  "scan to_lowercase h dir =
     act_match (scan_directory to_lowercase h dir)
       (\<lambda>bundles. act_return (map app_info_of bundles))
       (\<lambda>_. act_return [])"

section \<open>Launching\<close>

definition generate_uuid :: "('w, 'g) host \<Rightarrow> u32 \<Rightarrow> ('w session, string, 'e) act" where
  "generate_uuid sys pid s =
     (case h_now sys (ss_world s) of
        (w, now) \<Rightarrow>
          (let nanos = (case now of None \<Rightarrow> 0 | Some n \<Rightarrow> of_nat n)
           in (s\<lparr>ss_world := w, ss_counter := ss_counter s + 1\<rparr>, Ok (uuid_text nanos pid (ss_counter s)))))"

text \<open>Steps 1 to 3 of a launch, up to the bytes of the executable.\<close>

definition install_app ::
    "('w, 'f, 'z, 'e) ipa_host \<Rightarrow> ('w, 'g) host \<Rightarrow> u32 \<Rightarrow> (io_kind \<Rightarrow> string) \<Rightarrow> string \<Rightarrow> string \<Rightarrow> string \<Rightarrow>
     ('w session, sandbox \<times> u8 list, string) act" where
  "install_app h sys pid io_text ipa_path containers_root sys_root =
     act_then (act_map_err (emu_error_display io_text) (in_world (inspect_ipa h ipa_path))) (\<lambda>b.
     act_then (generate_uuid sys pid) (\<lambda>uuid.
     act_then (act_map_err (emu_error_display io_text)
                (in_world (\<lambda>w. prepare (ih_create_dir_all h) w containers_root sys_root (am_name (ib_metadata b)) uuid))) (\<lambda>sb.
     act_then (act_map_err (emu_error_display io_text)
                (in_world (extract_app h ipa_path (ib_bundle_dir b) (bundle_dir (layout sb))))) (\<lambda>_.
     let exe_host = path_join (bundle_dir (layout sb)) (am_executable (ib_metadata b))
     in act_then (act_map_err (\<lambda>e. ''read executable '' @ exe_host @ '': '' @ io_text e) (in_world (ih_read h exe_host))) (\<lambda>bytes.
        act_return (sb, bytes))))))"

text \<open>Step 4.  \<open>None\<close>: the guest runs forever.\<close>

definition run_app ::
    "('w, 'g) host \<Rightarrow> (string \<Rightarrow> 'w \<Rightarrow> 'w) \<Rightarrow> ('x \<Rightarrow> cpu_context \<Rightarrow> 'x \<times> cpu_context \<times> exec_event) \<Rightarrow> 'x \<Rightarrow> sandbox \<Rightarrow> u8 list \<Rightarrow>
     'w session \<Rightarrow> ('w session \<times> i32 emu_result) option" where
  "run_app sys nslog resume x sb bytes s =
     (case load config_default bytes sb objc_new (ss_world s) of
        Err e \<Rightarrow> Some (s, Err e)
      | Panic \<Rightarrow> Some (s, Panic)
      | Ok mc \<Rightarrow>
          (case start_environment (hle_environment nslog) mc of
             Ok mc \<Rightarrow>
               map_option (\<lambda>((_, mc), r). (s\<lparr>ss_world := mc_world mc\<rparr>, and_then r (\<lambda>e. Ok (exit_code e))))
                 (run sys (hle_environment nslog) resume (x, mc))
           | _ \<Rightarrow> Some (s, Panic)))"

definition launch_inner ::
    "('w, 'f, 'z, 'e) ipa_host \<Rightarrow> ('w, 'g) host \<Rightarrow> u32 \<Rightarrow> (io_kind \<Rightarrow> string) \<Rightarrow> (string \<Rightarrow> 'w \<Rightarrow> 'w) \<Rightarrow>
     ('x \<Rightarrow> cpu_context \<Rightarrow> 'x \<times> cpu_context \<times> exec_event) \<Rightarrow> 'x \<Rightarrow> string \<Rightarrow> string \<Rightarrow> string \<Rightarrow> 'w session \<Rightarrow>
     ('w session \<times> (i32, string) rust_result) option" where
  "launch_inner h sys pid io_text nslog resume x ipa_path containers_root sys_root s =
     (case install_app h sys pid io_text ipa_path containers_root sys_root s of
        (s, Ok (sb, bytes)) \<Rightarrow>
          map_option (\<lambda>(s, r). (s, map_err (emu_error_display io_text) r)) (run_app sys nslog resume x sb bytes s)
      | (s, Err msg) \<Rightarrow> Some (s, Err msg)
      | (s, Panic) \<Rightarrow> Some (s, Panic))"

definition launch ::
    "('w, 'f, 'z, 'e) ipa_host \<Rightarrow> ('w, 'g) host \<Rightarrow> u32 \<Rightarrow> (io_kind \<Rightarrow> string) \<Rightarrow> (string \<Rightarrow> 'w \<Rightarrow> 'w) \<Rightarrow>
     ('x \<Rightarrow> cpu_context \<Rightarrow> 'x \<times> cpu_context \<times> exec_event) \<Rightarrow> 'x \<Rightarrow> string \<Rightarrow> string \<Rightarrow> string \<Rightarrow> 'w session \<Rightarrow>
     ('w session \<times> (launch_outcome, unit) rust_result) option" where
  "launch h sys pid io_text nslog resume x ipa_path containers_root sys_root s =
     map_option (\<lambda>(s, r). (s, case r of
         Ok code \<Rightarrow> Ok \<lparr>lo_exit_code = code, lo_message = ''exited''\<rparr>
       | Err msg \<Rightarrow> Ok \<lparr>lo_exit_code = - 1, lo_message = msg\<rparr>
       | Panic \<Rightarrow> Panic))
       (launch_inner h sys pid io_text nslog resume x ipa_path containers_root sys_root s)"

end
