(* ===== verification/Launch.thy ===== *)
theory Launch
  imports Session Cpu
begin

text \<open>
  Properties of a launch as a whole: installing an application only touches the container directory, and on the
  host build a launch always returns with a failure, since there is no processor to run the guest.
\<close>

section \<open>Below a container directory\<close>

lemma safe_rel_clean: "clean_comp c \<Longrightarrow> safe_rel c"
  by (auto simp: clean_comp_def safe_rel_def split_char_no_sep prefix_def)

lemma safe_rel_join:
  assumes "clean_comp c" and "safe_rel rel"
  shows "safe_rel (c @ ''/'' @ rel)"
proof -
  have "split_char (CHR ''/'') (c @ CHR ''/'' # rel) = c # split_char (CHR ''/'') rel"
    using assms(1) by (simp add: split_char_append_sep split_char_no_sep clean_comp_def)
  then show ?thesis using assms by (cases c) (auto simp: safe_rel_def clean_comp_def)
qed

lemma under_child: "dir_path d \<Longrightarrow> clean_comp c \<Longrightarrow> under d (path_join d c)"
  using safe_rel_clean by (auto simp: under_def)

lemma under_trans:
  assumes "dir_path d" and "clean_comp c" and "under (path_join d c) p"
  shows "under d p"
proof -
  obtain rel where rel: "safe_rel rel" "p = path_join (path_join d c) rel" using assms(3) by (auto simp: under_def)
  have sub: "path_join d c = d @ ''/'' @ c" by (rule path_join_clean [OF assms(1,2)])
  have "p = d @ ''/'' @ (c @ ''/'' @ rel)"
    using rel path_join_rel [OF dir_path_clean [OF assms(2)], of rel d] sub by (simp add: safe_rel_def)
  moreover have "safe_rel (c @ ''/'' @ rel)" by (rule safe_rel_join [OF assms(2) rel(1)])
  ultimately show ?thesis using path_join_rel [OF assms(1), of "c @ ''/'' @ rel"] by (auto simp: under_def safe_rel_def)
qed

lemma named_dir_join: "dir_path d \<Longrightarrow> clean_comp c \<Longrightarrow> named_dir (path_join d c)"
  by (auto simp: named_dir_def path_join_clean split_char_append_sep split_char_no_sep clean_comp_def)

lemma path_parent_join:
  assumes "named_dir d" and "clean_comp c"
  shows "path_parent (path_join d c) = Some d"
proof -
  obtain e ds where d: "split_char (CHR ''/'') d = e # ds" by (cases "split_char (CHR ''/'') d") simp_all
  have "split_char (CHR ''/'') (path_join d c) = e # ds @ [c]"
    using assms named_dir_path [OF assms(1)] d by (simp add: path_join_clean split_char_append_sep split_char_no_sep clean_comp_def)
  moreover have "strip_blank (ds @ [c]) = ds @ [c]" using assms(2) by (intro strip_blank_id) (simp add: clean_comp_def)
  moreover have "strip_blank ds = ds" "e # ds \<noteq> ['''']" using assms(1) d by (auto simp: named_dir_def intro!: strip_blank_id)
  moreover have "join_pieces (e # ds) = d" using join_split [of d] d by simp
  ultimately show ?thesis by (auto simp add: path_parent_def Let_def simp del: join_pieces.simps)
qed

lemma uuid_clean: "clean_comp (uuid_text nanos pid seq)"
proof -
  let ?u = "uuid_text nanos pid seq"
  have "CHR ''/'' \<notin> set ?u" "CHR ''.'' \<notin> set ?u" "CHR 0x00 \<notin> set ?u" using uuid_text_chars by blast+
  moreover from this have "?u \<noteq> ''.''" "?u \<noteq> ''..''" by force+
  ultimately show ?thesis using uuid_text_nonempty by (simp add: clean_comp_def)
qed

section \<open>Installing\<close>

text \<open>
  An invariant of the host that reading keeps, and that creating and writing below a directory keeps.
\<close>

definition container_guards :: "('w, 'f, 'z, 'e) ipa_host \<Rightarrow> ('w, 'g) host \<Rightarrow> string \<Rightarrow> ('w \<Rightarrow> bool) \<Rightarrow> bool" where
  "container_guards h sys root P \<longleftrightarrow>
     (\<forall>p. keeps P (ih_open h p)) \<and> (\<forall>f. keeps P (ih_zip_new h f)) \<and> (\<forall>z i. keeps P (ih_by_index h z i)) \<and>
     (\<forall>z n. keeps P (ih_by_name h z n)) \<and> (\<forall>e. keeps P (ih_read_to_end h e)) \<and> (\<forall>p. keeps P (ih_read h p)) \<and>
     (\<forall>w. P w \<longrightarrow> P (fst (h_now sys w))) \<and>
     (\<forall>p. under root p \<longrightarrow> keeps P (\<lambda>w. ih_create_dir_all h w p)) \<and>
     (\<forall>p bytes. under root p \<longrightarrow> keeps P (ih_write h p bytes))"

lemma container_guardsD:
  assumes "container_guards h sys root P"
  shows "keeps P (ih_open h p)" "keeps P (ih_zip_new h f)" "keeps P (ih_by_index h z i)" "keeps P (ih_by_name h z n)"
    "keeps P (ih_read_to_end h e)" "keeps P (ih_read h p)" "P w \<Longrightarrow> P (fst (h_now sys w))"
    "under root p \<Longrightarrow> keeps P (\<lambda>w. ih_create_dir_all h w p)" "under root p \<Longrightarrow> keeps P (ih_write h p bytes)"
  using assms by (simp_all add: container_guards_def)

lemma entry_reads_keep:
  assumes "container_guards h sys root P"
  shows "keeps P (open_archive h p)" "keeps P (entry_bytes h e)" "keeps P (read_entry h z n)" "keeps P (probe_icon h z d cs)"
proof -
  show "keeps P (open_archive h p)"
    unfolding open_archive_def by (intro keeps_then keeps_map_err container_guardsD [OF assms])
  show bytes: "keeps P (entry_bytes h e)" for e
    unfolding entry_bytes_def by (intro keeps_rules container_guardsD [OF assms])
  show entry: "keeps P (read_entry h z n)" for n
    unfolding read_entry_def
    by (intro keeps_match keeps_then bytes container_guardsD [OF assms]) (auto intro: keeps_rules split: zip_error.splits)
  show "keeps P (probe_icon h z d cs)"
  proof (induction cs)
    case (Cons c cs)
    then show ?case unfolding probe_icon.simps by (intro keeps_match entry keeps_case_option keeps_basic)
  qed (simp only: probe_icon.simps keeps_basic)
qed

lemma inspect_keeps:
  assumes "container_guards h sys root P"
  shows "keeps P (inspect_ipa h p)"
  unfolding inspect_ipa_def Let_def
  by (intro keeps_then keeps_basic keeps_case_option entry_reads_keep [OF assms])

lemma create_dirs_keeps:
  assumes "\<And>d. d \<in> set ds \<Longrightarrow> keeps P (\<lambda>w. mk w d)"
  shows "keeps P (\<lambda>w. create_dirs mk w ds)"
  using assms
proof (induction ds)
  case (Cons d ds)
  have rest: "P w \<Longrightarrow> P (fst (create_dirs mk w ds))" for w using Cons.IH Cons.prems by (simp add: keeps_def)
  show ?case
  proof (rule keepsI)
    fix w
    assume "P w"
    obtain w' r where run: "mk w d = (w', r)" by (cases "mk w d")
    have "P w'" using keepsD [OF Cons.prems [of d] \<open>P w\<close>] run by simp
    with run rest show "P (fst (create_dirs mk w (d # ds)))" by (cases r) simp_all
  qed
qed (simp add: keeps_def)

text \<open>The directories of a container: the container itself and the bundle in it.\<close>

definition container_root :: "string \<Rightarrow> string \<Rightarrow> string" where
  "container_root containers uuid = path_join (path_join containers ''Applications'') uuid"

lemma container_dirs:
  assumes "dir_path containers" and "clean_comp uuid" and "clean_comp c"
  shows "under (path_join containers ''Applications'') (path_join (container_root containers uuid) c)"
    and "named_dir (container_root containers uuid)" and "dir_path (path_join containers ''Applications'')"
proof -
  have apps: "clean_comp ''Applications''" by (simp add: clean_comp_def)
  show dir: "dir_path (path_join containers ''Applications'')"
    using dir_path_clean [OF apps] path_join_clean [OF assms(1) apps] by simp
  show named: "named_dir (container_root containers uuid)" unfolding container_root_def by (rule named_dir_join [OF dir assms(2)])
  show "under (path_join containers ''Applications'') (path_join (container_root containers uuid) c)"
    using under_trans [OF dir assms(2)] under_child [OF _ assms(3)] named_dir_path [OF named] by (simp add: container_root_def)
qed

lemma prepare_keeps:
  assumes "container_guards h sys (path_join containers ''Applications'') P" and "dir_path containers" and "clean_comp uuid"
  shows "keeps P (\<lambda>w. prepare (ih_create_dir_all h) w containers sys_root name uuid)"
proof -
  let ?root = "container_root containers uuid" and ?A = "path_join containers ''Applications''"
  have lib: "under ?A (path_join (path_join ?root ''Library'') c)" if "clean_comp c" for c
  proof -
    have L: "clean_comp ''Library''" by (simp add: clean_comp_def)
    note root = container_dirs(2) [OF assms(2,3) L]
    have "under ?root (path_join (path_join ?root ''Library'') c)"
      using under_trans [OF named_dir_path [OF root] L] under_child [OF _ that] named_dir_path [OF named_dir_join [OF named_dir_path [OF root] L]]
      by simp
    then show ?thesis
      using under_trans [OF container_dirs(3) [OF assms(2,3) L] assms(3)] by (simp add: container_root_def)
  qed
  have comps: "clean_comp (sanitize_component name @ ''.app'')" "clean_comp ''Documents''" "clean_comp ''Caches''" "clean_comp ''Preferences''"
    "clean_comp ''tmp''"
    using sanitize_component_clean by (simp_all add: clean_comp_def)
  let ?lay = "prepare_layout ?root name"
  let ?dirs = "[bundle_dir ?lay, documents ?lay, caches ?lay, preferences ?lay, tmp_dir ?lay]"
  have "keeps P (\<lambda>w. ih_create_dir_all h w d)"
    if "d \<in> set ?dirs" for d
  proof -
    have "under ?A d"
      using that container_dirs(1) [OF assms(2,3)] lib comps by (auto simp: prepare_layout_def Let_def)
    then show ?thesis by (rule container_guardsD(8) [OF assms(1)])
  qed
  then have dirs: "keeps P (\<lambda>w. create_dirs (ih_create_dir_all h) w ?dirs)" by (rule create_dirs_keeps)
  have "fst (prepare (ih_create_dir_all h) w containers sys_root name uuid) = fst (create_dirs (ih_create_dir_all h) w ?dirs)" for w
    by (simp only: prepare_def container_root_def Let_def case_prod_beta fst_conv)
  with dirs show ?thesis by (simp add: keeps_def)
qed

lemma in_world_keeps: "keeps P m \<Longrightarrow> keeps (\<lambda>s. P (ss_world s)) (in_world m)"
  by (auto simp: keeps_def in_world_def split: prod.splits)

lemma in_world_map_keeps: "keeps P m \<Longrightarrow> keeps (\<lambda>s. P (ss_world s)) (act_map_err f (in_world m))"
  by (intro keeps_map_err in_world_keeps)

lemma in_world_map_Ok: "act_map_err f (in_world m) s = (s', Ok x) \<Longrightarrow> \<exists>w w'. m w = (w', Ok x)"
  by (auto simp: act_map_err_def in_world_def map_err_eq_Ok split: prod.splits)

lemma generate_uuid_keeps:
  assumes "container_guards h sys root P"
  shows "keeps (\<lambda>s. P (ss_world s)) (generate_uuid sys pid)"
proof (rule keepsI)
  fix s :: "'a session"
  assume "P (ss_world s)"
  from container_guardsD(7) [OF assms this] show "P (ss_world (fst (generate_uuid sys pid s)))"
    by (auto simp: generate_uuid_def Let_def split: prod.splits)
qed

lemma generate_uuid_clean: "generate_uuid sys pid s = (s', Ok u) \<Longrightarrow> clean_comp u"
  using uuid_clean by (auto simp: generate_uuid_def Let_def split: prod.splits)

lemma prepare_layout_of:
  "prepare mk w containers sys_root name uuid = (w', Ok sb) \<Longrightarrow> layout sb = prepare_layout (container_root containers uuid) name"
  by (auto simp: prepare_def container_root_def Let_def result_simps split: prod.splits)

lemma bundle_guards:
  assumes "container_guards h sys (path_join containers ''Applications'') P" and "dir_path containers" and "clean_comp uuid"
    and "dest = bundle_dir (prepare_layout (container_root containers uuid) name)"
  shows "guards h dest P" and "named_dir dest"
proof -
  let ?A = "path_join containers ''Applications''" and ?root = "container_root containers uuid" and ?b = "sanitize_component name @ ''.app''"
  have b: "clean_comp ?b" by (rule sanitize_component_clean)
  have dest: "dest = path_join ?root ?b" by (simp add: assms(4) prepare_layout_def Let_def)
  note dirs = container_dirs [OF assms(2,3) b]
  show "named_dir dest" unfolding dest by (rule named_dir_join [OF named_dir_path [OF dirs(2)] b])
  have parent: "path_parent dest = Some ?root" unfolding dest by (rule path_parent_join [OF dirs(2) b])
  have root: "under ?A ?root" unfolding container_root_def by (rule under_child [OF dirs(3) assms(3)])
  have below: "under ?A p" if "under dest p" for p
    using under_trans [OF named_dir_path [OF dirs(2)] b] that under_trans [OF dirs(3) assms(3)]
    unfolding dest by (simp add: container_root_def)
  have "under ?A p" if "under dest p \<or> p = dest \<or> path_parent dest = Some p" for p
    using that below root dirs(1) parent dest by auto
  note mk = container_guardsD(8) [OF assms(1) this] and wr = container_guardsD(9) [OF assms(1) below]
  show "guards h dest P"
    unfolding guards_def by (intro conjI allI impI container_guardsD(1-3,5) [OF assms(1)] mk wr)
qed

lemma install_keeps:
  assumes "container_guards h sys (path_join containers ''Applications'') P" and "dir_path containers"
  shows "keeps (\<lambda>s. P (ss_world s)) (install_app h sys pid io_text ipa containers sys_root)"
  unfolding install_app_def Let_def
proof (intro keeps_then_when, goal_cases)
  case 1
  show ?case by (intro in_world_map_keeps inspect_keeps [OF assms(1)])
next
  case (2 s s' b)
  show ?case by (rule generate_uuid_keeps [OF assms(1)])
next
  case (3 s s' b t t' uuid)
  then show ?case by (intro in_world_map_keeps prepare_keeps [OF assms] generate_uuid_clean)
next
  case (4 s s' b t t' uuid u u' sb)
  have "layout sb = prepare_layout (container_root containers uuid) (am_name (ib_metadata b))"
    using in_world_map_Ok [OF 4(3)] by (elim exE) (rule prepare_layout_of)
  then have "bundle_dir (layout sb) = bundle_dir (prepare_layout (container_root containers uuid) (am_name (ib_metadata b)))" by simp
  from bundle_guards [OF assms generate_uuid_clean [OF 4(2)] this] show ?case by (intro in_world_map_keeps extract_app_keeps)
next
  case 5
  show ?case by (intro in_world_map_keeps container_guardsD(6) [OF assms(1)])
qed (simp add: keeps_basic)

section \<open>Properties\<close>

text \<open>
  C11. Installing an application stays in its container: up to the point where the guest starts, a launch creates and
  writes host paths below \<open>Applications\<close> in the container directory only, whatever the archive, its
  property list (the application name becomes a directory name) and the outcome of the host's calls.
\<close>

theorem install_confined:
  assumes "container_guards h sys (path_join containers ''Applications'') P" and "dir_path containers" and "P (ss_world s)"
  shows "P (ss_world (fst (install_app h sys pid io_text ipa containers sys_root s)))"
  using install_keeps [OF assms(1,2)] assms(3) by (simp add: keeps_def)

definition quiet_system :: "('w, nat) host" where
  "quiet_system =
     \<lparr>h_open = (\<lambda>p how w. (w, Err NotFound)), h_read = (\<lambda>f n w. (w, Ok [])), h_write_all = (\<lambda>f d w. (w, Ok ())),
      h_seek = (\<lambda>f s w. (w, Ok 0)), h_close = (\<lambda>f w. w), h_exists = (\<lambda>p w. False), h_now = (\<lambda>w. (w, Some 7)),
      h_log = (\<lambda>s w. w)\<rparr>"

theorem install_confined_witness:
  "let files = [(''Payload/D.app/Info.plist'', as_bytes ''<plist><dict><key>CFBundleName</key><string>../x</string></dict>''),
                (''Payload/D.app/../../y'', [1])]
   in list_all (under ''/c/Applications'') (ss_world (fst (install_app (listed_host files) quiet_system 1 (\<lambda>_. ''io'')
        ''d.ipa'' ''/c'' ''/s'' \<lparr>ss_world = [], ss_counter = 0\<rparr>)))"
proof -
  have "container_guards (listed_host files) (quiet_system :: (string list, nat) host) (path_join ''/c'' ''Applications'')
      (list_all (under (path_join ''/c'' ''Applications'')))" for files
    unfolding container_guards_def listed_host_def quiet_system_def by (auto simp: keeps_def split: option.splits)
  from install_confined [OF this, of "\<lparr>ss_world = [], ss_counter = 0\<rparr>"] show ?thesis
    by (simp add: Let_def dir_path_def path_join_def)
qed

text \<open>
  C40. Without a device a launch reports a failure: on the host build, whatever the archive and the host do, a launch
  returns (it does not run forever), and unless the process panics its outcome is the exit code \<open>- 1\<close> with
  a message.
\<close>

theorem launch_host_fails:
  "\<exists>s' r. launch h sys pid io_text nslog native_resume_host () ipa containers sys_root s = Some (s', r) \<and>
     (r = Panic \<or> (\<exists>msg. r = Ok \<lparr>lo_exit_code = - 1, lo_message = msg\<rparr>))"
proof -
  have fault: "run sys' E native_resume_host ((), mc) = Some (((), mc), Err (Memory (cpu_pc_addr (mc_cpu mc)) ''native executor unavailable on host''))"
    for sys' :: "('w, 'g) host" and E :: "('w, objc_runtime) host_environment" and mc
    by (subst run.simps) (simp add: run_turn_def native_resume_host_def)
  have app: "\<exists>s' r. run_app sys nslog native_resume_host () sb bytes s = Some (s', r) \<and> \<not> is_ok r" for sb bytes s
    by (auto simp: run_app_def fault split: rust_result.splits)
  obtain s' r where inst: "install_app h sys pid io_text ipa containers sys_root s = (s', r)" by (cases "install_app h sys pid io_text ipa containers sys_root s")
  show ?thesis
  proof (cases r)
    case (Ok sbb)
    obtain sb bytes where sbb: "sbb = (sb, bytes)" by (cases sbb)
    obtain s'' r' where "run_app sys nslog native_resume_host () sb bytes s' = Some (s'', r')" "\<not> is_ok r'" using app by blast
    then show ?thesis using inst Ok sbb by (cases r') (simp_all add: launch_def launch_inner_def)
  qed (use inst in \<open>simp_all add: launch_def launch_inner_def\<close>)
qed

end
