(* ===== verification/Jni.thy ===== *)
theory Jni
  imports Session
begin

text \<open>
  The bridge to the Android user interface, \<open>crates/jni/src/lib.rs\<close>: the text of the application list, the three entry
  points as functions of the Java environment, and that the text reads back as the list.
\<close>

section \<open>The application list as text\<close>

text \<open>
  \<open>json_escape\<close> goes over the characters of a string; a string here is its UTF-8 bytes.  Every character the match
  singles out is one byte, and the bytes of all others are copied.
\<close>

definition json_escape_char :: "char \<Rightarrow> string" where
  \<open>json_escape_char c =
     (if c = CHR 0x22 then [CHR 0x5C, CHR 0x22]
      else if c = CHR 0x5C then [CHR 0x5C, CHR 0x5C]
      else if c = CHR 0x0A then CHR 0x5C # ''n''
      else if c = CHR 0x0D then CHR 0x5C # ''r''
      else if c = CHR 0x09 then CHR 0x5C # ''t''
      else if of_char c < (0x20 :: nat)
      then (let digits = fmt_radix 16 (of_char c) in CHR 0x5C # ''u'' @ replicate (4 - length digits) (CHR ''0'') @ digits)
      else [c])\<close>

definition json_escape :: "string \<Rightarrow> string" where
  "json_escape s = concat (map json_escape_char s)"

definition app_to_json :: "app_info \<Rightarrow> string" where
  \<open>app_to_json a =
     ''{"name":"'' @ json_escape (ai_name a) @ ''","bundleId":"'' @ json_escape (ai_bundle_identifier a) @
     ''","minOs":"'' @ json_escape (ai_minimum_os_version a) @ ''","ipaPath":"'' @ json_escape (ai_ipa_path a) @
     ''","hasIcon":'' @ (if ai_icon_png a \<noteq> None then ''true'' else ''false'') @ ''}''\<close>

text \<open>The loop; the argument is whether the element is the first.\<close>

fun push_apps :: "bool \<Rightarrow> app_info list \<Rightarrow> string" where
  "push_apps first [] = ''''"
| "push_apps first (a # as) = (if first then '''' else '','') @ app_to_json a @ push_apps False as"

definition apps_to_json :: "app_info list \<Rightarrow> string" where
  "apps_to_json apps = ''['' @ push_apps True apps @ '']''"

section \<open>The entry points\<close>

text \<open>
  The Java environment as the calls the entry points make: reading a string object, making one and making a byte
  array, each of which can fail; \<open>None\<close> stands for the null reference the caller then gets.
\<close>

record 'j jni_env =
  je_get_string :: "'j \<Rightarrow> string option"
  je_new_string :: "string \<Rightarrow> 'j option"
  je_byte_array :: "u8 list \<Rightarrow> 'j option"

definition jstring_to_string :: "'j jni_env \<Rightarrow> 'j \<Rightarrow> string" where
  "jstring_to_string env s = (case je_get_string env s of None \<Rightarrow> '''' | Some t \<Rightarrow> t)"

definition native_scan ::
    "(string \<Rightarrow> string) \<Rightarrow> ('w, 'f, 'z, 'e) ipa_host \<Rightarrow> 'j jni_env \<Rightarrow> 'j \<Rightarrow> ('w, 'j option, unit) act" where
  "native_scan to_lowercase h env directory =
     act_then (scan to_lowercase h (jstring_to_string env directory)) (\<lambda>apps.
     act_return (je_new_string env (apps_to_json apps)))"

definition native_icon :: "('w, 'f, 'z, 'e) ipa_host \<Rightarrow> 'j jni_env \<Rightarrow> 'j \<Rightarrow> ('w, 'j option, unit) act" where
  "native_icon h env ipa_path =
     act_then
       (act_match (inspect_ipa h (jstring_to_string env ipa_path))
          (\<lambda>b. act_return (case am_icon_png (ib_metadata b) of None \<Rightarrow> [] | Some bytes \<Rightarrow> bytes))
          (\<lambda>_. act_return [])) (\<lambda>bytes.
     act_return (je_byte_array env bytes))"

text \<open>\<open>launch_app\<close> is \<open>session::launch\<close> of the build the entry point is part of.\<close>

definition native_launch ::
    "(string \<Rightarrow> string \<Rightarrow> string \<Rightarrow> 's \<Rightarrow> ('s \<times> (launch_outcome, unit) rust_result) option) \<Rightarrow> 'j jni_env \<Rightarrow> 'j \<Rightarrow> 'j \<Rightarrow> 'j \<Rightarrow>
     's \<Rightarrow> ('s \<times> (i32, unit) rust_result) option" where
  "native_launch launch_app env ipa_path containers_root sys_root s =
     map_option (\<lambda>(s, r). (s, and_then r (\<lambda>outcome. Ok (lo_exit_code outcome))))
       (launch_app (jstring_to_string env ipa_path) (jstring_to_string env containers_root)
          (jstring_to_string env sys_root) s)"

section \<open>A reference reader\<close>

text \<open>
  The reader of RFC 8259 for texts of objects, arrays, strings and Booleans without blanks between the tokens.  A raw
  control character in a string is an error, as is an escape of a surrogate, which this reader does not
  pair.  The first argument bounds the nesting and the number of elements; the length of the text is
  enough.
\<close>

datatype json = JString string | JBool bool | JArray "json list" | JObject "(string \<times> json) list"

definition json_hex :: "char \<Rightarrow> nat option" where
  "json_hex c =
     (let n = of_char c
      in if 48 \<le> n \<and> n \<le> 57 then Some (n - 48)
         else if 97 \<le> n \<and> n \<le> 102 then Some (n - 87)
         else if 65 \<le> n \<and> n \<le> 70 then Some (n - 55) else None)"

definition json_unit :: "char \<Rightarrow> char \<Rightarrow> char \<Rightarrow> char \<Rightarrow> string option" where
  "json_unit a b c d =
     (case (json_hex a, json_hex b, json_hex c, json_hex d) of
        (Some a, Some b, Some c, Some d) \<Rightarrow>
          (let u = ((a * 16 + b) * 16 + c) * 16 + d
           in if 0xD800 \<le> u \<and> u \<le> 0xDFFF then None else Some (map byte_char (encode_utf8 u)))
      | _ \<Rightarrow> None)"

definition json_simple_escape :: "char \<Rightarrow> char option" where
  \<open>json_simple_escape e =
     map_of [(CHR 0x22, CHR 0x22), (CHR 0x5C, CHR 0x5C), (CHR ''/'', CHR ''/''), (CHR ''b'', CHR 0x08), (CHR ''f'', CHR 0x0C),
             (CHR ''n'', CHR 0x0A), (CHR ''r'', CHR 0x0D), (CHR ''t'', CHR 0x09)] e\<close>

fun json_chars :: "string \<Rightarrow> (string \<times> string) option" where
  "json_chars [] = None"
| "json_chars (c # s) =
     (if c = CHR 0x22 then Some ([], s)
      else if c = CHR 0x5C then
        (case s of
           [] \<Rightarrow> None
         | e # s1 \<Rightarrow>
             if e = CHR ''u'' then
               (case s1 of
                  h1 # h2 # h3 # h4 # s2 \<Rightarrow>
                    (case json_unit h1 h2 h3 h4 of
                       None \<Rightarrow> None
                     | Some u \<Rightarrow> map_option (map_prod ((@) u) id) (json_chars s2))
                | _ \<Rightarrow> None)
             else
               (case json_simple_escape e of
                  None \<Rightarrow> None
                | Some x \<Rightarrow> map_option (map_prod (Cons x) id) (json_chars s1)))
      else if of_char c < (0x20 :: nat) then None
      else map_option (map_prod (Cons c) id) (json_chars s))"

declare json_chars.simps(2) [simp del]

fun json_value :: "nat \<Rightarrow> string \<Rightarrow> (json \<times> string) option"
  and json_elems :: "nat \<Rightarrow> string \<Rightarrow> (json list \<times> string) option"
  and json_members :: "nat \<Rightarrow> string \<Rightarrow> ((string \<times> json) list \<times> string) option" where
  "json_value 0 s = None"
| "json_value (Suc n) s =
     (case s of
        [] \<Rightarrow> None
      | c # r \<Rightarrow>
          if c = CHR 0x22 then map_option (map_prod JString id) (json_chars r)
          else if c = CHR ''['' then
            (if prefix '']'' r then Some (JArray [], tl r) else map_option (map_prod JArray id) (json_elems n r))
          else if c = CHR ''{'' then
            (if prefix ''}'' r then Some (JObject [], tl r) else map_option (map_prod JObject id) (json_members n r))
          else if prefix ''true'' s then Some (JBool True, drop 4 s)
          else if prefix ''false'' s then Some (JBool False, drop 5 s)
          else None)"
| "json_elems 0 s = None"
| "json_elems (Suc n) s =
     (case json_value n s of
        Some (v, c # r) \<Rightarrow>
          if c = CHR '','' then map_option (map_prod (Cons v) id) (json_elems n r)
          else if c = CHR '']'' then Some ([v], r)
          else None
      | _ \<Rightarrow> None)"
| "json_members 0 s = None"
| "json_members (Suc n) s =
     (case s of
        [] \<Rightarrow> None
      | q # s1 \<Rightarrow>
          if q \<noteq> CHR 0x22 then None
          else
            (case json_chars s1 of
               Some (k, colon # s2) \<Rightarrow>
                 if colon \<noteq> CHR '':'' then None
                 else
                   (case json_value n s2 of
                      Some (v, c # r) \<Rightarrow>
                        if c = CHR '','' then map_option (map_prod (Cons (k, v)) id) (json_members n r)
                        else if c = CHR ''}'' then Some ([(k, v)], r)
                        else None
                    | _ \<Rightarrow> None)
             | _ \<Rightarrow> None))"

definition json_parse :: "string \<Rightarrow> json option" where
  "json_parse s = (case json_value (length s) s of Some (v, []) \<Rightarrow> Some v | _ \<Rightarrow> None)"

definition app_json :: "app_info \<Rightarrow> json" where
  "app_json a = JObject
     [(''name'', JString (ai_name a)), (''bundleId'', JString (ai_bundle_identifier a)),
      (''minOs'', JString (ai_minimum_os_version a)), (''ipaPath'', JString (ai_ipa_path a)),
      (''hasIcon'', JBool (ai_icon_png a \<noteq> None))]"

section \<open>Reading back what was written\<close>

lemma json_unit_control:
  assumes "n < 32"
  shows "\<exists>h1 h2 h3 h4. replicate (4 - length (fmt_radix 16 n)) (CHR ''0'') @ fmt_radix 16 n = [h1, h2, h3, h4] \<and>
           json_unit h1 h2 h3 h4 = Some [char_of n]"
proof -
  have digit: "json_hex (''0123456789abcdef'' ! d) = Some d" if "d < 16" for d
  proof -
    have "d = 0 \<or> d = 1 \<or> d = 2 \<or> d = 3 \<or> d = 4 \<or> d = 5 \<or> d = 6 \<or> d = 7 \<or> d = 8 \<or> d = 9 \<or> d = 10 \<or>
      d = 11 \<or> d = 12 \<or> d = 13 \<or> d = 14 \<or> d = 15" using that by presburger
    then show ?thesis by (elim disjE) (simp_all add: json_hex_def)
  qed
  have byte: "byte_char (of_nat n) = char_of n" using assms by (simp add: byte_char_def unat_of_nat)
  have zero: "json_hex (CHR ''0'') = Some 0" and one: "json_hex (CHR ''1'') = Some 1" by (simp_all add: json_hex_def)
  show ?thesis
  proof (cases "n < 16")
    case True
    then show ?thesis using digit [OF True] byte zero by (simp add: fmt_radix.simps [of 16 n] json_unit_def encode_utf8_def numeral_3_eq_3)
  next
    case False
    then obtain m where m: "n = 16 + m" "m < 16" using assms by (metis add_diff_inverse_nat less_diff_conv2 linorder_not_less numeral_Bit0)
    then have "(16 + m) div 16 = 1" by presburger
    with m have radix: "fmt_radix 16 n = [CHR ''1'', ''0123456789abcdef'' ! m]"
      by (simp add: fmt_radix.simps [of 16 "16 + m"] fmt_radix.simps [of 16 "Suc 0"])
    have "json_unit (CHR ''0'') (CHR ''0'') (CHR ''1'') (''0123456789abcdef'' ! m) = Some [char_of n]"
      using byte m digit [OF m(2)] zero one by (simp add: json_unit_def encode_utf8_def del: nth_Cons_numeral)
    then show ?thesis unfolding radix by (simp add: numeral_2_eq_2)
  qed
qed

lemma json_chars_escape_char: "json_chars (json_escape_char c @ s) = map_option (map_prod (Cons c) id) (json_chars s)"
proof (cases "of_char c < (32 :: nat) \<and> c \<noteq> CHR 0x0A \<and> c \<noteq> CHR 0x0D \<and> c \<noteq> CHR 0x09")
  case True
  let ?d = "fmt_radix 16 (of_char c)"
  from True json_unit_control [of "of_char c"] obtain h1 h2 h3 h4
    where digits: "replicate (4 - length ?d) (CHR ''0'') @ ?d = [h1, h2, h3, h4]" and u: "json_unit h1 h2 h3 h4 = Some [c]" by auto
  have "json_escape_char c = CHR 0x5C # CHR ''u'' # [h1, h2, h3, h4]"
    using True digits by (auto simp: json_escape_char_def Let_def)
  moreover have "(@) [c] = Cons c" by (rule ext) simp
  ultimately show ?thesis using u by (simp add: json_chars.simps(2))
next
  case False
  then show ?thesis by (auto simp: json_escape_char_def json_chars.simps(2) json_simple_escape_def)
qed

lemma json_chars_escape [simp]: "json_chars (json_escape s @ CHR 0x22 # r) = Some (s, r)"
  by (induction s) (simp_all add: json_escape_def json_chars_escape_char json_chars.simps(2))

lemma json_chars_plain [simp]:
  "c \<noteq> CHR 0x22 \<Longrightarrow> c \<noteq> CHR 0x5C \<Longrightarrow> 32 \<le> (of_char c :: nat) \<Longrightarrow> json_chars (c # s) = map_option (map_prod (Cons c) id) (json_chars s)"
  "json_chars (CHR 0x22 # s) = Some ([], s)"
  by (simp_all add: json_chars.simps(2))

lemma json_value_string [simp]: "json_value (Suc n) (CHR 0x22 # json_escape s @ CHR 0x22 # r) = Some (JString s, r)"
  by simp

lemma json_value_app:
  assumes "7 \<le> m"
  shows "json_value m (app_to_json a @ r) = Some (app_json a, r)"
proof -
  from le_Suc_ex [OF assms] obtain n where "m = 7 + n" ..
  then have "m = Suc (Suc (Suc (Suc (Suc (Suc (Suc n))))))" by simp
  then show ?thesis by (simp add: app_to_json_def app_json_def)
qed

lemma json_elems_apps:
  "length as + 8 \<le> m \<Longrightarrow>
   json_elems m (app_to_json a @ push_apps False as @ CHR '']'' # r) = Some (map app_json (a # as), r)"
proof (induction as arbitrary: a m)
  case Nil
  then obtain n where "m = Suc n" "7 \<le> n" by (cases m) simp_all
  then show ?case by (simp add: json_value_app)
next
  case (Cons b bs)
  then obtain n where "m = Suc n" "length bs + 8 \<le> n" by (cases m) simp_all
  with Cons.IH [of n b] show ?case by (simp add: json_value_app)
qed

lemma length_app_to_json: "8 \<le> length (app_to_json a)"
  by (simp add: app_to_json_def)

lemma length_push_apps: "length as \<le> length (push_apps False as)"
  by (induction as) simp_all

section \<open>Properties\<close>

text \<open>
  C23. The application list crosses to the user interface unharmed: whatever characters the names, identifiers, versions and
  paths hold, quotes, backslashes and control characters included, the text is valid JSON and a reader gets
  back the list of descriptors, in order, each with its four strings and whether it has an icon.
\<close>

theorem apps_json_roundtrip: "json_parse (apps_to_json apps) = Some (JArray (map app_json apps))"
proof (cases apps)
  case Nil
  then show ?thesis by (simp add: json_parse_def apps_to_json_def)
next
  case (Cons a as)
  let ?body = "app_to_json a @ push_apps False as @ '']''"
  have "length as + 8 \<le> length ?body" using length_push_apps [of as] length_app_to_json [of a] by simp
  from json_elems_apps [OF this, of a "[]"] have "json_elems (length ?body) ?body = Some (map app_json apps, [])" using Cons by simp
  moreover have "\<not> prefix '']'' ?body" by (simp add: app_to_json_def)
  moreover have "apps_to_json apps = CHR ''['' # ?body" using Cons by (simp add: apps_to_json_def)
  ultimately show ?thesis by (simp add: json_parse_def del: length_append)
qed

end
