(* ===== verification/Spec2Isabelle.thy ===== *)
theory Spec2Isabelle
  imports Guest_Memory Vfs Macho_Roundtrip Dyld_Roundtrip Linker Syscall Loader_Relocation Emulator
    Plist_Binary Ipa_Scan Launch Jni
begin

text \<open>
  \<^bold>\<open>A verification development of an iOS emulator for Android.\<close>

  \<^bold>\<open>The program.\<close>  The emulator runs 64-bit iOS applications on an Android device.  The guest's ARM code runs
  on the processor itself; a system call of the guest and a jump to an imported function trap into a
  dispatch loop written in Rust.  The Rust workspace under \<open>src/crates\<close> has eight crates:

  \<^item> \<open>common\<close>: errors, guest addresses, page protections, page rounding;
  \<^item> \<open>memory\<close>: the guest's address space as a map of regions, and the bump allocator of its heap;
  \<^item> \<open>vfs\<close>: the translation of guest paths into a per-application directory of the host;
  \<^item> \<open>loader\<close>: the parsers of Mach-O files and of the bind and rebase streams of the dynamic linker, and the resolver
    that gives each imported symbol a trampoline address;
  \<^item> \<open>core\<close>: the register file, descriptors, system calls, the construction of a process from a file, and the
    execute/dispatch loop;
  \<^item> \<open>hle\<close>: the emulated libraries, an Objective-C runtime and C library functions among them;
  \<^item> \<open>ipa\<close>: property lists, the discovery of applications in archives and their extraction;
  \<^item> \<open>jni\<close>: scanning and launching, and the bridge to the user interface.

  A launch goes through all of them: \<open>ipa\<close> reads the archive and unpacks it into a directory that \<open>vfs\<close> prepares,
  \<open>core\<close> has \<open>loader\<close> parse the executable and maps it with \<open>memory\<close>, and the loop resumes an executor and
  services its events with the system calls of \<open>core\<close> or the functions of \<open>hle\<close>.

  \<^bold>\<open>Conventions.\<close>  A Rust call has one of three outcomes, \<open>Ok\<close>, \<open>Err\<close> and \<open>Panic\<close> (theory \<open>Rust_Prelude\<close>); a call
  that changes state is an action that returns the new state beside the outcome, on error paths too (\<open>Effects\<close>).
  Machine integers are words of their width, and arithmetic that the source does not check wraps around, as
  in a release build; a \<open>usize\<close> that is only a position in a slice is a natural number.  A \<open>BTreeMap\<close> is a sorted
  association list (\<open>Ordered_Map\<close>), a \<open>HashMap\<close> a partial function, a \<open>String\<close> the list of its UTF-8 bytes
  (\<open>Rust_Strings\<close>, \<open>Rust_Text\<close>), a floating point number its bit pattern.  Error texts are part of the
  model.  The host's files, clock and log, the archive library, the allocator and the
  executor written in C, and the Unicode tables behind \<open>to_lowercase\<close> are parameters.
\<close>

text \<open>
  \<^bold>\<open>Theories and sources.\<close>

  \<^item> \<open>Common\<close>: \<open>common/src/error.rs\<close>, \<open>guest.rs\<close>, \<open>lib.rs\<close>.
  \<^item> \<open>Guest_Memory\<close>: \<open>memory/src/region.rs\<close>, \<open>allocator.rs\<close>, \<open>lib.rs\<close>; the state is the record \<open>guest_memory\<close>, its invariant
    \<open>mem_wf\<close>, its abstraction the byte map \<open>mem_cell\<close>.  \<open>Memory_Room\<close>: when accesses and mappings succeed.
    \<open>Byte_Store\<close>: the interface to the clients.
  \<^item> \<open>Vfs\<close>: \<open>vfs/src/translate.rs\<close>, \<open>sandbox.rs\<close>.
  \<^item> \<open>Macho_Reader\<close>, \<open>Macho_Image\<close>, \<open>Macho_Roundtrip\<close>: \<open>loader/src/macho\<close>.  \<open>Dyld_Info\<close>, \<open>Dyld_Roundtrip\<close>:
    \<open>loader/src/dyld/bind.rs\<close>, \<open>rebase.rs\<close>.  \<open>Linker\<close>: \<open>loader/src/dyld/linker.rs\<close>.
  \<^item> \<open>Cpu\<close>, \<open>Fd_Table\<close>, \<open>Syscall_Defs\<close>, \<open>Syscall\<close>: \<open>core/src/cpu.rs\<close>, \<open>fd.rs\<close>, \<open>syscall/\<close>.
  \<^item> \<open>Process_Loader\<close>, \<open>Loader_Layout\<close>, \<open>Loader_Success\<close>, \<open>Loader_Relocation\<close>: \<open>core/src/loader.rs\<close>, one definition per
    numbered step of \<open>build_process\<close>.
  \<^item> \<open>Host_Env\<close>: \<open>core/src/env.rs\<close>.  \<open>Machine\<close>, \<open>Machine_Run\<close>: \<open>core/src/machine.rs\<close>.
  \<^item> \<open>Hle_Runtime\<close>, \<open>Hle_Shims\<close>, \<open>Hle\<close>: \<open>hle/src/objc/runtime.rs\<close>, \<open>hle/src/frameworks\<close>, \<open>hle/src/lib.rs\<close>.  \<open>Emulator\<close>: the
    running process with its libraries.
  \<^item> \<open>Plist\<close>, \<open>Plist_Binary\<close>, \<open>Plist_Xml\<close>: \<open>ipa/src/plist.rs\<close>.  \<open>Ipa\<close>, \<open>Ipa_Confined\<close>, \<open>Ipa_Scan\<close>: \<open>ipa/src/discovery.rs\<close>,
    \<open>extract.rs\<close>.
  \<^item> \<open>Container_Id\<close>, \<open>Session\<close>, \<open>Launch\<close>: \<open>jni/src/session.rs\<close>.  \<open>Jni\<close>: \<open>jni/src/lib.rs\<close>.

  \<^bold>\<open>Interfaces.\<close>  The locales state what one component relies on in another, and are interpreted on the model:
  \<open>ordered_map\<close> and \<open>interval_map\<close> (the region map), \<open>byte_store\<close> (guest memory for its clients), \<open>descriptor_table\<close>,
  \<open>symbol_resolver\<close>, \<open>executor\<close> (what the loop relies on in an executor), \<open>host_env\<close> (what it relies on in the
  emulated libraries), \<open>run_loop\<close> (both together), \<open>handler_frame\<close> and \<open>handler_invariant\<close> (what a property of the call context needs to survive
  every system call but \<open>exit\<close>, and every one), \<open>write_invariant\<close> and \<open>load_invariant\<close> (the same for memory and the steps of a load).
\<close>

text \<open>
  \<^bold>\<open>What is proved.\<close>

  \<^item> Memory: a write is the update of a byte map at the named addresses; the overlap check against one neighbour
    agrees with a check against every region; anonymous mappings and heap blocks are fresh and disjoint.
  \<^item> Paths: the component stack agrees with a reference that cancels parent references from the right; a translated
    path stays in the container or a system tree, and in a system tree it is marked read-only (inside the container
    nothing is promised of the mark, not even for the application bundle).
  \<^item> Files of the loader: the Mach-O parser inverts a reference encoder and never panics; the streams of the dynamic linker
    refine an abstract machine over opcodes; LEB128 numbers round-trip; the stream parsers never index out of bounds.
  \<^item> Process construction: an image that fits is loaded; rebased and bound slots hold what they must and no other byte
    changes; the device build's reservation holds exactly the segments that do not start below \<open>__TEXT\<close>; the initial stack is laid out as the argument registers say; no page ends up writable and executable
    unless the file asks for it.
  \<^item> Running: the loop computes the life of a guest process, given by an operational semantics of its own (\<open>guest_step\<close>,
    \<open>guest_ends\<close> in \<open>Machine_Run\<close>), results and divergence included; the lazy binder patches and jumps;
    a system call follows the register convention and leaves every other register alone; \<open>open\<close> touches one host file, inside the sandbox; an
    object answers with its class; \<open>memcpy\<close> copies overlapping ranges; the whole process stays well formed along every run.
  \<^item> Applications: both property-list formats read back what an encoder writes; a text never makes the parser panic, while a
    dictionary whose count wraps around does; extraction and installation stay below their directory; container names do not collide; the main
    bundle is a shallowest one; a scan returns every archive that parses, in order of names, unless listing fails or an archive aborts the parser; the application list crosses to the user interface unharmed; a launch without a
    device returns a failure.

  \<^bold>\<open>Bounds and termination.\<close>  Recursive definitions are total, by measures on the rest of the input (the parsers), on the depth
  left below the guard of 128 (binary property lists) or on a counter of the source.  The run loop may run forever
  and is a partial function to options; \<open>None\<close> stands for a guest that never stops.  The reference reader of
  \<open>Jni\<close> takes fuel, for which the length of the text is enough.  Files are assumed shorter than \<open>2 ^ 64\<close>
  bytes where a position is computed in machine words, and encoded property lists shorter than
  \<open>2 ^ 58\<close> bytes, so that a vector with one entry per object can be allocated.

  \<^bold>\<open>Not modelled.\<close>  The C sources under \<open>native\<close>, which run guest code on the processor and back guest memory by
  real pages, are parameters: the executor, the allocator of the device build and its outcomes.  The Android
  application under \<open>frontend\<close> is user interface code that calls the bridge.  Log lines are left out, except
  what the guest itself writes to its output or passes to \<open>NSLog\<close>; so are \<open>JNI_OnLoad\<close> and \<open>logging.rs\<close>, which set
  logging up.  Debug builds, where unchecked overflow panics, running out of host memory, the depth of the host
  stack, and symbolic links of the host's file system are outside the model.
\<close>

end
